(* ===== verification/TG_Prelude.thy ===== *)
theory TG_Prelude
  imports
    Complex_Main
    "HOL-Library.Char_ord"
    "HOL-Library.List_Lexorder"
    "HOL-Library.Word"
    "HOL-Library.Sublist"
begin

text \<open>
  Shared vocabulary of the Territory Grounder development.

  Go strings are byte strings, and so is HOL's \<^typ>\<open>string\<close> (a \<^typ>\<open>char\<close> is one byte).
  This theory models the functions of Go's \<^verbatim>\<open>strings\<close>, \<^verbatim>\<open>strconv\<close> and \<^verbatim>\<open>fmt\<close> packages
  that the modelled sources call, the values of Go's \<^verbatim>\<open>float64\<close> and \<^verbatim>\<open>time\<close> types as far as the
  sources compare them, and the generic lemmas on lists and maps the components share.

  Case folding and white space follow the ASCII tables: a byte of value 128 or more is never
  a space and has no case. Go's tables add non-ASCII letters and spaces on top of that.
\<close>

section \<open>Rule collections\<close>

named_theorems tg_consts \<open>constants whose values the source fixes\<close>
named_theorems tg_defs \<open>definitions of the model that unfold freely\<close>


section \<open>Go strings\<close>

definition is_space :: "char \<Rightarrow> bool" where
  "is_space c \<longleftrightarrow> (let n = of_char c :: nat in n = 32 \<or> 9 \<le> n \<and> n \<le> 13)"

definition to_lower_char :: "char \<Rightarrow> char" where
  "to_lower_char c =
     (if 65 \<le> (of_char c :: nat) \<and> (of_char c :: nat) \<le> 90 then char_of ((of_char c :: nat) + 32) else c)"

definition trim_space :: "string \<Rightarrow> string" where
  "trim_space s = rev (dropWhile is_space (rev (dropWhile is_space s)))"

definition to_lower :: "string \<Rightarrow> string" where
  "to_lower s = map to_lower_char s"

text \<open>The key normalisation that half of the code base applies: trimmed, then lower-cased.\<close>

definition norm_key :: "string \<Rightarrow> string" where
  "norm_key s = to_lower (trim_space s)"

definition equal_fold :: "string \<Rightarrow> string \<Rightarrow> bool" where
  "equal_fold a b \<longleftrightarrow> to_lower a = to_lower b"

definition has_prefix :: "string \<Rightarrow> string \<Rightarrow> bool" where
  "has_prefix s p \<longleftrightarrow> take (length p) s = p"

definition has_suffix :: "string \<Rightarrow> string \<Rightarrow> bool" where
  "has_suffix s p \<longleftrightarrow> length p \<le> length s \<and> drop (length s - length p) s = p"

definition trim_prefix :: "string \<Rightarrow> string \<Rightarrow> string" where
  "trim_prefix s p = (if has_prefix s p then drop (length p) s else s)"

definition trim_suffix :: "string \<Rightarrow> string \<Rightarrow> string" where
  "trim_suffix s p = (if has_suffix s p then take (length s - length p) s else s)"

text \<open>\<^verbatim>\<open>strings.Trim(s, "c")\<close> with a cutset of one byte.\<close>

definition trim_char :: "char \<Rightarrow> string \<Rightarrow> string" where
  "trim_char c s = rev (dropWhile (\<lambda>x. x = c) (rev (dropWhile (\<lambda>x. x = c) s)))"

fun str_contains :: "string \<Rightarrow> string \<Rightarrow> bool" where
  "str_contains [] sub \<longleftrightarrow> sub = []"
| "str_contains (c # cs) sub \<longleftrightarrow> has_prefix (c # cs) sub \<or> str_contains cs sub"

fun join :: "string \<Rightarrow> string list \<Rightarrow> string" where
  "join sep [] = []"
| "join sep [x] = x"
| "join sep (x # y # zs) = x @ sep @ join sep (y # zs)"

section \<open>Formatting\<close>

fun nat_digits :: "nat \<Rightarrow> string" where
  "nat_digits n =
     (if n < 10 then [char_of (48 + n)] else nat_digits (n div 10) @ [char_of (48 + n mod 10)])"

declare nat_digits.simps [simp del]

definition itoa :: "int \<Rightarrow> string" where
  "itoa n = (if n < 0 then CHR ''-'' # nat_digits (nat (- n)) else nat_digits (nat n))"

definition btoa :: "bool \<Rightarrow> string" where
  "btoa b = (if b then ''true'' else ''false'')"

text \<open>The UTF-8 bytes of the em dash and the arrow that the source's messages contain.\<close>

definition emdash :: string where
  "emdash = [CHR 0xE2, CHR 0x80, CHR 0x94]"

definition rarrow :: string where
  "rarrow = [CHR 0xE2, CHR 0x86, CHR 0x92]"

text \<open>
  \<^verbatim>\<open>fmt\<close>'s \<^verbatim>\<open>%q\<close> verb on printable text: the string between double quotes, with the quote and
  the backslash escaped.
\<close>

definition dquote :: char where
  "dquote = CHR 0x22"

definition backslash :: char where
  "backslash = CHR 0x5C"

definition quoted :: "string \<Rightarrow> string" where
  "quoted s =
     dquote # concat (map (\<lambda>c. if c = dquote \<or> c = backslash then [backslash, c] else [c]) s) @ [dquote]"


section \<open>Floating point values as the sources compare them\<close>

text \<open>
  The sources never add or multiply the \<^verbatim>\<open>float64\<close> values modelled here, they only compare
  them. A \<^verbatim>\<open>float64\<close> is therefore a rational, an infinity or NaN, and every comparison with NaN
  is false.
\<close>

datatype float64 = NaN | NInf | PInf | Fin rat

fun flt :: "float64 \<Rightarrow> float64 \<Rightarrow> bool" where
  "flt (Fin a) (Fin b) \<longleftrightarrow> a < b"
| "flt NInf NInf \<longleftrightarrow> False"
| "flt NInf NaN \<longleftrightarrow> False"
| "flt NInf _ \<longleftrightarrow> True"
| "flt PInf _ \<longleftrightarrow> False"
| "flt (Fin _) PInf \<longleftrightarrow> True"
| "flt (Fin _) _ \<longleftrightarrow> False"
| "flt NaN _ \<longleftrightarrow> False"

lemma flt_NaN_right [simp]: "\<not> flt a NaN"
  by (cases a) auto

lemma flt_irrefl [simp]: "\<not> flt a a"
  by (cases a) auto


section \<open>Time\<close>

text \<open>
  An instant is its distance in nanoseconds from Go's zero \<^verbatim>\<open>time.Time\<close>, so the zero value of
  the type is 0. \<^verbatim>\<open>Time.Sub\<close> saturates at the range of the 64-bit \<^verbatim>\<open>Duration\<close>.
\<close>

type_synonym instant = int
type_synonym duration = int

definition time_sub :: "instant \<Rightarrow> instant \<Rightarrow> duration" where
  "time_sub a b = max (- (2 ^ 63)) (min (2 ^ 63 - 1) (a - b))"

lemma time_sub_le_self:
  assumes "b \<le> a"
  shows "0 \<le> time_sub a b" and "time_sub a b \<le> a - b"
  using assms by (auto simp: time_sub_def)

lemma time_sub_gt:
  assumes "d < 2 ^ 63 - 1" and "0 \<le> d"
  shows "d < time_sub a b \<longleftrightarrow> d < a - b"
  using assms by (auto simp: time_sub_def)


section \<open>Generic lemmas\<close>

lemma to_lower_char_idem [simp]: "to_lower_char (to_lower_char c) = to_lower_char c"
  by (auto simp: to_lower_char_def of_char_of)

lemma to_lower_idem [simp]: "to_lower (to_lower s) = to_lower s"
  by (simp add: to_lower_def)

lemma length_to_lower [simp]: "length (to_lower s) = length s"
  by (simp add: to_lower_def)

lemma to_lower_Nil [simp]: "to_lower [] = []" "to_lower s = [] \<longleftrightarrow> s = []"
  by (simp_all add: to_lower_def)

lemma of_char_to_lower_char:
  "(of_char (to_lower_char c) :: nat) =
     (if 65 \<le> (of_char c :: nat) \<and> (of_char c :: nat) \<le> 90 then of_char c + 32 else of_char c)"
  by (simp add: to_lower_char_def)

lemma is_space_to_lower [simp]: "is_space (to_lower_char c) = is_space c"
  by (auto simp: is_space_def of_char_to_lower_char)

lemma dropWhile_to_lower: "dropWhile is_space (map to_lower_char s) = map to_lower_char (dropWhile is_space s)"
  by (induction s) auto

lemma trim_to_lower: "trim_space (to_lower s) = to_lower (trim_space s)"
  by (simp add: trim_space_def to_lower_def dropWhile_to_lower rev_map)

lemma dropWhile_idem [simp]: "dropWhile P (dropWhile P xs) = dropWhile P xs"
  by (induction xs) auto

lemma dropWhile_rev_dropWhile:
  "dropWhile P (rev (dropWhile P (rev (dropWhile P xs)))) = rev (dropWhile P (rev (dropWhile P xs)))"
proof (cases "dropWhile P xs")
  case Nil
  then show ?thesis by (simp only: rev.simps dropWhile.simps)
next
  case (Cons y ys)
  then have "\<not> P y" by (metis hd_dropWhile list.distinct(1) list.sel(1))
  then have "dropWhile P (rev (y # ys)) = dropWhile P (rev ys) @ [y]"
    by (simp add: dropWhile_append)
  with \<open>\<not> P y\<close> Cons show ?thesis by (simp only: rev_append rev.simps) simp
qed

lemma trim_space_idem [simp]: "trim_space (trim_space s) = trim_space s"
  by (simp add: trim_space_def dropWhile_rev_dropWhile)

lemma norm_key_idem [simp]: "norm_key (norm_key s) = norm_key s"
  by (simp add: norm_key_def trim_to_lower)

lemma norm_key_to_lower [simp]: "norm_key (to_lower s) = norm_key s"
  by (simp add: norm_key_def trim_to_lower)

lemma norm_key_trim [simp]: "norm_key (trim_space s) = norm_key s"
  by (simp add: norm_key_def)

text \<open>Padding with white space and changing the case of letters never changes the key.\<close>

lemma trim_space_pad:
  assumes "list_all is_space xs" and "list_all is_space ys"
  shows "trim_space (xs @ s @ ys) = trim_space s"
proof -
  have l: "dropWhile is_space (xs @ t) = dropWhile is_space t" for t
    using assms(1) by (induction xs) auto
  have r: "dropWhile is_space (rev ys @ t) = dropWhile is_space t" for t
    using assms(2) by (induction ys arbitrary: t) auto
  have "dropWhile is_space (rev (dropWhile is_space (s @ ys)))
          = dropWhile is_space (rev (dropWhile is_space s))"
  proof (cases "\<forall>c \<in> set s. is_space c")
    case True
    then have "dropWhile is_space (s @ ys) = []" and "dropWhile is_space s = []"
      using assms(2) by (auto simp: dropWhile_eq_Nil_conv list_all_iff)
    then show ?thesis by (simp only: rev.simps dropWhile.simps)
  next
    case False
    then have "dropWhile is_space (s @ ys) = dropWhile is_space s @ ys"
      by (auto simp: dropWhile_append1)
    then show ?thesis by (simp add: r)
  qed
  then show ?thesis by (simp add: trim_space_def l)
qed

lemma norm_key_pad:
  assumes "list_all is_space xs" and "list_all is_space ys" and "to_lower t = to_lower s"
  shows "norm_key (xs @ t @ ys) = norm_key s"
proof -
  have "norm_key (xs @ t @ ys) = norm_key t"
    using assms(1,2) by (simp add: norm_key_def trim_space_pad)
  also have "\<dots> = norm_key s"
    using assms(3) by (metis norm_key_to_lower)
  finally show ?thesis .
qed

subsection \<open>Strings\<close>

lemma has_prefix_prefix: "has_prefix s p \<longleftrightarrow> prefix p s"
  by (auto simp: has_prefix_def prefix_def) (metis append_take_drop_id)

lemma has_prefix_append [simp]: "has_prefix (p @ s) p"
  by (simp add: has_prefix_def)

lemma str_contains_iff: "str_contains s sub \<longleftrightarrow> (\<exists>u v. s = u @ sub @ v)"
proof (induction s)
  case Nil
  then show ?case by simp
next
  case (Cons c s)
  have "has_prefix (c # s) sub \<longleftrightarrow> (\<exists>v. c # s = sub @ v)"
    by (simp add: has_prefix_prefix prefix_def)
  moreover have "(\<exists>u v. c # s = u @ sub @ v) \<longleftrightarrow> (\<exists>v. c # s = sub @ v) \<or> (\<exists>u v. s = u @ sub @ v)"
    by (auto simp: Cons_eq_append_conv)
  ultimately show ?case using Cons by simp
qed

lemma str_contains_append: "str_contains (u @ sub @ v) sub"
  by (auto simp: str_contains_iff)

subsection \<open>Maps and lists\<close>

lemma sorted_remdups_sort [simp]: "sorted (remdups (sort xs))"
  by simp

lemma set_remdups_sort: "set (remdups (sort xs)) = set xs"
  by simp

text \<open>The sorted, duplicate-free enumeration of a set: how the sources render a Go set.\<close>

lemma remdups_sort_unique:
  assumes "set xs = set ys"
  shows "remdups (sort xs) = remdups (sort (ys :: 'a::linorder list))"
  using assms by (intro sorted_distinct_set_unique) auto

lemma find_unique:
  assumes "x \<in> set xs" and "P x" and "\<And>y. y \<in> set xs \<Longrightarrow> P y \<Longrightarrow> y = x"
  shows "find P xs = Some x"
proof (cases "find P xs")
  case None
  then show ?thesis using assms(1,2) by (simp add: find_None_iff)
next
  case (Some y)
  then have "y \<in> set xs" and "P y" by (auto simp: find_Some_iff)
  then show ?thesis using assms(3) Some by blast
qed

end
