(* ===== verification/TG_Regex.thy ===== *)
theory TG_Regex
  imports TG_Prelude
begin

text \<open>
  Go's \<^verbatim>\<open>regexp\<close> package, as far as the safety patterns use it. \<^verbatim>\<open>MatchString\<close> asks whether some
  substring matches, so the greedy or lazy preference of a repetition plays no role and the
  matcher may collect every possible end of a match. A position is the byte before it, if any,
  and the text after it: that is what the word boundary \<^verbatim>\<open>\b\<close> looks at.

  Every pattern of the source carries \<^verbatim>\<open>(?i)\<close>; patterns are written in lower case here and the
  text is lower-cased before matching.
\<close>

datatype rx =
    Eps
  | Cls "char \<Rightarrow> bool"
  | Seq rx rx
  | Alt rx rx
  | Star rx
  | UpTo nat rx
  | Bnd

definition word_char :: "char \<Rightarrow> bool" where
  "word_char c \<longleftrightarrow>
     (let n = of_char c :: nat in
        48 \<le> n \<and> n \<le> 57 \<or> 65 \<le> n \<and> n \<le> 90 \<or> 97 \<le> n \<and> n \<le> 122 \<or> n = 95)"

text \<open>The class \<^verbatim>\<open>\s\<close> of RE2 has no vertical tab.\<close>

definition rx_space :: "char \<Rightarrow> bool" where
  "rx_space c \<longleftrightarrow> (let n = of_char c :: nat in n = 32 \<or> n = 9 \<or> n = 10 \<or> n = 12 \<or> n = 13)"

definition digit_char :: "char \<Rightarrow> bool" where
  "digit_char c \<longleftrightarrow> (let n = of_char c :: nat in 48 \<le> n \<and> n \<le> 57)"

definition lower_char :: "char \<Rightarrow> bool" where
  "lower_char c \<longleftrightarrow> (let n = of_char c :: nat in 97 \<le> n \<and> n \<le> 122)"

type_synonym rx_pos = "char option \<times> string"

definition word_before :: "char option \<Rightarrow> bool" where
  "word_before p = (case p of None \<Rightarrow> False | Some c \<Rightarrow> word_char c)"

definition word_after :: "string \<Rightarrow> bool" where
  "word_after s = (case s of [] \<Rightarrow> False | c # _ \<Rightarrow> word_char c)"

definition at_boundary :: "char option \<Rightarrow> string \<Rightarrow> bool" where
  "at_boundary p s \<longleftrightarrow> word_before p \<noteq> word_after s"

primrec rx_size :: "rx \<Rightarrow> nat" where
  "rx_size Eps = 0"
| "rx_size (Cls f) = 0"
| "rx_size (Seq a b) = Suc (rx_size a + rx_size b)"
| "rx_size (Alt a b) = Suc (rx_size a + rx_size b)"
| "rx_size (Star a) = Suc (rx_size a)"
| "rx_size (UpTo n a) = Suc (n + rx_size a)"
| "rx_size Bnd = 0"

text \<open>All positions at which a match that starts at the given position can end.\<close>

function rx_ends :: "rx \<Rightarrow> char option \<Rightarrow> string \<Rightarrow> rx_pos list" where
  "rx_ends Eps p s = [(p, s)]"
| "rx_ends (Cls f) p s = (case s of [] \<Rightarrow> [] | c # cs \<Rightarrow> if f c then [(Some c, cs)] else [])"
| "rx_ends (Seq a b) p s = concat (map (\<lambda>(p', s'). rx_ends b p' s') (rx_ends a p s))"
| "rx_ends (Alt a b) p s = rx_ends a p s @ rx_ends b p s"
| "rx_ends (Star a) p s =
     (p, s) # concat (map (\<lambda>(p', s'). rx_ends (Star a) p' s')
                          (filter (\<lambda>m. length (snd m) < length s) (rx_ends a p s)))"
| "rx_ends (UpTo 0 a) p s = [(p, s)]"
| "rx_ends (UpTo (Suc n) a) p s =
     (p, s) # concat (map (\<lambda>(p', s'). rx_ends (UpTo n a) p' s') (rx_ends a p s))"
| "rx_ends Bnd p s = (if at_boundary p s then [(p, s)] else [])"
  by pat_completeness auto
termination
  by (relation "measures [\<lambda>(r, p, s). rx_size r, \<lambda>(r, p, s). length s]") auto

fun rx_search :: "rx \<Rightarrow> char option \<Rightarrow> string \<Rightarrow> bool" where
  "rx_search r p [] \<longleftrightarrow> rx_ends r p [] \<noteq> []"
| "rx_search r p (c # cs) \<longleftrightarrow> rx_ends r p (c # cs) \<noteq> [] \<or> rx_search r (Some c) cs"

text \<open>\<^verbatim>\<open>MatchString\<close> of a pattern compiled with \<^verbatim>\<open>(?i)\<close>.\<close>

definition match_string_ci :: "rx \<Rightarrow> string \<Rightarrow> bool" where
  "match_string_ci r s \<longleftrightarrow> rx_search r None (to_lower s)"

section \<open>Pattern combinators\<close>

fun lit :: "string \<Rightarrow> rx" where
  "lit [] = Eps"
| "lit [c] = Cls (\<lambda>x. x = c)"
| "lit (c # d # cs) = Seq (Cls (\<lambda>x. x = c)) (lit (d # cs))"

fun alts :: "rx list \<Rightarrow> rx" where
  "alts [] = Cls (\<lambda>_. False)"
| "alts [r] = r"
| "alts (r # q # rs) = Alt r (alts (q # rs))"

fun seqs :: "rx list \<Rightarrow> rx" where
  "seqs [] = Eps"
| "seqs [r] = r"
| "seqs (r # q # rs) = Seq r (seqs (q # rs))"

definition words :: "string list \<Rightarrow> rx" where
  "words ws = alts (map lit ws)"

definition plus_rx :: "rx \<Rightarrow> rx" where
  "plus_rx r = Seq r (Star r)"

definition opt_rx :: "rx \<Rightarrow> rx" where
  "opt_rx r = Alt r Eps"

definition sp1 :: rx where
  "sp1 = plus_rx (Cls rx_space)"

definition w0 :: rx where
  "w0 = Star (Cls word_char)"

definition cls_of :: "string \<Rightarrow> rx" where
  "cls_of cs = Cls (\<lambda>x. x \<in> set cs)"

definition cls_not :: "string \<Rightarrow> rx" where
  "cls_not cs = Cls (\<lambda>x. x \<notin> set cs)"

text \<open>Words separated by \<^verbatim>\<open>\s+\<close>.\<close>

definition cmd :: "string list \<Rightarrow> rx" where
  "cmd ws = seqs (foldr (\<lambda>w rs. if rs = [] then [lit w] else lit w # sp1 # rs) ws [])"

section \<open>Facts about the matcher\<close>

definition rx_matches :: "rx \<Rightarrow> rx_pos \<Rightarrow> rx_pos \<Rightarrow> bool" where
  "rx_matches r a b \<longleftrightarrow> b \<in> set (rx_ends r (fst a) (snd a))"

lemma rx_matches_Eps [simp]: "rx_matches Eps a b \<longleftrightarrow> b = a"
  by (auto simp: rx_matches_def)

lemma rx_matches_Seq: "rx_matches (Seq r q) a b \<longleftrightarrow> (\<exists>m. rx_matches r a m \<and> rx_matches q m b)"
  by (force simp: rx_matches_def)

lemma rx_matches_Alt: "rx_matches (Alt r q) a b \<longleftrightarrow> rx_matches r a b \<or> rx_matches q a b"
  by (auto simp: rx_matches_def)

lemma rx_matches_Bnd [simp]: "rx_matches Bnd a b \<longleftrightarrow> b = a \<and> at_boundary (fst a) (snd a)"
  by (cases a) (auto simp: rx_matches_def)

lemma rx_matches_Cls: "rx_matches (Cls f) a b \<longleftrightarrow> (\<exists>c cs. snd a = c # cs \<and> f c \<and> b = (Some c, cs))"
  by (auto simp: rx_matches_def split: list.splits)

definition last_or :: "char option \<Rightarrow> string \<Rightarrow> char option" where
  "last_or p w = (if w = [] then p else Some (last w))"

lemma last_or_simps [simp]:
  "last_or p [] = p" "last_or p (c # cs) = last_or (Some c) cs"
  by (auto simp: last_or_def)

lemma rx_matches_lit: "rx_matches (lit w) (p, w @ s) (last_or p w, s)"
proof (induction w arbitrary: p rule: lit.induct)
  case (3 c d cs)
  have "rx_matches (Cls (\<lambda>x. x = c)) (p, (c # d # cs) @ s) (Some c, (d # cs) @ s)"
    by (simp add: rx_matches_Cls)
  moreover have "rx_matches (lit (d # cs)) (Some c, (d # cs) @ s) (last_or (Some c) (d # cs), s)"
    by (rule "3.IH")
  ultimately show ?case by (auto simp: rx_matches_Seq)
qed (auto simp: rx_matches_Cls)

lemma rx_matches_alts: "rx_matches (alts rs) a b \<longleftrightarrow> (\<exists>r \<in> set rs. rx_matches r a b)"
  by (induction rs rule: alts.induct) (auto simp: rx_matches_Alt rx_matches_Cls)

lemma rx_search_append:
  assumes "rx_matches r (last_or p u, v) b"
  shows "rx_search r p (u @ v)"
  using assms
proof (induction u arbitrary: p)
  case Nil
  then show ?case by (cases v) (auto simp: rx_matches_def)
next
  case (Cons c u)
  then show ?case by simp
qed

lemma rx_search_Alt: "rx_search (Alt r q) p s \<longleftrightarrow> rx_search r p s \<or> rx_search q p s"
  by (induction s arbitrary: p) auto

text \<open>
  A pattern that starts and ends at a word boundary finds every word of its alternation that
  stands between boundaries.
\<close>

lemma rx_search_bounded:
  assumes "rx_matches r (last_or None u, w @ v) (q, v)"
    and "at_boundary (last_or None u) (w @ v)" and "at_boundary q v"
  shows "rx_search (Seq Bnd (Seq r Bnd)) None (u @ w @ v)"
proof -
  have "rx_matches (Seq Bnd (Seq r Bnd)) (last_or None u, w @ v) (q, v)"
    using assms by (auto simp: rx_matches_Seq)
  then show ?thesis by (rule rx_search_append)
qed

end
