(* ===== verification/Safety.thy ===== *)
theory Safety
  imports TG_Regex
begin

text \<open>
  The mechanical safety core, \<^verbatim>\<open>core/safety/safety.go\<close>: autonomy bands, mechanical verdicts, the
  never-auto floor, the high-risk alert categories, and the patterns that recognise stateful
  workloads, restarts and destructive operations in the text of an action.

  \<^verbatim>\<open>Band\<close> is a Go \<^verbatim>\<open>int\<close> and \<^verbatim>\<open>Verdict\<close> a Go \<^verbatim>\<open>string\<close>, so values outside the declared constants
  exist and the code has branches for them; both types are kept as they are.
\<close>

section \<open>Bands and verdicts\<close>

type_synonym band = int

definition BandPollPause :: band where [tg_consts]: "BandPollPause = 0"
definition BandAutoNotice :: band where [tg_consts]: "BandAutoNotice = 1"
definition BandAuto :: band where [tg_consts]: "BandAuto = 2"

definition band_string :: "band \<Rightarrow> string" where
  "band_string b =
     (if b = BandAuto then ''AUTO''
      else if b = BandAutoNotice then ''AUTO_NOTICE''
      else ''POLL_PAUSE'')"

type_synonym verdict = string

definition VerdictMatch :: verdict where [tg_consts]: "VerdictMatch = ''match''"
definition VerdictPartial :: verdict where [tg_consts]: "VerdictPartial = ''partial''"
definition VerdictDeviation :: verdict where [tg_consts]: "VerdictDeviation = ''deviation''"

definition valid_verdict :: "verdict \<Rightarrow> bool" where
  "valid_verdict v \<longleftrightarrow> v = VerdictMatch \<or> v = VerdictPartial \<or> v = VerdictDeviation"

section \<open>The never-auto floor\<close>

definition neverAutoFloor :: "string list" where
  "neverAutoFloor =
     [''mkfs'', ''dropdb'', ''zpool-destroy'', ''zfs-destroy'',
      ''tofu-destroy'', ''terraform-destroy'', ''kubectl-delete'', ''kubectl-drain'',
      ''credential-revoke'', ''config-overwrite'', ''reboot'', ''jailbreak'',
      ''wipefs'', ''shred'', ''blkdiscard'', ''dd'',
      ''vgremove'', ''lvremove'', ''pvremove'',
      ''zfs-rollback'', ''zpool-offline'',
      ''drop-table'', ''truncate-table'', ''drop-database'',
      ''docker-system-prune'', ''docker-volume-prune'', ''docker-network-prune'',
      ''shutdown'', ''halt'', ''poweroff'',
      ''write-erase'', ''erase-startup-config'', ''erase-nvram'', ''erase-flash'',
      ''no-ip-routing'', ''default-interface'', ''clear-configure-all'',
      ''no-interface'', ''interface-shutdown'',
      ''vlan-delete'', ''route-delete'', ''acl-delete'', ''trunk-remove'', ''no-spanning-tree'',
      ''force-push'', ''branch-delete'', ''tag-delete'', ''ref-delete'',
      ''deploy-key-revoke'', ''pipeline-delete'', ''environment-destroy'',
      ''repo-delete'', ''release-delete'', ''runner-unregister'']"

definition IsNeverAuto :: "string \<Rightarrow> bool" where
  "IsNeverAuto opClass \<longleftrightarrow> norm_key opClass \<in> set neverAutoFloor"

definition NeverAutoClasses :: "string list" where
  "NeverAutoClasses = sort neverAutoFloor"

section \<open>High-risk alert categories\<close>

definition highRiskCategories :: "string list" where
  "highRiskCategories = [''maintenance'', ''security-incident'', ''deployment'']"

definition HighRiskCategory :: "string \<Rightarrow> bool" where
  "HighRiskCategory category \<longleftrightarrow> norm_key category \<in> set highRiskCategories"

section \<open>Patterns over the text of an action\<close>

definition word_or_dash :: "char \<Rightarrow> bool" where
  "word_or_dash c \<longleftrightarrow> word_char c \<or> c = CHR ''-''"

definition statefulDenyRE :: rx where
  "statefulDenyRE =
     alts
       ([lit ''etcd'', Seq (lit ''postgres'') w0, Seq (lit ''mysql'') w0, Seq (lit ''mariadb'') w0,
         lit ''seaweedfs'', lit ''thanos'', Seq (lit ''redis'') w0, lit ''prometheus'',
         Seq (lit ''mongo'') w0, lit ''cassandra'', lit ''elasticsearch'', lit ''opensearch'',
         lit ''vault'', lit ''openbao'', lit ''consul'', lit ''clickhouse'', lit ''kafka'',
         lit ''zookeeper'', lit ''rabbitmq'', lit ''nats'', lit ''minio'', Seq (lit ''influxdb'') w0,
         Seq (lit ''victoria'') w0, lit ''loki'', Seq (lit ''cockroach'') w0,
         lit ''mssql'', lit ''sqlserver'', Seq (lit ''oracle'') w0, Seq (lit ''couch'') w0,
         lit ''neo4j'', lit ''qdrant'', lit ''weaviate'', lit ''valkey'',
         Seq (lit ''percona'') w0, lit ''proxysql'', lit ''graylog'',
         lit ''statefulset'',
         Seq (plus_rx (Cls word_or_dash)) (lit ''-db''),
         Seq (plus_rx (Cls word_or_dash)) (lit ''-database'')]
        @ [lit ''sts/''])"

definition IsStatefulWorkload :: "string list \<Rightarrow> bool" where
  "IsStatefulWorkload parts \<longleftrightarrow> match_string_ci statefulDenyRE (join '' '' parts)"

definition dash_us :: rx where
  "dash_us = cls_of ''-_''"

definition dashed :: "string \<Rightarrow> string \<Rightarrow> rx list" where
  "dashed a b = [seqs [lit a, dash_us, lit b], seqs [lit b, dash_us, lit a]]"

definition restartClassRE :: rx where
  "restartClassRE =
     Seq Bnd (Seq (alts
       ([seqs [lit ''systemctl'', sp1,
               words [''restart'', ''start'', ''reload'', ''reload-or-restart'', ''try-restart'']],
         seqs [lit ''docker'', opt_rx (Seq sp1 (lit ''compose'')), sp1, lit ''restart''],
         cmd [''kubectl'', ''rollout'', ''restart''],
         seqs [words [''pct'', ''qm''], sp1, lit ''reboot'']]
        @ dashed ''restart'' ''service'' @ dashed ''start'' ''service'' @ dashed ''reload'' ''service''
        @ [seqs [lit ''docker'', opt_rx (Seq sp1 (lit ''compose'')), sp1, lit ''start'']]
        @ dashed ''restart'' ''container'' @ dashed ''start'' ''container''
        @ dashed ''start'' ''guest'' @ dashed ''stop'' ''guest''
        @ dashed ''stop'' ''service'' @ dashed ''stop'' ''container''
        @ dashed ''recreate'' ''container'')) Bnd)"

definition IsRestartClass :: "string list \<Rightarrow> bool" where
  "IsRestartClass parts \<longleftrightarrow> match_string_ci restartClassRE (join '' '' parts)"

text \<open>
  The destructive pattern is one alternation; the alternatives for host power and for
  credential revocation are parameters, because \<^verbatim>\<open>proseVariant\<close> swaps exactly those two.
\<close>

definition no_break :: "nat \<Rightarrow> rx" where
  "no_break n = UpTo n (cls_not (CHR 0x0A # ''|;&''))"

definition sp_flag :: "string \<Rightarrow> rx" where
  "sp_flag f = Seq (Cls rx_space) (lit f)"

definition fs_alts :: "rx list" where
  "fs_alts =
     [Seq (lit ''mkfs'') w0, lit ''wipefs'', lit ''shred'', lit ''blkdiscard'', Seq (lit ''dd'') Bnd,
      lit ''vgremove'', lit ''lvremove'', lit ''pvremove'',
      seqs [lit ''zpool'', sp1, words [''destroy'', ''offline'']],
      seqs [lit ''zfs'', sp1, words [''destroy'', ''rollback'']],
      seqs [lit ''drop'', sp1, words [''table'', ''database'', ''schema'']],
      cmd [''truncate'', ''table''], lit ''dropdb'',
      cmd [''rm'', ''-rf''], lit ''rmdir'',
      cmd [''terraform'', ''destroy''], cmd [''tofu'', ''destroy'']]"

definition infra_alts :: "rx list" where
  "infra_alts =
     [seqs [lit ''kubectl'', sp1, lit ''delete'', sp1,
            alts [lit ''pvc'', lit ''persistentvolumeclaim'', lit ''pv'',
                  Seq (lit ''persistentvolume'') w0, lit ''namespace'', lit ''ns'', lit ''secret'']],
      seqs [lit ''helm'', sp1, words [''uninstall'', ''delete'', ''rollback'']],
      seqs [lit ''kubectl'', sp1, lit ''apply'', Bnd, Star (cls_not ''|;&''), lit ''--prune''],
      seqs [lit ''docker'', sp1, words [''system'', ''volume'', ''network''], sp1, lit ''prune''],
      cmd [''certbot'', ''revoke''],
      cmd [''write'', ''erase''],
      seqs [lit ''erase'', sp1, words [''startup-config'', ''start'', ''nvram'', ''flash'']],
      cmd [''no'', ''ip'', ''routing''], cmd [''default'', ''interface''],
      seqs [lit ''clear'', sp1, lit ''config'', opt_rx (lit ''ure''), sp1, lit ''all''],
      seqs [lit ''no'', sp1,
            alts [cmd [''ip'', ''route''], lit ''access-list'', lit ''spanning-tree'',
                  cmd [''switchport'', ''trunk'']]],
      cmd [''ip'', ''link'', ''delete''],
      seqs [lit ''brctl'', sp1, lit ''del'', words [''br'', ''if'']],
      seqs [lit ''ovs-vsctl'', sp1, lit ''del-'', words [''br'', ''port'']],
      cmd [''nft'', ''flush'', ''ruleset''],
      seqs [lit ''iptables'', sp1, lit ''-'', cls_of ''fx'']]"

definition repo_alts :: "rx list" where
  "repo_alts =
     [seqs [lit ''git'', sp1, lit ''push'', Bnd, no_break 120,
            alts [lit ''--force-with-lease'', lit ''--force'', lit ''--delete'', sp_flag ''-f'', sp_flag ''-d'']],
      seqs [lit ''git'', sp1, lit ''branch'', Bnd, no_break 120,
            alts [lit ''--delete'', sp_flag ''-d'', sp_flag ''-d'']],
      seqs [lit ''git'', sp1, lit ''tag'', Bnd, no_break 120, alts [lit ''--delete'', sp_flag ''-d'']],
      cmd [''git'', ''reset'', ''--hard''],
      seqs [lit ''git'', sp1, lit ''clean'', Bnd, no_break 60, lit ''-'',
            Star (Cls lower_char), lit ''f'', Star (Cls lower_char)],
      cmd [''git'', ''update-ref'', ''-d''],
      seqs [lit ''git'', sp1, lit ''filter-'', words [''branch'', ''repo'']],
      seqs [words [''gh'', ''glab''], sp1,
            Star (Seq (plus_rx (Cls (\<lambda>c. word_char c \<or> c \<in> set ''.-''))) sp1),
            words [''pr'', ''mr''], sp1, lit ''merge''],
      seqs [words [''gh'', ''glab''], sp1,
            words [''release'', ''repo'', ''run'', ''variable'', ''ssh-key'', ''deploy-key''], sp1,
            words [''create'', ''delete'']],
      seqs [words [''gh'', ''glab''], sp1, lit ''api'', Bnd, UpTo 200 (cls_not [CHR 0x0A]),
            words [''-x'', ''--method''], sp1, words [''delete'', ''put'', ''post'']],
      seqs [lit ''glab'', sp1, words [''pipeline'', ''ci'', ''deploy-key'', ''environment''], sp1,
            words [''delete'', ''stop'', ''revoke'']],
      seqs [lit ''gh'', sp1, words [''run'', ''cache'', ''secret'', ''workflow''], sp1, lit ''delete''],
      cmd [''gitlab-runner'', ''unregister''],
      seqs [lit ''deploy'', dash_us, lit ''key'', sp1, words [''delete'', ''revoke'', ''remove'']]]"

definition destructive_pattern :: "rx list \<Rightarrow> rx list \<Rightarrow> rx" where
  "destructive_pattern hostPower revoke =
     alts [Seq Bnd (Seq (alts (fs_alts @ hostPower
               @ [seqs [words [''qm'', ''pct''], sp1, words [''destroy'', ''reset'']]]
               @ revoke @ infra_alts @ repo_alts)) Bnd),
           seqs [Bnd, lit ''rm'', Cls rx_space],
           seqs [Bnd, lit ''unlink'', Cls rx_space],
           seqs [Bnd, lit ''truncate'', sp1, lit ''-s'', Star (Cls rx_space), lit ''0'']]"

definition destructiveOpRE :: rx where
  "destructiveOpRE =
     destructive_pattern [lit ''shutdown'', lit ''halt'', lit ''poweroff''] [lit ''revoke'']"

definition IsDestructiveOp :: "string list \<Rightarrow> bool" where
  "IsDestructiveOp parts \<longleftrightarrow> match_string_ci destructiveOpRE (join '' '' parts)"

definition dashes12 :: rx where
  "dashes12 = Alt (lit ''-'') (lit ''--'')"

definition long_flag :: rx where
  "long_flag = seqs [dashes12, Cls lower_char, Star (Cls word_or_dash)]"

definition commandHostPower :: "rx list" where
  "commandHostPower =
     [lit ''poweroff'',
      seqs [lit ''shutdown'', sp1,
            alts [long_flag, lit ''now'', Seq (lit ''+'') (plus_rx (Cls digit_char)),
                  seqs [opt_rx (cls_of ''012''), Cls digit_char, lit '':'', cls_of ''012345'', Cls digit_char]]],
      seqs [words [''systemctl'', ''loginctl''], sp1,
            Star (seqs [dashes12, plus_rx (Cls word_or_dash), sp1]), words [''poweroff'', ''halt'']],
      seqs [lit ''halt'', sp1, long_flag],
      seqs [words [''sudo'', ''run'', ''execute'', ''exec''], sp1, words [''shutdown'', ''halt'']],
      seqs [words [''qm'', ''pct''], sp1, lit ''shutdown'', sp1, plus_rx (Cls word_char)]]"

definition commandRevoke :: "rx list" where
  "commandRevoke =
     [seqs [words [''vault'', ''bao''], sp1, opt_rx (Seq (words [''token'', ''lease'']) sp1), lit ''revoke''],
      seqs [lit ''openssl'', sp1, lit ''ca'', sp1, lit ''-revoke''],
      seqs [lit ''revoke'', sp1,
            words [''all'', ''select'', ''insert'', ''update'', ''delete'', ''usage'', ''execute'',
                   ''connect'', ''create'', ''grant''],
            Bnd, UpTo 120 (cls_not [CHR 0x0A]), Bnd, lit ''from'']]"

definition destructiveProseRE :: rx where
  "destructiveProseRE = destructive_pattern commandHostPower commandRevoke"

definition IsDestructiveProse :: "string \<Rightarrow> bool" where
  "IsDestructiveProse t \<longleftrightarrow> match_string_ci destructiveProseRE t"


section \<open>Facts\<close>

lemma band_consts_distinct [simp]:
  "BandPollPause \<noteq> BandAutoNotice" "BandPollPause \<noteq> BandAuto" "BandAutoNotice \<noteq> BandAuto"
  "BandAutoNotice \<noteq> BandPollPause" "BandAuto \<noteq> BandPollPause" "BandAuto \<noteq> BandAutoNotice"
  by (simp_all add: tg_consts)

lemma verdict_consts_distinct [simp]:
  "VerdictMatch \<noteq> VerdictPartial" "VerdictMatch \<noteq> VerdictDeviation" "VerdictPartial \<noteq> VerdictDeviation"
  "VerdictPartial \<noteq> VerdictMatch" "VerdictDeviation \<noteq> VerdictMatch" "VerdictDeviation \<noteq> VerdictPartial"
  by (simp_all add: tg_consts)

lemma IsNeverAuto_norm [simp]: "IsNeverAuto (norm_key s) = IsNeverAuto s"
  by (simp add: IsNeverAuto_def)

text \<open>A part of a space-joined text is preceded and followed by a space or by an end of the text.\<close>

definition space_end :: "char option \<Rightarrow> bool" where
  "space_end c \<longleftrightarrow> c = None \<or> c = Some (CHR '' '')"

lemma join_tail: "\<exists>v. join '' '' (p # ys) = p @ v \<and> space_end (case v of [] \<Rightarrow> None | c # _ \<Rightarrow> Some c)"
proof (cases ys)
  case Nil
  then show ?thesis by (intro exI [of _ "[]"]) (simp add: space_end_def)
next
  case (Cons y zs)
  then show ?thesis
    by (intro exI [of _ "'' '' @ join '' '' (y # zs)"]) (simp add: space_end_def)
qed

lemma join_space_part:
  "\<exists>u v. join '' '' (xs @ p # ys) = u @ p @ v
     \<and> space_end (last_or None u) \<and> space_end (case v of [] \<Rightarrow> None | c # _ \<Rightarrow> Some c)"
proof (induction xs rule: induct_list012)
  case 1
  obtain v where "join '' '' (p # ys) = p @ v" "space_end (case v of [] \<Rightarrow> None | c # _ \<Rightarrow> Some c)"
    using join_tail by blast
  then show ?case by (intro exI [of _ "[]"] exI [of _ v]) (simp add: space_end_def)
next
  case (2 x)
  obtain v where "join '' '' (p # ys) = p @ v" "space_end (case v of [] \<Rightarrow> None | c # _ \<Rightarrow> Some c)"
    using join_tail by blast
  then show ?case
    by (intro exI [of _ "x @ '' ''"] exI [of _ v]) (simp add: space_end_def last_or_def)
next
  case (3 x y zs)
  then obtain u v where uv: "join '' '' ((y # zs) @ p # ys) = u @ p @ v"
      "space_end (last_or None u)" "space_end (case v of [] \<Rightarrow> None | c # _ \<Rightarrow> Some c)"
    by blast
  have "join '' '' ((x # y # zs) @ p # ys) = (x @ '' '' @ u) @ p @ v"
    using uv(1) by simp
  moreover have "space_end (last_or None (x @ '' '' @ u))"
    using uv(2) by (auto simp: space_end_def last_or_def)
  ultimately show ?case using uv(3) by blast
qed

text \<open>The plain words of the destructive pattern: one of them between word boundaries is a hit.\<close>

definition destructive_words :: "string list" where
  "destructive_words =
     [''wipefs'', ''shred'', ''blkdiscard'', ''vgremove'', ''lvremove'', ''pvremove'', ''dropdb'',
      ''rmdir'', ''shutdown'', ''halt'', ''poweroff'', ''revoke'']"

lemma destructive_word_lit:
  assumes "w \<in> set destructive_words"
  shows "lit w \<in> set (fs_alts @ [lit ''shutdown'', lit ''halt'', lit ''poweroff'']
            @ [seqs [words [''qm'', ''pct''], sp1, words [''destroy'', ''reset'']]]
            @ [lit ''revoke''] @ infra_alts @ repo_alts)"
  using assms unfolding destructive_words_def fs_alts_def by (elim set_ConsD [THEN disjE]; simp)

lemma to_lower_append: "to_lower (a @ b) = to_lower a @ to_lower b"
  by (simp add: to_lower_def)

lemma space_end_no_word:
  "space_end c \<Longrightarrow> \<not> word_before c"
  "space_end (case v of [] \<Rightarrow> None | c # _ \<Rightarrow> Some c) \<Longrightarrow> \<not> word_after v"
  by (auto simp: space_end_def word_before_def word_after_def word_char_def split: list.splits)

lemma last_or_append: "last_or p (u @ w) = last_or (last_or p u) w"
  by (simp add: last_or_def)

lemma word_before_outer:
  assumes "\<not> word_before (last_or None x)"
  shows "word_before (last_or None (x @ u)) = word_before (last_or None u)"
  using assms by (cases "u = []") (simp_all add: last_or_def word_before_def)

lemma word_after_outer:
  assumes "\<not> word_after y"
  shows "word_after (v @ y) = word_after v"
  using assms by (cases v) (simp_all add: word_after_def)

lemma lower_space_end [simp]: "space_end (map_option to_lower_char c) = space_end c"
proof -
  have "to_lower_char x = CHR '' '' \<longleftrightarrow> x = CHR '' ''" for x
  proof
    assume a: "to_lower_char x = CHR '' ''"
    then have "(of_char (to_lower_char x) :: nat) = 32" by simp
    then have "(of_char x :: nat) = 32" by (auto simp: of_char_to_lower_char split: if_splits)
    then have "of_char x = (of_char (CHR '' '') :: nat)" by simp
    then show "x = CHR '' ''" by (simp only: of_char_eq_iff)
  qed (simp add: to_lower_char_def)
  then show ?thesis by (cases c) (auto simp: space_end_def)
qed

lemma last_or_to_lower: "last_or None (to_lower u) = map_option to_lower_char (last_or None u)"
  by (auto simp: last_or_def to_lower_def last_map)

lemma head_to_lower:
  "(case to_lower v of [] \<Rightarrow> None | c # _ \<Rightarrow> Some c)
     = map_option to_lower_char (case v of [] \<Rightarrow> None | c # _ \<Rightarrow> Some c)"
  by (cases v) (auto simp: to_lower_def)

text \<open>
  A literal of the wrapped alternation that stands between word boundaries inside one part is
  found in the joined text, because the joining space is no word character.
\<close>

lemma literal_in_part:
  assumes part: "p \<in> set parts" and low: "to_lower p = u @ w @ v" and w: "w \<noteq> []"
    and b1: "at_boundary (last_or None u) (w @ v)" and b2: "at_boundary (last_or None w) v"
    and r: "lit w \<in> set rs"
  shows "rx_search (Seq Bnd (Seq (alts rs) Bnd)) None (to_lower (join '' '' parts))"
proof -
  obtain xs ys where "parts = xs @ p # ys"
    using part by (meson split_list)
  then obtain x y where xy: "join '' '' parts = x @ p @ y" "space_end (last_or None x)"
      "space_end (case y of [] \<Rightarrow> None | c # _ \<Rightarrow> Some c)"
    using join_space_part by blast
  let ?x = "to_lower x" and ?y = "to_lower y"
  have nx: "\<not> word_before (last_or None ?x)"
    using xy(2) by (simp add: last_or_to_lower space_end_no_word)
  have ny: "\<not> word_after ?y"
    using xy(3) by (simp add: space_end_no_word head_to_lower)
  have "rx_matches (alts rs) (last_or None (?x @ u), w @ v @ ?y) (last_or (last_or None (?x @ u)) w, v @ ?y)"
    using r rx_matches_lit by (auto simp: rx_matches_alts)
  moreover have "at_boundary (last_or None (?x @ u)) (w @ v @ ?y)"
    using b1 nx ny w by (simp add: at_boundary_def word_before_outer word_after_outer [of ?y "w @ v", simplified])
  moreover have "at_boundary (last_or (last_or None (?x @ u)) w) (v @ ?y)"
    using b2 ny w by (simp add: at_boundary_def word_after_outer last_or_def)
  ultimately have "rx_search (Seq Bnd (Seq (alts rs) Bnd)) None ((?x @ u) @ w @ v @ ?y)"
    by (rule rx_search_bounded)
  then show ?thesis using xy(1) low by (simp add: to_lower_append)
qed

lemma floor_canonical: "list_all (\<lambda>c. norm_key c = c) neverAutoFloor"
  by code_simp

section \<open>Properties\<close>

text \<open>
  No spelling slips past the floor: an operation class is on the never-auto floor exactly when
  its trimmed lower-case form is one of the listed classes, so every listed class is recognised in
  any letter case and with any white space around it.
\<close>

theorem never_auto_spelling:
  assumes "c \<in> set neverAutoFloor" and "to_lower t = c"
    and "list_all is_space xs" and "list_all is_space ys"
  shows "IsNeverAuto (xs @ t @ ys)"
proof -
  have "norm_key c = c"
    using assms(1) floor_canonical by (simp add: list_all_iff)
  moreover have "norm_key (xs @ t @ ys) = norm_key c"
    using assms(2-) by (intro norm_key_pad) (metis to_lower_idem)+
  ultimately show ?thesis using assms(1) by (simp add: IsNeverAuto_def)
qed

theorem never_auto_spelling_witness:
  "''zpool-destroy'' \<in> set neverAutoFloor \<and> IsNeverAuto ('' '' @ ''ZPool-Destroy'' @ [CHR 0x0A])"
proof -
  have "''zpool-destroy'' \<in> set neverAutoFloor" by code_simp
  moreover have "to_lower ''ZPool-Destroy'' = ''zpool-destroy''" by code_simp
  moreover have "list_all is_space '' ''" and "list_all is_space [CHR 0x0A]" by code_simp+
  ultimately show ?thesis using never_auto_spelling by blast
qed

text \<open>
  The server-side check sees a destructive command whatever the declared class is: if any part
  of the action contains one of the destructive words, in any letter case, between word boundaries,
  then \<^verbatim>\<open>IsDestructiveOp\<close> holds of the action.
\<close>

theorem destructive_word_detected:
  assumes "w \<in> set destructive_words" and "p \<in> set parts" and "to_lower p = u @ w @ v"
    and "at_boundary (last_or None u) (w @ v)" and "at_boundary (last_or None w) v"
  shows "IsDestructiveOp parts"
proof -
  have "w \<noteq> []" using assms(1) by (auto simp: destructive_words_def)
  with assms destructive_word_lit have
    "rx_search (Seq Bnd (Seq (alts (fs_alts @ [lit ''shutdown'', lit ''halt'', lit ''poweroff'']
            @ [seqs [words [''qm'', ''pct''], sp1, words [''destroy'', ''reset'']]]
            @ [lit ''revoke''] @ infra_alts @ repo_alts)) Bnd)) None (to_lower (join '' '' parts))"
    by (intro literal_in_part)
  then show ?thesis
    by (simp only: IsDestructiveOp_def match_string_ci_def destructiveOpRE_def destructive_pattern_def
        alts.simps rx_search_Alt simp_thms)
qed

theorem destructive_word_detected_witness:
  "IsDestructiveOp [''db01'', ''sudo DropDB prod'', ''restart-service'']"
proof -
  have "''dropdb'' \<in> set destructive_words" by code_simp
  moreover have "''sudo DropDB prod'' \<in> set [''db01'', ''sudo DropDB prod'', ''restart-service'']"
    by simp
  moreover have "to_lower ''sudo DropDB prod'' = ''sudo '' @ ''dropdb'' @ '' prod''" by code_simp
  moreover have "at_boundary (last_or None ''sudo '') (''dropdb'' @ '' prod'')"
    and "at_boundary (last_or None ''dropdb'') '' prod''"
    by code_simp+
  ultimately show ?thesis by (rule destructive_word_detected)
qed

end
