(* ===== verification/Ledger.thy ===== *)
theory Ledger
  imports Safety
begin

text \<open>
  The governance ledger: \<^verbatim>\<open>core/audit/ledger.go\<close> (the hash-chained append and its verifier),
  \<^verbatim>\<open>core/db/ledger.go\<close> (the Postgres table behind it) and
  \<^verbatim>\<open>core/audit/risk_audit.go\<close> (the classification record).

  The hash is a parameter \<open>H\<close>: the hex digest of SHA-256 over a byte string. Nothing is assumed of
  it; a statement about tampering ends in ``or two different byte strings have the same hash''.

  A chain position is a 64-bit integer in the source; here it is an \<^typ>\<open>int\<close> (a ledger of
  \<open>2 ^ 63\<close> rows is out of reach), and its eight bytes in the hashed text are taken modulo
  \<open>2 ^ 64\<close>, as the conversion in the source does. The column \<^verbatim>\<open>CreatedAt\<close>, which the database
  fills in and which is not hashed, is left out.
\<close>

section \<open>Rows and their hash\<close>

record GovDecision =
  gd_Decision :: string
  gd_Reason :: string
  gd_ActionID :: string
  gd_Withheld :: bool

record LedgerEntry =
  le_Seq :: int
  le_Decision :: string
  le_Reason :: string
  le_ActionID :: string
  le_Withheld :: bool
  le_PrevHash :: string
  le_Hash :: string

text \<open>\<^verbatim>\<open>binary.BigEndian.PutUint64\<close>.\<close>

definition be64 :: "int \<Rightarrow> string" where
  "be64 n = map (\<lambda>k. char_of (nat (n mod 2 ^ 64 div 256 ^ k mod 256))) [7, 6, 5, 4, 3, 2, 1, 0]"

definition write_field :: "string \<Rightarrow> string" where
  "write_field s = be64 (int (length s)) @ s"

definition entry_bytes :: "int \<Rightarrow> string \<Rightarrow> string \<Rightarrow> string \<Rightarrow> bool \<Rightarrow> string \<Rightarrow> string" where
  "entry_bytes sq decision reason actionID withheld prevHash =
     be64 sq @ write_field decision @ write_field reason @ write_field actionID
     @ [if withheld then CHR 0x01 else CHR 0x00] @ write_field prevHash"

definition entryHash ::
    "(string \<Rightarrow> string) \<Rightarrow> int \<Rightarrow> string \<Rightarrow> string \<Rightarrow> string \<Rightarrow> bool \<Rightarrow> string \<Rightarrow> string" where
  "entryHash H sq decision reason actionID withheld prevHash =
     H (entry_bytes sq decision reason actionID withheld prevHash)"

definition row_bytes :: "LedgerEntry \<Rightarrow> string" where
  "row_bytes e = entry_bytes (le_Seq e) (le_Decision e) (le_Reason e) (le_ActionID e) (le_Withheld e) (le_PrevHash e)"

section \<open>Errors\<close>

datatype audit_error =
    ErrIncompleteDecision
  | ErrChainBusy
  | ErrDuplicateSeq int
  | StoreError string
  | TailReread audit_error
  | HeadContended "audit_error option"
  | ErrIncompleteAudit
  | SchemaUnregistered string

datatype chain_fault = NonMonotonicSeq nat int | PrevLinkBroken int | ContentTampered int

definition is_dup_seq :: "audit_error \<Rightarrow> bool" where
  "is_dup_seq e = (case e of ErrDuplicateSeq _ \<Rightarrow> True | _ \<Rightarrow> False)"

section \<open>The ledger\<close>

record Ledger =
  ld_entries :: "LedgerEntry list"
  ld_lastSeq :: int
  ld_lastHash :: string

definition NewLedger :: Ledger where
  "NewLedger = \<lparr>ld_entries = [], ld_lastSeq = 0, ld_lastHash = []\<rparr>"

definition NewLedgerFromTail :: "int \<Rightarrow> string \<Rightarrow> Ledger" where
  "NewLedgerFromTail sq h = \<lparr>ld_entries = [], ld_lastSeq = sq, ld_lastHash = h\<rparr>"

text \<open>
  A durable sink: \<^verbatim>\<open>PersistContext\<close> and, when the sink implements \<^verbatim>\<open>LedgerTailReader\<close>, \<^verbatim>\<open>Tail\<close>.
\<close>

record 'db sink =
  sk_persist :: "'db \<Rightarrow> LedgerEntry \<Rightarrow> 'db \<times> audit_error option"
  sk_tail :: "('db \<Rightarrow> 'db \<times> (audit_error + int \<times> string)) option"

definition maxSeqCollisionRetries :: nat where
  "maxSeqCollisionRetries = 16"

definition build_entry :: "(string \<Rightarrow> string) \<Rightarrow> Ledger \<Rightarrow> GovDecision \<Rightarrow> LedgerEntry" where
  "build_entry H l d =
     (let sq = ld_lastSeq l + 1; prev = ld_lastHash l in
      \<lparr>le_Seq = sq, le_Decision = gd_Decision d, le_Reason = gd_Reason d, le_ActionID = gd_ActionID d,
       le_Withheld = gd_Withheld d, le_PrevHash = prev,
       le_Hash = entryHash H sq (gd_Decision d) (gd_Reason d) (gd_ActionID d) (gd_Withheld d) prev\<rparr>)"

definition set_tail :: "Ledger \<Rightarrow> int \<Rightarrow> string \<Rightarrow> Ledger" where
  "set_tail l sq h = l\<lparr>ld_lastSeq := sq, ld_lastHash := h\<rparr>"

text \<open>
  The retry loop of the durable path. Other processes write the same table: \<open>env k\<close> is whatever
  they do at the \<open>k\<close>-th point where they can, which is before each insert and before each re-read
  of the tail.
\<close>

fun append_durable ::
    "(string \<Rightarrow> string) \<Rightarrow> 'db sink \<Rightarrow> (nat \<Rightarrow> 'db \<Rightarrow> 'db) \<Rightarrow> GovDecision \<Rightarrow> nat \<Rightarrow> nat
     \<Rightarrow> audit_error option \<Rightarrow> Ledger \<Rightarrow> 'db \<Rightarrow> (audit_error + LedgerEntry) \<times> Ledger \<times> 'db" where
  "append_durable H sk env d 0 k lastErr l db = (Inl (HeadContended lastErr), l, db)"
| "append_durable H sk env d (Suc n) k lastErr l db =
     (let e = build_entry H l d in
      case sk_persist sk (env (2 * k) db) e of
        (db1, None) \<Rightarrow> (Inr e, set_tail l (le_Seq e) (le_Hash e), db1)
      | (db1, Some er) \<Rightarrow>
          if \<not> is_dup_seq er then (Inl er, l, db1)
          else case sk_tail sk of
            None \<Rightarrow> (Inl er, l, db1)
          | Some tail \<Rightarrow>
              (case tail (env (2 * k + 1) db1) of
                 (db2, Inl te) \<Rightarrow> (Inl (TailReread te), l, db2)
               | (db2, Inr (ts, th)) \<Rightarrow>
                   append_durable H sk env d n (Suc k) (Some er) (set_tail l ts th) db2))"

text \<open>
  \<^verbatim>\<open>AppendContext\<close>. \<open>acquired\<close> says whether the chain gate was obtained before the caller's
  context ended.
\<close>

definition AppendContext ::
    "(string \<Rightarrow> string) \<Rightarrow> 'db sink option \<Rightarrow> (nat \<Rightarrow> 'db \<Rightarrow> 'db) \<Rightarrow> bool \<Rightarrow> GovDecision
     \<Rightarrow> Ledger \<Rightarrow> 'db \<Rightarrow> (audit_error + LedgerEntry) \<times> Ledger \<times> 'db" where
  "AppendContext H sk env acquired d l db =
     (if gd_Decision d = [] \<or> gd_ActionID d = [] then (Inl ErrIncompleteDecision, l, db)
      else if \<not> acquired then (Inl ErrChainBusy, l, db)
      else case sk of
        None \<Rightarrow>
          (let e = build_entry H l d in
           (Inr e, set_tail (l\<lparr>ld_entries := ld_entries l @ [e]\<rparr>) (le_Seq e) (le_Hash e), db))
      | Some s \<Rightarrow> append_durable H s env d (Suc maxSeqCollisionRetries) 0 None l db)"

text \<open>\<^verbatim>\<open>Append\<close> waits for the gate without a deadline. The in-memory form, with no sink:\<close>

definition append_mem :: "(string \<Rightarrow> string) \<Rightarrow> GovDecision \<Rightarrow> Ledger \<Rightarrow> (audit_error + LedgerEntry) \<times> Ledger" where
  "append_mem H d l =
     (case AppendContext H None (\<lambda>_ x. x) True d l () of (r, l', _) \<Rightarrow> (r, l'))"

section \<open>Verification of a chain\<close>

fun verify_from :: "(string \<Rightarrow> string) \<Rightarrow> nat \<Rightarrow> string \<Rightarrow> LedgerEntry list \<Rightarrow> chain_fault option" where
  "verify_from H i prev [] = None"
| "verify_from H i prev (e # es) =
     (if le_Seq e \<noteq> int i + 1 then Some (NonMonotonicSeq i (le_Seq e))
      else if le_PrevHash e \<noteq> prev then Some (PrevLinkBroken (le_Seq e))
      else if le_Hash e \<noteq> entryHash H (le_Seq e) (le_Decision e) (le_Reason e) (le_ActionID e)
                           (le_Withheld e) (le_PrevHash e)
        then Some (ContentTampered (le_Seq e))
      else verify_from H (Suc i) (le_Hash e) es)"

definition VerifyChain :: "(string \<Rightarrow> string) \<Rightarrow> LedgerEntry list \<Rightarrow> chain_fault option" where
  "VerifyChain H entries = verify_from H 0 [] entries"

section \<open>The Postgres table\<close>

text \<open>
  \<^verbatim>\<open>governance_ledger\<close> with its primary key on the sequence number. \<open>pg_faults\<close> scripts the
  outcomes of the coming statements: a leading \<^const>\<open>True\<close> makes the next one fail.
\<close>

record pg_ledger =
  pg_rows :: "LedgerEntry list"
  pg_faults :: "bool list"

definition pg_faulty :: "pg_ledger \<Rightarrow> bool \<times> pg_ledger" where
  "pg_faulty db = (case pg_faults db of [] \<Rightarrow> (False, db) | b # bs \<Rightarrow> (b, db\<lparr>pg_faults := bs\<rparr>))"

definition PersistContext :: "pg_ledger \<Rightarrow> LedgerEntry \<Rightarrow> pg_ledger \<times> audit_error option" where
  "PersistContext db e =
     (case pg_faulty db of (bad, db1) \<Rightarrow>
        if bad then (db1, Some (StoreError ''db: persist ledger''))
        else if le_Seq e \<in> set (map le_Seq (pg_rows db1)) then (db1, Some (ErrDuplicateSeq (le_Seq e)))
        else (db1\<lparr>pg_rows := insort_key le_Seq e (pg_rows db1)\<rparr>, None))"

definition Tail :: "pg_ledger \<Rightarrow> pg_ledger \<times> (audit_error + int \<times> string)" where
  "Tail db =
     (case pg_faulty db of (bad, db1) \<Rightarrow>
        if bad then (db1, Inl (StoreError ''db: ledger tail''))
        else if pg_rows db1 = [] then (db1, Inr (0, []))
        else (db1, Inr (le_Seq (last (pg_rows db1)), le_Hash (last (pg_rows db1)))))"

definition LedgerStore :: "pg_ledger sink" where
  "LedgerStore = \<lparr>sk_persist = PersistContext, sk_tail = Some Tail\<rparr>"

section \<open>The classification record\<close>

type_synonym signals = "(string \<rightharpoonup> string) option"

record RiskAudit =
  ra_ExternalRef :: string
  ra_RiskLevel :: string
  ra_Band :: band
  ra_AutoApproved :: bool
  ra_AutoProceedOnTimeout :: bool
  ra_NotifyRequired :: bool
  ra_OperatorOverride :: bool
  ra_Signals :: signals
  ra_PlanHash :: string
  ra_ActionID :: string
  ra_SchemaVersion :: int

definition schema_current :: "(string \<times> int) list" where
  "schema_current =
     [(''action_manifest'', 2), (''session_risk_audit'', 1), (''infragraph_prediction'', 1),
      (''action_verdict'', 2), (''governance_ledger'', 1), (''discovered_scheduled_reboots'', 1),
      (''estate_snapshot'', 1), (''escalation_queue'', 1), (''chat_events'', 1),
      (''skill_version'', 2), (''skill_trial'', 1), (''session_triage'', 2), (''triage_run'', 1),
      (''session_judgment'', 1), (''control_plane_config'', 1), (''sealed_secret'', 1),
      (''knowledge_embedding'', 1)]"

definition schema_Stamp :: "string \<Rightarrow> audit_error + int" where
  "schema_Stamp t = (case map_of schema_current t of None \<Rightarrow> Inl (SchemaUnregistered t) | Some v \<Rightarrow> Inr v)"

text \<open>
  \<^verbatim>\<open>AppendRiskAudit\<close>. \<open>risk_sink\<close> is the optional durable writer of the full record, applied
  before the ledger row; \<open>sk\<close> and \<open>env\<close> are those of the ledger.
\<close>

definition AppendRiskAudit ::
    "(string \<Rightarrow> string) \<Rightarrow> 'db sink option \<Rightarrow> (nat \<Rightarrow> 'db \<Rightarrow> 'db) \<Rightarrow> (RiskAudit \<Rightarrow> audit_error option) option
     \<Rightarrow> RiskAudit \<Rightarrow> Ledger \<Rightarrow> 'db \<Rightarrow> (audit_error + RiskAudit \<times> LedgerEntry) \<times> Ledger \<times> 'db" where
  "AppendRiskAudit H sk env risk_sink a l db =
     (if ra_ExternalRef a = [] \<or> ra_ActionID a = [] \<or> ra_RiskLevel a = [] then (Inl ErrIncompleteAudit, l, db)
      else case schema_Stamp ''session_risk_audit'' of
        Inl e \<Rightarrow> (Inl e, l, db)
      | Inr v \<Rightarrow>
          (let a' = a\<lparr>ra_SchemaVersion := v, ra_AutoProceedOnTimeout := False\<rparr> in
           case (case risk_sink of None \<Rightarrow> None | Some s \<Rightarrow> s a') of
             Some e \<Rightarrow> (Inl e, l, db)
           | None \<Rightarrow>
               (case AppendContext H sk env True
                       \<lparr>gd_Decision = ''classify:'' @ band_string (ra_Band a'),
                        gd_Reason = ra_RiskLevel a', gd_ActionID = ra_ActionID a',
                        gd_Withheld = (ra_Band a' = BandPollPause)\<rparr> l db of
                  (Inl e, l', db') \<Rightarrow> (Inl e, l', db')
                | (Inr entry, l', db') \<Rightarrow> (Inr (a', entry), l', db'))))"

section \<open>The encoding of a row is unambiguous\<close>

lemma base_digits_eq:
  fixes x y b :: int
  assumes "0 < b" and "\<And>k. k < n \<Longrightarrow> x div b ^ k mod b = y div b ^ k mod b"
  shows "x mod b ^ n = y mod b ^ n"
  using assms(2)
proof (induction n)
  case 0
  then show ?case by simp
next
  case (Suc n)
  have "z mod b ^ Suc n = b ^ n * (z div b ^ n mod b) + z mod b ^ n" for z
    using zmod_zmult2_eq [of b z "b ^ n"] assms(1) by (simp add: mult.commute)
  with Suc show ?case by simp
qed

lemma be64_byte: "(of_char (char_of (nat (x div 256 ^ k mod 256))) :: nat) = nat (x div 256 ^ k mod (256 :: int))"
proof -
  have "0 \<le> x div 256 ^ k mod (256 :: int)" and "x div 256 ^ k mod (256 :: int) < 256" by simp_all
  then have "nat (x div 256 ^ k mod (256 :: int)) < 256" by linarith
  then show ?thesis by simp
qed

lemma be64_inj:
  assumes "be64 x = be64 y"
  shows "x mod 2 ^ 64 = y mod 2 ^ 64"
proof -
  let ?x = "x mod 2 ^ 64" and ?y = "y mod 2 ^ 64"
  have "?x div 256 ^ k mod 256 = ?y div 256 ^ k mod 256" if "k < 8" for k
  proof -
    have "k \<in> set [7, 6, 5, 4, 3, 2, 1, 0 :: nat]" using that by auto
    then have "char_of (nat (?x div 256 ^ k mod 256)) = (char_of (nat (?y div 256 ^ k mod 256)) :: char)"
      by (rule bspec [OF assms [unfolded be64_def map_eq_conv]])
    then have "nat (?x div 256 ^ k mod 256) = nat (?y div 256 ^ k mod 256)"
      using be64_byte by metis
    then show ?thesis by (simp add: eq_nat_nat_iff)
  qed
  then have "?x mod 256 ^ 8 = ?y mod 256 ^ 8" by (intro base_digits_eq) auto
  then show ?thesis by simp
qed

lemma length_be64 [simp]: "length (be64 n) = 8"
  by (simp add: be64_def)

text \<open>Go strings are shorter than \<open>2 ^ 63\<close> bytes.\<close>

definition go_str :: "string \<Rightarrow> bool" where
  "go_str s \<longleftrightarrow> int (length s) < 2 ^ 63"

lemma be64_inj_nat:
  assumes "be64 (int a) = be64 (int b)" and "int a < 2 ^ 64" and "int b < 2 ^ 64"
  shows "a = b"
  using be64_inj [OF assms(1)] assms(2,3) by simp

lemma write_field_cancel:
  assumes "write_field s @ r = write_field t @ q" and "go_str s" and "go_str t"
  shows "s = t \<and> r = q"
proof -
  have l: "be64 (int (length s)) = be64 (int (length t))" and b: "s @ r = t @ q"
    using assms(1) by (auto simp: write_field_def dest: append_eq_append_conv [THEN iffD1, rotated])
  have "length s = length t"
    using l assms(2,3) by (intro be64_inj_nat) (auto simp: go_str_def)
  with b show ?thesis by simp
qed

definition go_row :: "LedgerEntry \<Rightarrow> bool" where
  "go_row e \<longleftrightarrow> go_str (le_Decision e) \<and> go_str (le_Reason e) \<and> go_str (le_ActionID e)
      \<and> go_str (le_PrevHash e) \<and> 0 \<le> le_Seq e \<and> le_Seq e < 2 ^ 63"

lemma row_bytes_inj:
  assumes "row_bytes e = row_bytes f" and "go_row e" and "go_row f"
  shows "le_Seq e = le_Seq f \<and> le_Decision e = le_Decision f \<and> le_Reason e = le_Reason f
      \<and> le_ActionID e = le_ActionID f \<and> le_Withheld e = le_Withheld f \<and> le_PrevHash e = le_PrevHash f"
proof -
  let ?r1 = "\<lambda>e. write_field (le_Reason e) @ write_field (le_ActionID e)
      @ [if le_Withheld e then CHR 0x01 else CHR 0x00] @ write_field (le_PrevHash e)"
  have "be64 (le_Seq e) = be64 (le_Seq f)"
    and d: "write_field (le_Decision e) @ ?r1 e = write_field (le_Decision f) @ ?r1 f"
    using assms(1) by (auto simp: row_bytes_def entry_bytes_def)
  then have sq: "le_Seq e = le_Seq f"
    using be64_inj [of "le_Seq e" "le_Seq f"] assms(2,3) by (auto simp: go_row_def)
  have "le_Decision e = le_Decision f" and r: "?r1 e = ?r1 f"
    using write_field_cancel [OF d] assms(2,3) by (auto simp: go_row_def)
  moreover have "le_Reason e = le_Reason f" and a: "write_field (le_ActionID e)
      @ [if le_Withheld e then CHR 0x01 else CHR 0x00] @ write_field (le_PrevHash e) = write_field (le_ActionID f)
      @ [if le_Withheld f then CHR 0x01 else CHR 0x00] @ write_field (le_PrevHash f)"
    using write_field_cancel [OF r] assms(2,3) by (auto simp: go_row_def)
  moreover have "le_ActionID e = le_ActionID f"
    and w: "(if le_Withheld e then CHR 0x01 else CHR 0x00) # write_field (le_PrevHash e)
        = (if le_Withheld f then CHR 0x01 else CHR 0x00) # write_field (le_PrevHash f)"
    using write_field_cancel [OF a] assms(2,3) by (auto simp: go_row_def)
  moreover have "le_Withheld e = le_Withheld f" using w by (auto split: if_splits)
  moreover have "write_field (le_PrevHash e) @ [] = write_field (le_PrevHash f) @ []" using w by simp
  then have "le_PrevHash e = le_PrevHash f"
    using write_field_cancel assms(2,3) unfolding go_row_def by blast
  ultimately show ?thesis using sq by simp
qed

section \<open>Valid chains\<close>

definition tail_hash :: "string \<Rightarrow> LedgerEntry list \<Rightarrow> string" where
  "tail_hash prev xs = (if xs = [] then prev else le_Hash (last xs))"

lemma tail_hash_simps [simp]:
  "tail_hash p [] = p" "tail_hash p (x # xs) = tail_hash (le_Hash x) xs" "tail_hash p (xs @ [x]) = le_Hash x"
  by (auto simp: tail_hash_def)

definition row_ok :: "(string \<Rightarrow> string) \<Rightarrow> nat \<Rightarrow> string \<Rightarrow> LedgerEntry \<Rightarrow> bool" where
  "row_ok H i prev e \<longleftrightarrow> le_Seq e = int i + 1 \<and> le_PrevHash e = prev \<and> le_Hash e = H (row_bytes e)"

lemma verify_from_Cons:
  "verify_from H i prev (e # es) = None \<longleftrightarrow> row_ok H i prev e \<and> verify_from H (Suc i) (le_Hash e) es = None"
  by (auto simp: row_ok_def entryHash_def row_bytes_def)

lemma verify_from_append:
  "verify_from H i prev (xs @ ys) = None \<longleftrightarrow>
     verify_from H i prev xs = None \<and> verify_from H (i + length xs) (tail_hash prev xs) ys = None"
proof (induction xs arbitrary: i prev)
  case Nil
  then show ?case by simp
next
  case (Cons x xs)
  show ?case
    using Cons.IH [of "Suc i" "le_Hash x"]
    by (simp only: append_Cons verify_from_Cons tail_hash_simps) (auto simp del: verify_from.simps)
qed

declare verify_from.simps(2) [simp del]

definition chain_ok :: "(string \<Rightarrow> string) \<Rightarrow> LedgerEntry list \<Rightarrow> bool" where
  "chain_ok H xs \<longleftrightarrow> VerifyChain H xs = None"

lemma chain_ok_Nil [simp]: "chain_ok H []"
  by (simp add: chain_ok_def VerifyChain_def)

lemma chain_ok_snoc:
  "chain_ok H (xs @ [e]) \<longleftrightarrow> chain_ok H xs \<and> row_ok H (length xs) (tail_hash [] xs) e"
  by (simp add: chain_ok_def VerifyChain_def verify_from_append verify_from_Cons)

lemma chain_ok_append_left: "chain_ok H (xs @ ys) \<Longrightarrow> chain_ok H xs"
  by (simp add: chain_ok_def VerifyChain_def verify_from_append)

lemma chain_ok_take: "chain_ok H xs \<Longrightarrow> chain_ok H (take n xs)"
  by (metis append_take_drop_id chain_ok_append_left)

lemma chain_ok_nth:
  assumes "chain_ok H xs" and "i < length xs"
  shows "row_ok H i (tail_hash [] (take i xs)) (xs ! i)"
proof -
  have "chain_ok H (take i xs @ [xs ! i])"
    using assms chain_ok_take by (metis take_Suc_conv_app_nth)
  then show ?thesis using assms(2) by (simp add: chain_ok_snoc)
qed

lemma chain_ok_seqs: "chain_ok H xs \<Longrightarrow> map le_Seq xs = map (\<lambda>i. int i + 1) [0..<length xs]"
  by (rule nth_equalityI) (auto dest: chain_ok_nth simp: row_ok_def)

lemma chain_ok_seq_set:
  assumes "chain_ok H xs"
  shows "le_Seq ` set xs = {s. 1 \<le> s \<and> s \<le> int (length xs)}"
proof -
  have "le_Seq ` set xs = set (map (\<lambda>i. int i + 1) [0..<length xs])"
    using chain_ok_seqs [OF assms] by (metis list.set_map)
  also have "\<dots> = {s. 1 \<le> s \<and> s \<le> int (length xs)}"
  proof (intro set_eqI iffI)
    fix s assume "s \<in> {s. 1 \<le> s \<and> s \<le> int (length xs)}"
    then have "s = int (nat (s - 1)) + 1" and "nat (s - 1) < length xs" by auto
    then have "s \<in> (\<lambda>i. int i + 1) ` {0..<length xs}" by (intro image_eqI [of _ _ "nat (s - 1)"]) auto
    then show "s \<in> set (map (\<lambda>i. int i + 1) [0..<length xs])" by simp
  qed auto
  finally show ?thesis .
qed

lemma chain_ok_last_seq:
  assumes "chain_ok H xs" and "xs \<noteq> []"
  shows "le_Seq (last xs) = int (length xs)"
proof -
  have "row_ok H (length xs - 1) (tail_hash [] (take (length xs - 1) xs)) (xs ! (length xs - 1))"
    using assms by (intro chain_ok_nth) auto
  then show ?thesis using assms(2) by (simp add: row_ok_def last_conv_nth of_nat_diff Suc_leI)
qed

text \<open>Either two byte strings collide, or equal head hashes force equal chains.\<close>

definition collision :: "(string \<Rightarrow> string) \<Rightarrow> bool" where
  "collision H \<longleftrightarrow> (\<exists>a b. a \<noteq> b \<and> H a = H b)"

lemma rows_eq_of_hash:
  assumes "row_ok H i p e" and "row_ok H j q f" and "le_Hash e = le_Hash f"
    and "go_row e" and "go_row f" and "\<not> collision H"
  shows "e = f \<and> i = j \<and> p = q"
proof -
  have "row_bytes e = row_bytes f"
    using assms(1-3,6) by (auto simp: row_ok_def collision_def)
  then show ?thesis
    using row_bytes_inj [of e f] assms(1-5) by (auto simp: row_ok_def)
qed

lemma chain_head_unique:
  assumes "chain_ok H xs" and "chain_ok H ys" and "xs \<noteq> []" and "ys \<noteq> []"
    and "le_Hash (last xs) = le_Hash (last ys)"
    and "list_all go_row xs" and "list_all go_row ys" and "\<not> collision H"
  shows "xs = ys"
  using assms
proof (induction xs arbitrary: ys rule: rev_induct)
  case Nil
  then show ?case by simp
next
  case (snoc x xs)
  then obtain zs z where ys: "ys = zs @ [z]" by (metis rev_exhaust)
  from snoc ys have "x = z \<and> length xs = length zs \<and> tail_hash [] xs = tail_hash [] zs"
    by (intro rows_eq_of_hash [of H]) (auto simp: chain_ok_snoc)
  then have eq: "x = z" "length xs = length zs" "tail_hash [] xs = tail_hash [] zs" by auto
  have "xs = zs"
  proof (cases "xs = []")
    case True
    with eq show ?thesis by simp
  next
    case False
    with eq have "zs \<noteq> []" and "le_Hash (last xs) = le_Hash (last zs)"
      by (auto simp: tail_hash_def)
    with False snoc.prems ys show ?thesis
      by (intro snoc.IH) (auto simp: chain_ok_snoc)
  qed
  with eq ys show ?case by simp
qed

section \<open>Appending keeps the chain valid\<close>

definition ledger_inv :: "(string \<Rightarrow> string) \<Rightarrow> Ledger \<Rightarrow> bool" where
  "ledger_inv H l \<longleftrightarrow> chain_ok H (ld_entries l) \<and> ld_lastSeq l = int (length (ld_entries l))
      \<and> ld_lastHash l = tail_hash [] (ld_entries l)"

definition complete :: "GovDecision \<Rightarrow> bool" where
  "complete d \<longleftrightarrow> gd_Decision d \<noteq> [] \<and> gd_ActionID d \<noteq> []"

definition decision_of :: "LedgerEntry \<Rightarrow> GovDecision" where
  "decision_of e = \<lparr>gd_Decision = le_Decision e, gd_Reason = le_Reason e, gd_ActionID = le_ActionID e,
     gd_Withheld = le_Withheld e\<rparr>"

lemma decision_of_build [simp]: "decision_of (build_entry H l d) = d"
  by (simp add: decision_of_def build_entry_def Let_def)

lemma build_entry_ok:
  assumes "ld_lastSeq l = int n" and "ld_lastHash l = p"
  shows "row_ok H n p (build_entry H l d)"
  using assms by (simp add: row_ok_def build_entry_def row_bytes_def entryHash_def Let_def)

lemma append_mem_complete:
  assumes "complete d"
  shows "append_mem H d l = (Inr (build_entry H l d),
      set_tail (l\<lparr>ld_entries := ld_entries l @ [build_entry H l d]\<rparr>)
        (le_Seq (build_entry H l d)) (le_Hash (build_entry H l d)))"
  using assms by (simp add: append_mem_def AppendContext_def complete_def Let_def)

lemma append_mem_incomplete:
  assumes "\<not> complete d"
  shows "append_mem H d l = (Inl ErrIncompleteDecision, l)"
  using assms by (auto simp: append_mem_def AppendContext_def complete_def)

lemma append_mem_inv:
  assumes "ledger_inv H l"
  shows "ledger_inv H (snd (append_mem H d l))
    \<and> map decision_of (ld_entries (snd (append_mem H d l)))
        = map decision_of (ld_entries l) @ (if complete d then [d] else [])"
proof (cases "complete d")
  case True
  have "row_ok H (length (ld_entries l)) (tail_hash [] (ld_entries l)) (build_entry H l d)"
    using assms by (intro build_entry_ok) (auto simp: ledger_inv_def)
  with True assms show ?thesis
    by (simp add: append_mem_complete ledger_inv_def chain_ok_snoc set_tail_def row_ok_def)
next
  case False
  with assms show ?thesis by (simp add: append_mem_incomplete)
qed

definition append_all :: "(string \<Rightarrow> string) \<Rightarrow> GovDecision list \<Rightarrow> Ledger \<Rightarrow> Ledger" where
  "append_all H ds l = fold (\<lambda>d l. snd (append_mem H d l)) ds l"

lemma append_all_inv:
  "ledger_inv H l \<Longrightarrow> ledger_inv H (append_all H ds l)
     \<and> map decision_of (ld_entries (append_all H ds l)) = map decision_of (ld_entries l) @ filter complete ds"
proof (induction ds arbitrary: l)
  case Nil
  then show ?case by (simp add: append_all_def)
next
  case (Cons d ds)
  have "append_all H (d # ds) l = append_all H ds (snd (append_mem H d l))"
    by (simp add: append_all_def)
  with Cons.IH [of "snd (append_mem H d l)"] append_mem_inv [OF Cons.prems, of d] show ?case by simp
qed

lemma ledger_inv_New: "ledger_inv H NewLedger"
  by (simp add: ledger_inv_def NewLedger_def)

section \<open>A table shared with other writers\<close>

lemma insort_key_last:
  assumes "\<forall>y \<in> set ys. f y < f x"
  shows "insort_key f x ys = ys @ [x]"
  using assms by (induction ys) auto

text \<open>The cached tail is the head of some prefix of the table.\<close>

definition cached :: "LedgerEntry list \<Rightarrow> Ledger \<Rightarrow> bool" where
  "cached rs l \<longleftrightarrow> (\<exists>n \<le> length rs. ld_lastSeq l = int n \<and> ld_lastHash l = tail_hash [] (take n rs))"

text \<open>Other writers only ever extend a valid chain by a valid chain.\<close>

definition siblings_ok :: "(string \<Rightarrow> string) \<Rightarrow> ('db \<Rightarrow> LedgerEntry list) \<Rightarrow> (nat \<Rightarrow> 'db \<Rightarrow> 'db) \<Rightarrow> bool" where
  "siblings_ok H rows env \<longleftrightarrow> (\<forall>k db. VerifyChain H (rows db) = None \<longrightarrow>
      VerifyChain H (rows (env k db)) = None \<and> prefix (rows db) (rows (env k db)))"

text \<open>What a ledger needs from its durable table.\<close>

locale ledger_store =
  fixes sk :: "'db sink"
    and tail :: "'db \<Rightarrow> 'db \<times> (audit_error + int \<times> string)"
    and rows :: "'db \<Rightarrow> LedgerEntry list"
  assumes tail_reader: "sk_tail sk = Some tail"
    and persist_inserts: "sk_persist sk db e = (db', None) \<Longrightarrow>
        le_Seq e \<notin> le_Seq ` set (rows db) \<and> rows db' = insort_key le_Seq e (rows db)"
    and persist_refuses: "sk_persist sk db e = (db', Some er) \<Longrightarrow> rows db' = rows db"
    and tail_reads: "tail db = (db', Inr (s, h)) \<Longrightarrow>
        rows db' = rows db \<and> s = (if rows db = [] then 0 else le_Seq (last (rows db)))
        \<and> h = tail_hash [] (rows db)"
    and tail_fails: "tail db = (db', Inl er) \<Longrightarrow> rows db' = rows db"
begin

lemma cached_prefix:
  assumes "cached (rows db) l" and "prefix (rows db) (rows db')"
  shows "cached (rows db') l"
  using assms by (fastforce simp: cached_def prefix_def)

lemma cached_rows_eq: "cached (rows db) l \<Longrightarrow> rows db' = rows db \<Longrightarrow> cached (rows db') l"
  by (rule cached_prefix) auto

lemma cached_tail:
  assumes "chain_ok H (rows db)" and "tail db = (db', Inr (s, h))"
  shows "cached (rows db') (set_tail l s h)"
proof -
  have r: "rows db' = rows db" "h = tail_hash [] (rows db)"
    and s: "s = (if rows db = [] then 0 else le_Seq (last (rows db)))"
    using tail_reads [OF assms(2)] by auto
  have "s = int (length (rows db))" using s chain_ok_last_seq [OF assms(1)] by auto
  with r show ?thesis by (auto simp: cached_def set_tail_def)
qed

text \<open>An accepted insert lands exactly on the head, so the chain stays valid.\<close>

lemma persist_extends:
  assumes "chain_ok H (rows db)" and "cached (rows db) l"
    and "sk_persist sk db (build_entry H l d) = (db', None)"
  shows "rows db' = rows db @ [build_entry H l d] \<and> chain_ok H (rows db')
    \<and> cached (rows db') (set_tail l (le_Seq (build_entry H l d)) (le_Hash (build_entry H l d)))"
proof -
  let ?e = "build_entry H l d" and ?rs = "rows db"
  obtain n where n: "n \<le> length ?rs" "ld_lastSeq l = int n" "ld_lastHash l = tail_hash [] (take n ?rs)"
    using assms(2) by (auto simp: cached_def)
  have seqs: "le_Seq ` set ?rs = {s. 1 \<le> s \<and> s \<le> int (length ?rs)}"
    by (rule chain_ok_seq_set [OF assms(1)])
  have ins: "le_Seq ?e \<notin> le_Seq ` set ?rs" "rows db' = insort_key le_Seq ?e ?rs"
    using persist_inserts [OF assms(3)] by auto
  have sq: "le_Seq ?e = int n + 1" using n(2) by (simp add: build_entry_def Let_def)
  with ins(1) seqs n(1) have len: "n = length ?rs" by auto
  then have "\<forall>y \<in> set ?rs. le_Seq y < le_Seq ?e"
    using seqs sq by (force simp: image_iff)
  then have rows': "rows db' = ?rs @ [?e]" using ins(2) by (simp add: insort_key_last)
  have ok: "row_ok H (length ?rs) (tail_hash [] ?rs) ?e"
    using n len by (intro build_entry_ok) auto
  have "cached (rows db') (set_tail l (le_Seq ?e) (le_Hash ?e))"
    unfolding cached_def using rows' sq len by (intro exI [of _ "Suc n"]) (simp add: set_tail_def)
  with rows' ok assms(1) show ?thesis by (simp add: chain_ok_snoc)
qed


lemma siblings_step:
  assumes "siblings_ok H rows env" and "chain_ok H (rows db)" and "cached (rows db) l"
  shows "chain_ok H (rows (env k db))" and "prefix (rows db) (rows (env k db))" and "cached (rows (env k db)) l"
  using assms cached_prefix by (auto simp: siblings_ok_def chain_ok_def)

lemma append_durable_extends:
  assumes "append_durable H sk env d n k lastErr l db = (r, l', db')"
    and "chain_ok H (rows db)" and "cached (rows db) l" and "siblings_ok H rows env"
  shows "chain_ok H (rows db') \<and> cached (rows db') l' \<and> prefix (rows db) (rows db')
    \<and> (\<forall>e. r = Inr e \<longrightarrow> (\<exists>xs. rows db' = xs @ [e] \<and> prefix (rows db) xs) \<and> decision_of e = d)"
  using assms
proof (induction n arbitrary: k lastErr l db)
  case 0
  then show ?case by auto
next
  case (Suc n)
  let ?e = "build_entry H l d" and ?db0 = "env (2 * k) db"
  note s0 = siblings_step [OF Suc.prems(4,2,3), of "2 * k"]
  obtain db1 er where p: "sk_persist sk ?db0 ?e = (db1, er)" by (metis prod.exhaust)
  show ?case
  proof (cases er)
    case None
    with p have "rows db1 = rows ?db0 @ [?e]" "chain_ok H (rows db1)"
        "cached (rows db1) (set_tail l (le_Seq ?e) (le_Hash ?e))"
      using persist_extends [OF s0(1,3), of d db1] by auto
    moreover have "r = Inr ?e" "l' = set_tail l (le_Seq ?e) (le_Hash ?e)" "db' = db1"
      using Suc.prems(1) p None by (auto simp: Let_def)
    ultimately show ?thesis using s0(2) by auto
  next
    case (Some er')
    have r1: "rows db1 = rows ?db0" using p Some persist_refuses by auto
    have c1: "chain_ok H (rows db1)" "prefix (rows db) (rows db1)" "cached (rows db1) l"
      using r1 s0 cached_rows_eq by auto
    let ?dbt = "env (2 * k + 1) db1"
    note s1 = siblings_step [OF Suc.prems(4) c1(1,3), of "2 * k + 1"]
    obtain db2 t where t: "tail ?dbt = (db2, t)" by (metis prod.exhaust)
    show ?thesis
    proof (cases "is_dup_seq er'")
      case False
      with Suc.prems(1) p Some c1 show ?thesis by auto
    next
      case True
      show ?thesis
      proof (cases t)
        case (Inl te)
        then have "rows db2 = rows ?dbt" using t tail_fails by auto
        with Suc.prems(1) p Some True t Inl s1 c1(2) cached_rows_eq show ?thesis
          by (auto simp: tail_reader intro: prefix_order.trans)
      next
        case (Inr sh)
        obtain sq h where sh: "sh = (sq, h)" by (cases sh)
        have r2: "rows db2 = rows ?dbt" using t Inr sh tail_reads by auto
        have c2: "cached (rows db2) (set_tail l sq h)" using cached_tail [OF s1(1)] t Inr sh by blast
        have "append_durable H sk env d n (Suc k) (Some er') (set_tail l sq h) db2 = (r, l', db')"
          using Suc.prems(1) p Some True t Inr sh by (simp add: tail_reader Let_def)
        then have "chain_ok H (rows db') \<and> cached (rows db') l' \<and> prefix (rows db2) (rows db')
          \<and> (\<forall>e. r = Inr e \<longrightarrow> (\<exists>xs. rows db' = xs @ [e] \<and> prefix (rows db2) xs) \<and> decision_of e = d)"
          using Suc.IH Suc.prems(4) c2 s1(1) r2 by metis
        moreover have "prefix (rows db) (rows db2)" using r2 s1(2) c1(2) by auto
        ultimately show ?thesis by (fastforce intro: prefix_order.trans)
      qed
    qed
  qed
qed

end

text \<open>
  A table that is reachable: inserts fail only on a duplicate number, and the tail can be read.
\<close>

locale reliable_store = ledger_store +
  fixes healthy :: "'a \<Rightarrow> bool"
  assumes persist_works: "healthy db \<Longrightarrow> le_Seq e \<notin> le_Seq ` set (rows db) \<Longrightarrow>
        \<exists>db'. sk_persist sk db e = (db', None)"
    and persist_dup: "healthy db \<Longrightarrow> le_Seq e \<in> le_Seq ` set (rows db) \<Longrightarrow>
        \<exists>db'. sk_persist sk db e = (db', Some (ErrDuplicateSeq (le_Seq e))) \<and> healthy db'"
    and tail_works: "healthy db \<Longrightarrow> \<exists>db' v. tail db = (db', Inr v) \<and> healthy db'"
begin

text \<open>
  With no other writer at work and a table that answers, an append succeeds whatever stale tail
  the process had cached: at most one collision, one re-read, one insert.
\<close>

lemma append_durable_succeeds:
  assumes "healthy db" and "chain_ok H (rows db)" and "cached (rows db) l" and "2 \<le> n"
  shows "\<exists>e l' db'. append_durable H sk (\<lambda>_ x. x) d n k lastErr l db = (Inr e, l', db')
    \<and> rows db' = rows db @ [e] \<and> decision_of e = d"
proof -
  obtain m where n: "n = Suc (Suc m)" using assms(4) by (metis Suc_le_D numeral_2_eq_2 Suc_le_mono)
  let ?e = "build_entry H l d"
  show ?thesis
  proof (cases "le_Seq ?e \<in> le_Seq ` set (rows db)")
    case False
    then obtain db1 where "sk_persist sk db ?e = (db1, None)" using persist_works assms(1) by blast
    with n persist_extends [OF assms(2,3)] show ?thesis by (simp add: Let_def)
  next
    case True
    then obtain db1 where p: "sk_persist sk db ?e = (db1, Some (ErrDuplicateSeq (le_Seq ?e)))" and h1: "healthy db1"
      using persist_dup assms(1) by blast
    obtain db2 sq h where t: "tail db1 = (db2, Inr (sq, h))" and h2: "healthy db2"
      using tail_works [OF h1] by auto
    have r1: "rows db1 = rows db" using persist_refuses [OF p] .
    have r: "rows db2 = rows db" and "sq = (if rows db = [] then 0 else le_Seq (last (rows db)))"
      using tail_reads [OF t] r1 by auto
    then have "sq = int (length (rows db))" using chain_ok_last_seq assms(2) by auto
    then have "le_Seq (build_entry H (set_tail l sq h) d) \<notin> le_Seq ` set (rows db2)"
      using chain_ok_seq_set [OF assms(2)] r by (simp add: build_entry_def set_tail_def Let_def)
    then obtain db3 where p3: "sk_persist sk db2 (build_entry H (set_tail l sq h) d) = (db3, None)"
      using persist_works h2 by blast
    have "chain_ok H (rows db1)" and "chain_ok H (rows db2)" using assms(2) r r1 by simp_all
    then have "rows db3 = rows db2 @ [build_entry H (set_tail l sq h) d]"
      using persist_extends [OF _ cached_tail [OF _ t] p3] by blast
    with p t p3 n r show ?thesis by (simp add: tail_reader is_dup_seq_def Let_def)
  qed
qed

end

lemmas pg_defs = PersistContext_def Tail_def LedgerStore_def pg_faulty_def

interpretation pg: ledger_store LedgerStore Tail pg_rows
  by unfold_locales
    (auto simp: pg_defs tail_hash_def split: list.splits if_splits prod.splits)

interpretation pgr: reliable_store LedgerStore Tail pg_rows "\<lambda>db. pg_faults db = []"
  by unfold_locales (auto simp: pg_defs)

section \<open>Properties of the chain\<close>

text \<open>
  Whatever decisions are submitted to an in-memory ledger, the resulting chain passes
  verification and holds exactly the complete decisions, in the order they were submitted.
\<close>

theorem append_all_verifies:
  "VerifyChain H (ld_entries (append_all H ds NewLedger)) = None
     \<and> map decision_of (ld_entries (append_all H ds NewLedger)) = filter complete ds"
  using append_all_inv [OF ledger_inv_New, of H ds] by (simp add: ledger_inv_def chain_ok_def NewLedger_def)


text \<open>
  C3. Several processes append to one Postgres table. As long as each of the others only ever
  extends a valid chain by a valid chain, an append by this process, whether it succeeds or fails,
  with a stale tail, database errors and lost races, leaves a chain that verifies and extends what
  was there; and when it reports success the last row it sees is its decision.
\<close>

theorem durable_append_keeps_chain:
  assumes "AppendContext H (Some LedgerStore) env acquired d l db = (r, l', db')"
    and "VerifyChain H (pg_rows db) = None" and "cached (pg_rows db) l"
    and "siblings_ok H pg_rows env"
  shows "VerifyChain H (pg_rows db') = None \<and> cached (pg_rows db') l' \<and> prefix (pg_rows db) (pg_rows db')
    \<and> (\<forall>e. r = Inr e \<longrightarrow> last (pg_rows db') = e \<and> decision_of e = d \<and> length (pg_rows db) < length (pg_rows db'))"
proof (cases "complete d \<and> acquired")
  case True
  then have "append_durable H LedgerStore env d (Suc maxSeqCollisionRetries) 0 None l db = (r, l', db')"
    using assms(1) by (auto simp: AppendContext_def complete_def)
  from pg.append_durable_extends [OF this] assms(2-4) show ?thesis
    by (fastforce simp: chain_ok_def dest: prefix_length_le)
next
  case False
  then have "r \<noteq> Inr e \<and> l' = l \<and> db' = db" for e
    using assms(1) by (auto simp: AppendContext_def complete_def split: if_splits)
  with assms show ?thesis by auto
qed

text \<open>
  C40. Recovery from a stale tail: with the table reachable and no other writer active, appending a
  complete decision succeeds from any cached tail and the table gains exactly that one row.
\<close>

theorem quiet_append_succeeds:
  assumes "pg_faults db = []" and "VerifyChain H (pg_rows db) = None" and "cached (pg_rows db) l" and "complete d"
  shows "\<exists>e l' db'. AppendContext H (Some LedgerStore) (\<lambda>_ x. x) True d l db = (Inr e, l', db')
    \<and> pg_rows db' = pg_rows db @ [e] \<and> decision_of e = d"
  using pgr.append_durable_succeeds [of db H l "Suc maxSeqCollisionRetries" d 0 None] assms
  by (simp add: AppendContext_def complete_def chain_ok_def maxSeqCollisionRetries_def)

section \<open>Concrete chains\<close>

definition row_a :: GovDecision where
  "row_a = \<lparr>gd_Decision = ''classify:AUTO'', gd_Reason = ''low'', gd_ActionID = ''a1'', gd_Withheld = False\<rparr>"

definition row_b :: GovDecision where
  "row_b = \<lparr>gd_Decision = ''execute'', gd_Reason = ''ok'', gd_ActionID = ''a1'', gd_Withheld = False\<rparr>"

definition sample_rows :: "LedgerEntry list" where
  "sample_rows = ld_entries (append_all (\<lambda>x. x) [row_a, row_b] NewLedger)"

definition sample_table :: pg_ledger where
  "sample_table = \<lparr>pg_rows = sample_rows, pg_faults = []\<rparr>"

text \<open>A sibling that appends one row of its own before the first insert.\<close>

definition sibling_once :: "(string \<Rightarrow> string) \<Rightarrow> GovDecision \<Rightarrow> nat \<Rightarrow> pg_ledger \<Rightarrow> pg_ledger" where
  "sibling_once H d k db =
     (if k = 0 then db\<lparr>pg_rows := pg_rows db
        @ [build_entry H (NewLedgerFromTail (int (length (pg_rows db))) (tail_hash [] (pg_rows db))) d]\<rparr>
      else db)"

lemma sibling_once_ok: "siblings_ok H pg_rows (sibling_once H d)"
  by (auto simp: siblings_ok_def sibling_once_def chain_ok_snoc [unfolded chain_ok_def]
      NewLedgerFromTail_def intro: build_entry_ok)

lemma sample_rows_chain: "chain_ok (\<lambda>x. x) sample_rows" "map decision_of sample_rows = [row_a, row_b]"
  using append_all_inv [OF ledger_inv_New, of "\<lambda>x. x" "[row_a, row_b]"]
  by (simp_all add: sample_rows_def ledger_inv_def complete_def row_a_def row_b_def NewLedger_def)

lemma sample_rows_ok:
  "VerifyChain (\<lambda>x. x) sample_rows = None" "VerifyChain (\<lambda>x. x) (take 1 sample_rows) = None"
  "length sample_rows = 2" "sample_rows \<noteq> []"
proof -
  show "VerifyChain (\<lambda>x. x) sample_rows = None" "VerifyChain (\<lambda>x. x) (take 1 sample_rows) = None"
    using sample_rows_chain(1) chain_ok_take unfolding chain_ok_def by blast+
  show "length sample_rows = 2" "sample_rows \<noteq> []"
    using arg_cong [OF sample_rows_chain(2), of length] by auto
qed

lemma sample_rows_go: "list_all go_row sample_rows"
  by code_simp

lemma sample_cached: "cached sample_rows (NewLedgerFromTail 1 (tail_hash [] (take 1 sample_rows)))"
  using sample_rows_ok(3) by (auto simp: cached_def NewLedgerFromTail_def)


text \<open>The process has a stale tail and a sibling takes the number it then tries.\<close>

theorem durable_append_keeps_chain_witness:
  "\<exists>r l' db'. AppendContext (\<lambda>x. x) (Some LedgerStore) (sibling_once (\<lambda>x. x) row_b) True row_a
       (NewLedgerFromTail 1 (tail_hash [] (take 1 sample_rows))) sample_table = (r, l', db')
     \<and> VerifyChain (\<lambda>x. x) (pg_rows db') = None \<and> prefix sample_rows (pg_rows db')"
proof -
  obtain r l' db' where eq: "AppendContext (\<lambda>x. x) (Some LedgerStore) (sibling_once (\<lambda>x. x) row_b) True row_a
      (NewLedgerFromTail 1 (tail_hash [] (take 1 sample_rows))) sample_table = (r, l', db')"
    by (metis prod.exhaust)
  have t: "pg_rows sample_table = sample_rows" by (simp add: sample_table_def)
  from durable_append_keeps_chain [OF eq] sample_rows_ok(1) sample_cached sibling_once_ok eq
  show ?thesis unfolding t by blast
qed

theorem quiet_append_succeeds_witness:
  "\<exists>e l' db'. AppendContext (\<lambda>x. x) (Some LedgerStore) (\<lambda>_ x. x) True row_a
       (NewLedgerFromTail 1 (tail_hash [] (take 1 sample_rows))) sample_table = (Inr e, l', db')
     \<and> pg_rows db' = sample_rows @ [e] \<and> decision_of e = row_a"
  using quiet_append_succeeds [of sample_table "\<lambda>x. x" "NewLedgerFromTail 1 (tail_hash [] (take 1 sample_rows))" row_a]
    sample_rows_ok(1) sample_cached
  by (simp add: sample_table_def complete_def row_a_def)

end
