(* ===== verification/Ledger_Anchor.thy ===== *)
theory Ledger_Anchor
  imports Ledger
begin

text \<open>
  Head anchors of the ledger: \<^verbatim>\<open>core/audit/anchor.go\<close> and the head query of
  \<^verbatim>\<open>core/db/ledger_anchor.go\<close>. Chain verification accepts any valid prefix and any consistently
  rewritten chain; an anchor pins the head the chain had at an earlier moment. The time stamp of an
  anchor, which nothing reads, is left out.
\<close>

section \<open>Head anchors\<close>

record RowRef =
  rr_Seq :: int
  rr_Hash :: string

record HeadState =
  hs_Seq :: int
  hs_Hash :: string
  hs_Recent :: "RowRef list"

record Anchor =
  an_Seq :: int
  an_Hash :: string
  an_WindowSize :: int
  an_Digest :: string

datatype anchor_fault = AnchorTruncated int int | AnchorRowAbsent int | AnchorHashChanged int
  | AnchorWindow int | AnchorDigest int

definition anchorDomain :: string where
  "anchorDomain = ''tg/ledger-anchor/v1''"

definition RowRefsOf :: "LedgerEntry list \<Rightarrow> RowRef list" where
  "RowRefsOf entries = map (\<lambda>e. \<lparr>rr_Seq = le_Seq e, rr_Hash = le_Hash e\<rparr>) entries"

definition anchor_bytes :: "HeadState \<Rightarrow> string" where
  "anchor_bytes h =
     write_field anchorDomain @ be64 (hs_Seq h) @ write_field (hs_Hash h)
     @ be64 (int (length (hs_Recent h)))
     @ concat (map (\<lambda>r. be64 (rr_Seq r) @ write_field (rr_Hash r)) (hs_Recent h))"

definition ComputeAnchor :: "(string \<Rightarrow> string) \<Rightarrow> HeadState \<Rightarrow> Anchor" where
  "ComputeAnchor H h =
     \<lparr>an_Seq = hs_Seq h, an_Hash = hs_Hash h, an_WindowSize = int (length (hs_Recent h)),
      an_Digest = H (anchor_bytes h)\<rparr>"

text \<open>The map \<^verbatim>\<open>bySeq\<close>: a later row with the same number replaces an earlier one.\<close>

definition by_seq :: "RowRef list \<Rightarrow> int \<Rightarrow> RowRef option" where
  "by_seq current s = find (\<lambda>r. rr_Seq r = s) (rev current)"

definition max_seq :: "RowRef list \<Rightarrow> int" where
  "max_seq current = fold (\<lambda>r m. if rr_Seq r > m then rr_Seq r else m) current 0"

fun collect_window :: "(int \<Rightarrow> RowRef option) \<Rightarrow> int \<Rightarrow> nat \<Rightarrow> RowRef list option" where
  "collect_window bySeq s 0 = Some []"
| "collect_window bySeq s (Suc n) =
     (case bySeq s of None \<Rightarrow> None
      | Some e \<Rightarrow> map_option (\<lambda>rs. \<lparr>rr_Seq = rr_Seq e, rr_Hash = rr_Hash e\<rparr> # rs)
                    (collect_window bySeq (s + 1) n))"

definition headStateFromChain :: "(int \<Rightarrow> RowRef option) \<Rightarrow> int \<Rightarrow> int \<Rightarrow> HeadState option" where
  "headStateFromChain bySeq headSeq window =
     (let w = (if window \<le> 0 then 1 else window);
          start0 = headSeq - w + 1;
          start = (if start0 < 1 then 1 else start0)
      in case collect_window bySeq start (nat (headSeq - start + 1)) of
           None \<Rightarrow> None
         | Some recent \<Rightarrow>
             Some \<lparr>hs_Seq = headSeq,
                   hs_Hash = (case bySeq headSeq of None \<Rightarrow> [] | Some r \<Rightarrow> rr_Hash r),
                   hs_Recent = recent\<rparr>)"

fun verify_anchors ::
    "(string \<Rightarrow> string) \<Rightarrow> (int \<Rightarrow> RowRef option) \<Rightarrow> int \<Rightarrow> Anchor list \<Rightarrow> anchor_fault option" where
  "verify_anchors H bySeq maxSeq [] = None"
| "verify_anchors H bySeq maxSeq (a # as) =
     (if an_Seq a = 0 then verify_anchors H bySeq maxSeq as
      else if an_Seq a > maxSeq then Some (AnchorTruncated (an_Seq a) maxSeq)
      else case bySeq (an_Seq a) of
        None \<Rightarrow> Some (AnchorRowAbsent (an_Seq a))
      | Some head \<Rightarrow>
          if rr_Hash head \<noteq> an_Hash a then Some (AnchorHashChanged (an_Seq a))
          else case headStateFromChain bySeq (an_Seq a) (an_WindowSize a) of
            None \<Rightarrow> Some (AnchorWindow (an_Seq a))
          | Some hs \<Rightarrow>
              if an_Digest (ComputeAnchor H hs) \<noteq> an_Digest a then Some (AnchorDigest (an_Seq a))
              else verify_anchors H bySeq maxSeq as)"

definition VerifyAgainstAnchors :: "(string \<Rightarrow> string) \<Rightarrow> RowRef list \<Rightarrow> Anchor list \<Rightarrow> anchor_fault option" where
  "VerifyAgainstAnchors H current anchors = verify_anchors H (by_seq current) (max_seq current) anchors"

definition DefaultAnchorWindow :: int where
  "DefaultAnchorWindow = 64"

definition Head :: "pg_ledger \<Rightarrow> int \<Rightarrow> pg_ledger \<times> (audit_error + HeadState)" where
  "Head db window =
     (case pg_faulty db of (bad, db1) \<Rightarrow>
        if bad then (db1, Inl (StoreError ''db: ledger head''))
        else
          (let w = (if window \<le> 0 then DefaultAnchorWindow else window);
               desc = take (nat w) (rev (RowRefsOf (pg_rows db1)))
           in if desc = [] then (db1, Inr \<lparr>hs_Seq = 0, hs_Hash = [], hs_Recent = []\<rparr>)
              else let recent = rev desc; head = last recent in
                (db1, Inr \<lparr>hs_Seq = rr_Seq head, hs_Hash = rr_Hash head, hs_Recent = recent\<rparr>)))"

section \<open>Anchors\<close>

definition row_ref :: "LedgerEntry \<Rightarrow> RowRef" where
  "row_ref e = \<lparr>rr_Seq = le_Seq e, rr_Hash = le_Hash e\<rparr>"

lemma RowRefsOf_map: "RowRefsOf xs = map row_ref xs"
  by (simp add: RowRefsOf_def row_ref_def [abs_def])

lemma row_ref_sel [simp]: "rr_Seq (row_ref e) = le_Seq e" "rr_Hash (row_ref e) = le_Hash e"
  by (simp_all add: row_ref_def)

lemma chain_seq_nth:
  assumes "chain_ok H ys" and "i < length ys"
  shows "le_Seq (ys ! i) = int i + 1"
  using chain_ok_nth [OF assms] by (simp add: row_ok_def)

lemma by_seq_chain:
  assumes "chain_ok H ys" and "i < length ys"
  shows "by_seq (RowRefsOf ys) (int i + 1) = Some (row_ref (ys ! i))"
  unfolding by_seq_def RowRefsOf_map
proof (rule find_unique)
  show "row_ref (ys ! i) \<in> set (rev (map row_ref ys))" using assms(2) by simp
  show "rr_Seq (row_ref (ys ! i)) = int i + 1" using chain_seq_nth [OF assms] by simp
next
  fix y assume "y \<in> set (rev (map row_ref ys))" and y: "rr_Seq y = int i + 1"
  then obtain j where "j < length ys" and "y = row_ref (ys ! j)" by (auto simp: in_set_conv_nth)
  with y chain_seq_nth [OF assms(1), of j] show "y = row_ref (ys ! i)" by simp
qed

lemma by_seq_head:
  assumes "chain_ok H ys" and "0 < n" and "n \<le> length ys"
  shows "by_seq (RowRefsOf ys) (int n) = Some (row_ref (ys ! (n - 1)))"
  using by_seq_chain [OF assms(1), of "n - 1"] assms(2,3) by (simp add: of_nat_diff Suc_leI)

lemma max_seq_fold: "fold (\<lambda>r m. if rr_Seq r > m then rr_Seq r else m) rs m = fold max (map rr_Seq rs) m"
  by (induction rs arbitrary: m) (auto simp: max_def)

lemma max_seq_chain:
  assumes "chain_ok H ys"
  shows "max_seq (RowRefsOf ys) = int (length ys)"
proof -
  have "fold max (map (\<lambda>i. int i + 1) [0..<n]) 0 = int n" for n
    by (induction n) auto
  then show ?thesis
    by (simp add: max_seq_def max_seq_fold RowRefsOf_map comp_def chain_ok_seqs [OF assms])
qed

lemma collect_window_chain:
  assumes "chain_ok H ys" and "i + n \<le> length ys"
  shows "collect_window (by_seq (RowRefsOf ys)) (int i + 1) n = Some (map row_ref (take n (drop i ys)))"
  using assms(2)
proof (induction n arbitrary: i)
  case 0
  then show ?case by simp
next
  case (Suc n)
  then have "drop i ys = ys ! i # drop (Suc i) ys" by (simp add: Cons_nth_drop_Suc)
  moreover have "int i + 1 + 1 = int (Suc i) + 1" by simp
  ultimately show ?case
    using Suc.IH [of "Suc i"] Suc.prems by_seq_chain [OF assms(1), of i] by (simp add: row_ref_def)
qed

text \<open>The state an anchor is taken over: the head of a chain with its last rows.\<close>

definition head_state :: "LedgerEntry list \<Rightarrow> nat \<Rightarrow> HeadState" where
  "head_state xs w = \<lparr>hs_Seq = int (length xs), hs_Hash = le_Hash (last xs),
     hs_Recent = map row_ref (drop (length xs - w) xs)\<rparr>"

lemma Head_head_state:
  assumes "Head db window = (db', Inr hs)" and "chain_ok H (pg_rows db)" and "pg_rows db \<noteq> []"
  shows "\<exists>w > 0. hs = head_state (pg_rows db) w"
proof -
  let ?w = "nat (if window \<le> 0 then DefaultAnchorWindow else window)" and ?xs = "pg_rows db"
  have pos: "0 < ?w" by (simp add: DefaultAnchorWindow_def)
  have desc: "rev (take ?w (rev (RowRefsOf ?xs))) = map row_ref (drop (length ?xs - ?w) ?xs)"
    by (simp add: rev_take RowRefsOf_map drop_map)
  have ne: "take ?w (rev (RowRefsOf ?xs)) \<noteq> []" and ne': "drop (length ?xs - ?w) ?xs \<noteq> []"
    using assms(3) pos by (cases "pg_rows db"; simp add: RowRefsOf_map del: nat_0_iff; fail)+
  have "hs = \<lparr>hs_Seq = le_Seq (last ?xs), hs_Hash = le_Hash (last ?xs),
      hs_Recent = map row_ref (drop (length ?xs - ?w) ?xs)\<rparr>"
    using assms(1) ne ne' desc unfolding Head_def pg_faulty_def Let_def
    by (auto simp: last_map split: list.splits if_splits prod.splits)
  with chain_ok_last_seq [OF assms(2,3)] have "hs = head_state ?xs ?w" by (simp add: head_state_def)
  with pos show ?thesis by blast
qed

lemma headStateFromChain_head_state:
  assumes "chain_ok H (xs @ ys)" and "xs \<noteq> []" and "w > 0"
  shows "headStateFromChain (by_seq (RowRefsOf (xs @ ys))) (int (length xs))
      (int (length (hs_Recent (head_state xs w)))) = Some (head_state xs w)"
proof -
  let ?k = "min w (length xs)" and ?n = "length xs"
  have k: "length (hs_Recent (head_state xs w)) = ?k" by (simp add: head_state_def min_def)
  have kpos: "0 < ?k" "?k \<le> ?n" using assms(2,3) by auto
  then have start: "int ?n - int ?k + 1 = int (?n - ?k) + 1" by linarith
  have cnt: "nat (int ?n - (int (?n - ?k) + 1) + 1) = ?k" using kpos by linarith
  have "collect_window (by_seq (RowRefsOf (xs @ ys))) (int (?n - ?k) + 1) ?k
      = Some (map row_ref (take ?k (drop (?n - ?k) (xs @ ys))))"
    using assms(1) kpos by (intro collect_window_chain) auto
  moreover have "take ?k (drop (?n - ?k) (xs @ ys)) = drop (?n - w) xs"
    using kpos by (simp add: min_def)
  moreover have "by_seq (RowRefsOf (xs @ ys)) (int ?n) = Some (row_ref (last xs))"
    using by_seq_head [OF assms(1), of ?n] assms(2) by (simp add: nth_append last_conv_nth)
  ultimately show ?thesis
    using kpos unfolding headStateFromChain_def k Let_def start
    by (simp add: cnt head_state_def)
qed

lemma verify_anchors_genuine:
  assumes "chain_ok H ys"
    and "list_all (\<lambda>a. \<exists>xs w. prefix xs ys \<and> xs \<noteq> [] \<and> 0 < w \<and> a = ComputeAnchor H (head_state xs w)) as"
  shows "verify_anchors H (by_seq (RowRefsOf ys)) (int (length ys)) as = None"
  using assms(2)
proof (induction as)
  case Nil
  then show ?case by simp
next
  case (Cons a as)
  then obtain xs w zs where ys: "ys = xs @ zs" and ne: "xs \<noteq> []" and w: "0 < w"
    and a: "a = ComputeAnchor H (head_state xs w)" by (auto simp: prefix_def)
  have "by_seq (RowRefsOf ys) (int (length xs)) = Some (row_ref (last xs))"
    using by_seq_head [OF assms(1), of "length xs"] ne ys by (simp add: nth_append last_conv_nth)
  moreover have "headStateFromChain (by_seq (RowRefsOf ys)) (int (length xs)) (an_WindowSize a)
      = Some (head_state xs w)"
    using headStateFromChain_head_state [OF assms(1) [unfolded ys] ne w] ys a by (simp add: ComputeAnchor_def)
  moreover have "verify_anchors H (by_seq (RowRefsOf ys)) (int (length ys)) as = None"
    using Cons.IH Cons.prems by simp
  moreover have "an_Seq a = int (length xs)" "an_Hash a = le_Hash (last xs)"
    using a by (simp_all add: ComputeAnchor_def head_state_def)
  ultimately show ?case using ne ys a by simp
qed

lemma verify_anchors_mem:
  assumes "verify_anchors H m n as = None" and "a \<in> set as" and "an_Seq a \<noteq> 0"
  shows "an_Seq a \<le> n \<and> (\<exists>r. m (an_Seq a) = Some r \<and> rr_Hash r = an_Hash a)"
  using assms by (induction as) (auto split: if_splits option.splits)


text \<open>
  Anchors raise no false alarm: anchors taken of the table's head at any earlier moments pass
  against every later chain that verifies and extends those earlier tables.
\<close>

theorem genuine_anchors_pass:
  assumes "VerifyChain H ys = None"
    and "list_all (\<lambda>(db, w, hs). snd (Head db w) = Inr hs \<and> pg_rows db \<noteq> [] \<and> prefix (pg_rows db) ys) taken"
  shows "VerifyAgainstAnchors H (RowRefsOf ys) (map (\<lambda>(db, w, hs). ComputeAnchor H hs) taken) = None"
proof -
  have ok: "chain_ok H ys" using assms(1) by (simp add: chain_ok_def)
  have "\<exists>w' > 0. hs = head_state (pg_rows db) w'" if "(db, w, hs) \<in> set taken" for db w hs
  proof -
    have p: "snd (Head db w) = Inr hs" "pg_rows db \<noteq> []" "prefix (pg_rows db) ys"
      using assms(2) that by (auto simp: list_all_iff)
    from p(3) ok have "chain_ok H (pg_rows db)" by (metis chain_ok_append_left prefixE)
    with p show ?thesis by (intro Head_head_state [of db w "fst (Head db w)"]) (auto simp: prod_eq_iff)
  qed
  with assms(2) show ?thesis
    unfolding VerifyAgainstAnchors_def max_seq_chain [OF ok]
    by (intro verify_anchors_genuine [OF ok]) (fastforce simp: list_all_iff)
qed

section \<open>A concrete anchor\<close>

definition sample_head :: HeadState where
  "sample_head = (case snd (Head \<lparr>pg_rows = take 1 sample_rows, pg_faults = []\<rparr> 64) of Inr hs \<Rightarrow> hs
     | Inl _ \<Rightarrow> \<lparr>hs_Seq = 0, hs_Hash = [], hs_Recent = []\<rparr>)"

lemma sample_head_eq:
  "Head \<lparr>pg_rows = take 1 sample_rows, pg_faults = []\<rparr> 64
     = (\<lparr>pg_rows = take 1 sample_rows, pg_faults = []\<rparr>, Inr sample_head)"
  by (simp add: sample_head_def Head_def pg_faulty_def Let_def)

lemma sample_anchor_passes:
  "VerifyAgainstAnchors (\<lambda>x. x) (RowRefsOf sample_rows) [ComputeAnchor (\<lambda>x. x) sample_head] = None"
proof -
  have "\<exists>w > 0. sample_head = head_state (take 1 sample_rows) w"
    using Head_head_state [OF sample_head_eq, of "\<lambda>x. x"] sample_rows_ok by (simp add: chain_ok_def)
  then have "list_all (\<lambda>a. \<exists>xs w. prefix xs sample_rows \<and> xs \<noteq> [] \<and> 0 < w
      \<and> a = ComputeAnchor (\<lambda>x. x) (head_state xs w)) [ComputeAnchor (\<lambda>x. x) sample_head]"
    using sample_rows_ok(4) by (auto intro!: exI [of _ "take 1 sample_rows"] take_is_prefix)
  then show ?thesis
    using verify_anchors_genuine [OF sample_rows_chain(1)]
    by (simp only: VerifyAgainstAnchors_def max_seq_chain [OF sample_rows_chain(1)])
qed


theorem genuine_anchors_pass_witness:
  "VerifyAgainstAnchors (\<lambda>x. x) (RowRefsOf sample_rows)
     (map (\<lambda>(db, w, hs). ComputeAnchor (\<lambda>x. x) hs)
        [(\<lparr>pg_rows = take 1 sample_rows, pg_faults = []\<rparr>, 64, sample_head)]) = None"
  using genuine_anchors_pass [of "\<lambda>x. x" sample_rows "[(\<lparr>pg_rows = take 1 sample_rows, pg_faults = []\<rparr>, 64, sample_head)]"]
    sample_rows_ok sample_head_eq by (simp add: take_is_prefix)

end
