(* ===== verification/TG_Glob.thy ===== *)
theory TG_Glob
  imports TG_Prelude
begin

text \<open>
  Go's \<^verbatim>\<open>filepath.Match\<close> on a Unix system: a pattern is parsed into items, a malformed pattern is
  an error whatever the name is, and a well-formed one is matched against the whole name.
\<close>

datatype glob_item = GChar char | GAny | GStar | GClass bool "(char \<times> char) list"

text \<open>\<^verbatim>\<open>getEsc\<close>: one possibly escaped character of a class; something has to follow it.\<close>

definition get_esc :: "string \<Rightarrow> (char \<times> string) option" where
  "get_esc s =
     (case s of
        [] \<Rightarrow> None
      | c # cs \<Rightarrow>
          if c = CHR ''-'' \<or> c = CHR '']'' then None
          else if c = backslash then
            (case cs of [] \<Rightarrow> None | d # ds \<Rightarrow> if ds = [] then None else Some (d, ds))
          else if cs = [] then None else Some (c, cs))"

lemma get_esc_shorter: "get_esc s = Some (c, r) \<Longrightarrow> length r < length s"
  by (auto simp: get_esc_def split: list.splits if_splits)

definition class_range :: "string \<Rightarrow> ((char \<times> char) \<times> string) option" where
  "class_range s =
     (case get_esc s of
        None \<Rightarrow> None
      | Some (lo, r) \<Rightarrow>
          if r \<noteq> [] \<and> hd r = CHR ''-'' then
            (case get_esc (tl r) of None \<Rightarrow> None | Some (hi, r') \<Rightarrow> Some ((lo, hi), r'))
          else Some ((lo, lo), r))"

lemma class_range_shorter: "class_range s = Some (x, r) \<Longrightarrow> length r < length s"
proof -
  assume a: "class_range s = Some (x, r)"
  then obtain lo r1 where e: "get_esc s = Some (lo, r1)" by (auto simp: class_range_def split: option.splits)
  show ?thesis
  proof (cases "r1 \<noteq> [] \<and> hd r1 = CHR ''-''")
    case True
    then obtain hi where "get_esc (tl r1) = Some (hi, r)"
      using a e by (auto simp: class_range_def split: option.splits)
    then have "length r < length (tl r1)" by (rule get_esc_shorter)
    then show ?thesis using get_esc_shorter [OF e] by simp
  next
    case False
    then show ?thesis using a e get_esc_shorter [OF e] by (auto simp: class_range_def)
  qed
qed

function class_ranges :: "bool \<Rightarrow> string \<Rightarrow> ((char \<times> char) list \<times> string) option" where
  "class_ranges started s =
     (if started \<and> s \<noteq> [] \<and> hd s = CHR '']'' then Some ([], tl s)
      else case class_range s of
        None \<Rightarrow> None
      | Some (x, r) \<Rightarrow> map_option (\<lambda>(xs, r'). (x # xs, r')) (class_ranges True r))"
  by pat_completeness auto
termination
  by (relation "measure (length \<circ> snd)") (auto dest: class_range_shorter)

declare class_ranges.simps [simp del]

lemma class_ranges_shorter: "class_ranges b s = Some (x, r) \<Longrightarrow> length r < length s"
proof (induction b s arbitrary: x r rule: class_ranges.induct)
  case (1 b s)
  show ?case
  proof (cases "b \<and> s \<noteq> [] \<and> hd s = CHR '']''")
    case True
    with 1(2) show ?thesis by (subst (asm) class_ranges.simps) auto
  next
    case False
    with 1(2) obtain y t xs where "class_range s = Some (y, t)" and "class_ranges True t = Some (xs, r)"
      by (subst (asm) class_ranges.simps) (auto split: option.splits)
    with 1(1) [OF False, of "(y, t)" y t] class_range_shorter [of s y t] show ?thesis by fastforce
  qed
qed

function glob_parse :: "string \<Rightarrow> glob_item list option" where
  "glob_parse s =
     (case s of
        [] \<Rightarrow> Some []
      | c # cs \<Rightarrow>
          if c = CHR ''*'' then map_option (\<lambda>g. GStar # g) (glob_parse cs)
          else if c = CHR ''?'' then map_option (\<lambda>g. GAny # g) (glob_parse cs)
          else if c = CHR ''['' then
            (let neg = (cs \<noteq> [] \<and> hd cs = CHR ''^'') in
             case class_ranges False (if neg then tl cs else cs) of
               None \<Rightarrow> None
             | Some (rs, r) \<Rightarrow> map_option (\<lambda>g. GClass neg rs # g) (glob_parse r))
          else if c = backslash then
            (case cs of [] \<Rightarrow> None | d # ds \<Rightarrow> map_option (\<lambda>g. GChar d # g) (glob_parse ds))
          else map_option (\<lambda>g. GChar c # g) (glob_parse cs))"
  by pat_completeness auto
termination
  by (relation "measure length") (auto dest!: class_ranges_shorter split: if_splits)

declare glob_parse.simps [simp del]

fun glob_match :: "glob_item list \<Rightarrow> string \<Rightarrow> bool" where
  "glob_match [] s \<longleftrightarrow> s = []"
| "glob_match (GChar c # g) s \<longleftrightarrow> (case s of [] \<Rightarrow> False | x # xs \<Rightarrow> x = c \<and> glob_match g xs)"
| "glob_match (GAny # g) s \<longleftrightarrow> (case s of [] \<Rightarrow> False | x # xs \<Rightarrow> x \<noteq> CHR ''/'' \<and> glob_match g xs)"
| "glob_match (GClass neg rs # g) s \<longleftrightarrow>
     (case s of [] \<Rightarrow> False
      | x # xs \<Rightarrow> list_ex (\<lambda>(lo, hi). lo \<le> x \<and> x \<le> hi) rs \<noteq> neg \<and> glob_match g xs)"
| "glob_match (GStar # g) s \<longleftrightarrow>
     glob_match g s \<or> (case s of [] \<Rightarrow> False | x # xs \<Rightarrow> x \<noteq> CHR ''/'' \<and> glob_match (GStar # g) xs)"

text \<open>\<^const>\<open>None\<close> is \<^verbatim>\<open>ErrBadPattern\<close>.\<close>

definition filepath_match :: "string \<Rightarrow> string \<Rightarrow> bool option" where
  "filepath_match pattern name = map_option (\<lambda>g. glob_match g name) (glob_parse pattern)"

lemma glob_star_all: "CHR ''/'' \<notin> set s \<Longrightarrow> glob_match [GStar] s"
  by (induction s) auto

lemma filepath_match_error: "filepath_match p s = None \<longleftrightarrow> filepath_match p t = None"
  by (simp add: filepath_match_def)

end
