(* ===== verification/Risk.thy ===== *)
theory Risk
  imports Ledger TG_Glob
begin

text \<open>
  The risk classifier, \<^verbatim>\<open>core/risk/\<close>: the gated input, the first-match classification into a
  band, the declared band floor, the canary pins, and the audited entry point.

  \<^verbatim>\<open>Signals\<close> is a Go map and may be nil; it is an optional map here. The classifier writes into the
  map it was given, so a caller's own map gains the same entries; only the returned one is modelled.
\<close>

section \<open>Input and decision\<close>

type_synonym reversibility = int

definition Irreversible :: reversibility where [tg_consts]: "Irreversible = 0"
definition ReversibleMixed :: reversibility where [tg_consts]: "ReversibleMixed = 1"
definition Reversible :: reversibility where [tg_consts]: "Reversible = 2"

definition reversibility_string :: "reversibility \<Rightarrow> string" where
  "reversibility_string r =
     (if r = Reversible then ''reversible''
      else if r = ReversibleMixed then ''reversible-mixed''
      else ''irreversible'')"

record EvidenceRef =
  er_ToolResultID :: string
  er_Captured :: bool
  er_Successful :: bool
  er_RecentlyObserved :: bool
  er_TargetRelevant :: bool

definition Bound :: "EvidenceRef \<Rightarrow> bool" where
  "Bound e \<longleftrightarrow> er_Captured e \<and> er_Successful e \<and> er_RecentlyObserved e \<and> er_TargetRelevant e"

fun hasBoundEvidence :: "EvidenceRef list \<Rightarrow> bool" where
  "hasBoundEvidence [] = False"
| "hasBoundEvidence (e # es) = (if Bound e then True else hasBoundEvidence es)"

record GatedInput =
  gi_ExternalRef :: string
  gi_ActionID :: string
  gi_PlanHash :: string
  gi_RiskLevel :: string
  gi_OpClass :: string
  gi_Reversible :: reversibility
  gi_Jailbreak :: bool
  gi_CanaryPinned :: bool
  gi_UngraduatedClass :: bool
  gi_RationaleHostMismatch :: bool
  gi_RationaleMismatchDetail :: string
  gi_BandFloor :: band
  gi_BandFloorApplies :: bool
  gi_BandFloorReason :: string
  gi_AttributionStandDown :: bool
  gi_AttributionSecurity :: bool
  gi_AttributionEscalate :: bool
  gi_StatefulTarget :: bool
  gi_ServerDestructive :: bool
  gi_SelfProtectedRestart :: bool
  gi_HasPrediction :: bool
  gi_HasVerdict :: bool
  gi_Verdict :: verdict
  gi_VerdictKey :: string
  gi_NovelIncident :: bool
  gi_NoveltyKey :: string
  gi_NoveltyCount :: int
  gi_CriticalityTier :: bool
  gi_BlastRadiusWide :: bool
  gi_HighRiskCategory :: bool
  gi_SilentCognitionGuard :: bool
  gi_AutoResolveMarked :: bool
  gi_Evidence :: "EvidenceRef list"
  gi_Signals :: signals

record Decision =
  d_Band :: band
  d_RiskLevel :: string
  d_AutoApproved :: bool
  d_NotifyRequired :: bool
  d_AutoProceedOnTimeout :: bool
  d_AutoResolve :: bool
  d_Signals :: signals
  d_ActionID :: string
  d_PlanHash :: string

section \<open>Classification\<close>

text \<open>A write into a nil map would panic; the code writes only after \<^verbatim>\<open>poll\<close> has made one.\<close>

definition put_signal :: "string \<Rightarrow> string \<Rightarrow> Decision \<Rightarrow> Decision" where
  "put_signal k v d = d\<lparr>d_Signals := map_option (\<lambda>m. m(k \<mapsto> v)) (d_Signals d)\<rparr>"

definition poll :: "Decision \<Rightarrow> string \<Rightarrow> Decision" where
  "poll d reason =
     put_signal ''poll_reason'' reason
       (d\<lparr>d_Band := BandPollPause, d_AutoApproved := False, d_AutoResolve := False,
          d_NotifyRequired := True, d_AutoProceedOnTimeout := False,
          d_Signals := (case d_Signals d of None \<Rightarrow> Some Map.empty | Some m \<Rightarrow> Some m)\<rparr>)"

definition classify :: "GatedInput \<Rightarrow> Decision" where
  "classify i =
     (let d = \<lparr>d_Band = BandPollPause, d_RiskLevel = gi_RiskLevel i, d_AutoApproved = False,
               d_NotifyRequired = False, d_AutoProceedOnTimeout = False, d_AutoResolve = False,
               d_Signals = gi_Signals i, d_ActionID = gi_ActionID i, d_PlanHash = gi_PlanHash i\<rparr>
      in
      if gi_Jailbreak i then poll d ''jailbreak-detected''
      else if IsNeverAuto (gi_OpClass i) \<or> gi_Reversible i = Irreversible
        then poll d ''irreversible-or-never-auto-floor''
      else if gi_ServerDestructive i then poll d ''server-derived-destructive-op''
      else if gi_StatefulTarget i \<and> gi_Reversible i \<noteq> Reversible then poll d ''stateful-workload-mutation''
      else if gi_SelfProtectedRestart i then poll d ''self-protected-control-plane-restart''
      else if gi_CanaryPinned i then poll d ''canary-policy-pinned''
      else if gi_AttributionSecurity i
        then put_signal ''security_escalation'' ''true'' (poll d ''actor-attributed-suspicious'')
      else if gi_AttributionStandDown i then poll d ''actor-attributed-authorized''
      else if gi_AttributionEscalate i then poll d ''actor-attribution-escalate''
      else if gi_RationaleHostMismatch i
        then (let d = poll d ''rationale-names-a-different-host'' in
              if gi_RationaleMismatchDetail i \<noteq> []
              then put_signal ''rationale_mismatch'' (gi_RationaleMismatchDetail i) d else d)
      else if gi_UngraduatedClass i then poll d ''op-class-not-graduated''
      else if \<not> gi_HasPrediction i then poll d ''no-committed-prediction''
      else if gi_HasVerdict i \<and> (gi_Verdict i = VerdictDeviation \<or> \<not> valid_verdict (gi_Verdict i))
        then (let d = poll d ''verdict-deviation-or-invalid'';
                  d = (if gi_VerdictKey i \<noteq> [] then put_signal ''prior_verdict_key'' (gi_VerdictKey i) d else d)
              in put_signal ''prior_verdict'' (gi_Verdict i) d)
      else if gi_NovelIncident i
        then (let d = poll d ''ood-novel-incident'';
                  d = (if gi_NoveltyKey i \<noteq> [] then put_signal ''novelty_key'' (gi_NoveltyKey i) d else d)
              in put_signal ''novelty_count'' (itoa (gi_NoveltyCount i)) d)
      else if gi_HighRiskCategory i then poll d ''high-risk-category-default''
      else if gi_SilentCognitionGuard i \<and> gi_AutoResolveMarked i \<and> \<not> hasBoundEvidence (gi_Evidence i)
        then poll d ''auto-resolve-evidence-unbound''
      else if gi_CriticalityTier i \<or> gi_Reversible i = ReversibleMixed \<or> gi_BlastRadiusWide i
        then d\<lparr>d_Band := BandAutoNotice, d_AutoApproved := True, d_NotifyRequired := True, d_AutoResolve := True\<rparr>
      else d\<lparr>d_Band := BandAuto, d_AutoApproved := True, d_AutoResolve := True\<rparr>)"

definition bandFloorReason :: "GatedInput \<Rightarrow> string" where
  "bandFloorReason i = (if gi_BandFloorReason i = [] then ''declared'' else gi_BandFloorReason i)"

definition applyBandFloor :: "GatedInput \<Rightarrow> Decision \<Rightarrow> Decision" where
  "applyBandFloor i d =
     (if \<not> gi_BandFloorApplies i then d
      else if gi_BandFloor i \<ge> d_Band d then d
      else if gi_BandFloor i = BandAutoNotice
        then put_signal ''band_floor'' ''auto_notice'' (d\<lparr>d_Band := BandAutoNotice, d_NotifyRequired := True\<rparr>)
      else poll d (''band-floor-'' @ bandFloorReason i))"

definition Classify :: "GatedInput \<Rightarrow> Decision" where
  "Classify i = applyBandFloor i (classify i)"

section \<open>Canary pins\<close>

record CanaryPin =
  cp_HostPattern :: string
  cp_OpClass :: string
  cp_Reason :: string

datatype pin_field = PinHostPattern | PinOpClass

definition globMatch :: "string \<Rightarrow> string \<Rightarrow> bool" where
  "globMatch s pattern \<longleftrightarrow>
     (if pattern = [] \<or> pattern = ''*'' then True else filepath_match pattern s = Some True)"

text \<open>\<^verbatim>\<open>CanaryPins.Match\<close>; \<^const>\<open>None\<close> is the nil receiver.\<close>

fun match_pins :: "string \<Rightarrow> string \<Rightarrow> CanaryPin list \<Rightarrow> bool \<times> string" where
  "match_pins host opClass [] = (False, [])"
| "match_pins host opClass (p # ps) =
     (if globMatch host (cp_HostPattern p) \<and> globMatch opClass (cp_OpClass p) then (True, cp_Reason p)
      else match_pins host opClass ps)"

definition CanaryPins_Match :: "CanaryPin list option \<Rightarrow> string \<Rightarrow> string \<Rightarrow> bool \<times> string" where
  "CanaryPins_Match c host opClass = (case c of None \<Rightarrow> (False, []) | Some ps \<Rightarrow> match_pins host opClass ps)"

definition CanaryPins_Len :: "CanaryPin list option \<Rightarrow> nat" where
  "CanaryPins_Len c = (case c of None \<Rightarrow> 0 | Some ps \<Rightarrow> length ps)"

text \<open>
  The validation of \<^verbatim>\<open>LoadCanaryPins\<close>, after the file was read and parsed: the first pin with a
  malformed pattern is an error that names it.
\<close>

fun validate_pins :: "nat \<Rightarrow> CanaryPin list \<Rightarrow> (nat \<times> pin_field) option" where
  "validate_pins i [] = None"
| "validate_pins i (p # ps) =
     (if filepath_match (cp_HostPattern p) ''probe'' = None then Some (i, PinHostPattern)
      else if filepath_match (cp_OpClass p) ''probe'' = None then Some (i, PinOpClass)
      else validate_pins (Suc i) ps)"

definition load_pins :: "CanaryPin list \<Rightarrow> (nat \<times> pin_field) + CanaryPin list" where
  "load_pins pins = (case validate_pins 0 pins of Some e \<Rightarrow> Inl e | None \<Rightarrow> Inr pins)"

section \<open>The audited entry point\<close>

definition ClassifyAndAudit ::
    "(string \<Rightarrow> string) \<Rightarrow> 'db sink option \<Rightarrow> (nat \<Rightarrow> 'db \<Rightarrow> 'db) \<Rightarrow> (RiskAudit \<Rightarrow> audit_error option) option
     \<Rightarrow> GatedInput \<Rightarrow> Ledger \<Rightarrow> 'db \<Rightarrow> (Decision \<times> (audit_error + RiskAudit \<times> LedgerEntry)) \<times> Ledger \<times> 'db" where
  "ClassifyAndAudit H sk env risk_sink i l db =
     (let d = Classify i;
          ra = \<lparr>ra_ExternalRef = gi_ExternalRef i, ra_RiskLevel = d_RiskLevel d, ra_Band = d_Band d,
                ra_AutoApproved = d_AutoApproved d, ra_AutoProceedOnTimeout = False,
                ra_NotifyRequired = d_NotifyRequired d, ra_OperatorOverride = False,
                ra_Signals = d_Signals d, ra_PlanHash = d_PlanHash d, ra_ActionID = d_ActionID d,
                ra_SchemaVersion = 0\<rparr>
      in case AppendRiskAudit H sk env risk_sink ra l db of
           (r, l', db') \<Rightarrow> ((d, r), l', db'))"

section \<open>The classification as a table\<close>

text \<open>The reasons to pause, in the order the classifier considers them.\<close>

definition pause_table :: "GatedInput \<Rightarrow> (bool \<times> string) list" where
  "pause_table i =
     [(gi_Jailbreak i, ''jailbreak-detected''),
      (IsNeverAuto (gi_OpClass i) \<or> gi_Reversible i = Irreversible, ''irreversible-or-never-auto-floor''),
      (gi_ServerDestructive i, ''server-derived-destructive-op''),
      (gi_StatefulTarget i \<and> gi_Reversible i \<noteq> Reversible, ''stateful-workload-mutation''),
      (gi_SelfProtectedRestart i, ''self-protected-control-plane-restart''),
      (gi_CanaryPinned i, ''canary-policy-pinned''),
      (gi_AttributionSecurity i, ''actor-attributed-suspicious''),
      (gi_AttributionStandDown i, ''actor-attributed-authorized''),
      (gi_AttributionEscalate i, ''actor-attribution-escalate''),
      (gi_RationaleHostMismatch i, ''rationale-names-a-different-host''),
      (gi_UngraduatedClass i, ''op-class-not-graduated''),
      (\<not> gi_HasPrediction i, ''no-committed-prediction''),
      (gi_HasVerdict i \<and> (gi_Verdict i = VerdictDeviation \<or> \<not> valid_verdict (gi_Verdict i)),
        ''verdict-deviation-or-invalid''),
      (gi_NovelIncident i, ''ood-novel-incident''),
      (gi_HighRiskCategory i, ''high-risk-category-default''),
      (gi_SilentCognitionGuard i \<and> gi_AutoResolveMarked i \<and> \<not> hasBoundEvidence (gi_Evidence i),
        ''auto-resolve-evidence-unbound'')]"

definition must_pause :: "GatedInput \<Rightarrow> bool" where
  "must_pause i \<longleftrightarrow> list_ex fst (pause_table i)"

definition notice_worthy :: "GatedInput \<Rightarrow> bool" where
  "notice_worthy i \<longleftrightarrow> gi_CriticalityTier i \<or> gi_Reversible i = ReversibleMixed \<or> gi_BlastRadiusWide i"

definition poll_reason :: "Decision \<Rightarrow> string option" where
  "poll_reason d = (case d_Signals d of None \<Rightarrow> None | Some m \<Rightarrow> m ''poll_reason'')"

lemma hasBoundEvidence_iff: "hasBoundEvidence es \<longleftrightarrow> (\<exists>e \<in> set es. Bound e)"
  by (induction es) auto

lemma put_signal_sel [simp]:
  "d_Band (put_signal k v d) = d_Band d" "d_AutoApproved (put_signal k v d) = d_AutoApproved d"
  "d_NotifyRequired (put_signal k v d) = d_NotifyRequired d" "d_AutoResolve (put_signal k v d) = d_AutoResolve d"
  "d_AutoProceedOnTimeout (put_signal k v d) = d_AutoProceedOnTimeout d"
  "d_RiskLevel (put_signal k v d) = d_RiskLevel d" "d_ActionID (put_signal k v d) = d_ActionID d"
  "d_PlanHash (put_signal k v d) = d_PlanHash d"
  by (simp_all add: put_signal_def)

lemma poll_sel [simp]:
  "d_Band (poll d r) = BandPollPause" "d_AutoApproved (poll d r) = False" "d_NotifyRequired (poll d r) = True"
  "d_AutoResolve (poll d r) = False" "d_AutoProceedOnTimeout (poll d r) = False"
  "d_RiskLevel (poll d r) = d_RiskLevel d" "d_ActionID (poll d r) = d_ActionID d"
  "d_PlanHash (poll d r) = d_PlanHash d" "poll_reason (poll d r) = Some r"
  by (simp_all add: poll_def poll_reason_def put_signal_def split: option.split)

lemma poll_reason_put [simp]: "k \<noteq> ''poll_reason'' \<Longrightarrow> poll_reason (put_signal k v d) = poll_reason d"
  by (simp add: poll_reason_def put_signal_def split: option.split)

lemma find_fst_None: "find fst xs = None \<longleftrightarrow> \<not> list_ex fst xs"
  by (induction xs) auto

lemma find_fst_ConsE:
  assumes "find fst ((b, r) # xs) = Some (c, q)"
  obtains b and "r = q" | "\<not> b" and "find fst xs = Some (c, q)"
  using assms by (auto split: if_splits)

lemma list_ex_fst_ConsE:
  assumes "\<not> list_ex fst ((b, r) # xs)"
  obtains "\<not> b" and "\<not> list_ex fst xs"
  using assms by auto

lemma classify_paused:
  assumes "find fst (pause_table i) = Some (b, r)"
  shows "d_Band (classify i) = BandPollPause \<and> d_AutoApproved (classify i) = False
    \<and> d_NotifyRequired (classify i) \<and> \<not> d_AutoResolve (classify i) \<and> \<not> d_AutoProceedOnTimeout (classify i)
    \<and> poll_reason (classify i) = Some r \<and> d_ActionID (classify i) = gi_ActionID i
    \<and> d_PlanHash (classify i) = gi_PlanHash i \<and> d_RiskLevel (classify i) = gi_RiskLevel i"
  using assms unfolding pause_table_def classify_def Let_def
  by (elim find_fst_ConsE; simp only: if_True if_False find.simps; simp)

lemma classify_clear:
  assumes "\<not> must_pause i"
  shows "classify i =
     \<lparr>d_Band = (if notice_worthy i then BandAutoNotice else BandAuto), d_RiskLevel = gi_RiskLevel i,
      d_AutoApproved = True, d_NotifyRequired = notice_worthy i, d_AutoProceedOnTimeout = False,
      d_AutoResolve = True, d_Signals = gi_Signals i, d_ActionID = gi_ActionID i, d_PlanHash = gi_PlanHash i\<rparr>"
  using assms unfolding must_pause_def pause_table_def notice_worthy_def classify_def Let_def
  by (elim list_ex_fst_ConsE; simp only: if_True if_False; simp)

lemma find_fst_Some: "must_pause i \<Longrightarrow> \<exists>b r. find fst (pause_table i) = Some (b, r)"
  unfolding must_pause_def using find_fst_None by (metis not_None_eq prod.exhaust)

lemma classify_band:
  "d_Band (classify i) = (if must_pause i then BandPollPause else if notice_worthy i then BandAutoNotice else BandAuto)"
proof (cases "must_pause i")
  case True
  then obtain b r where "find fst (pause_table i) = Some (b, r)" using find_fst_Some by blast
  with True classify_paused show ?thesis by simp
qed (simp add: classify_clear)

text \<open>The flags of a decision that follow from its band.\<close>

definition coherent :: "Decision \<Rightarrow> bool" where
  "coherent d \<longleftrightarrow> d_Band d \<in> {BandPollPause, BandAutoNotice, BandAuto}
     \<and> (d_AutoApproved d \<longleftrightarrow> d_Band d \<noteq> BandPollPause)
     \<and> (d_AutoResolve d \<longleftrightarrow> d_AutoApproved d)
     \<and> (d_NotifyRequired d \<longleftrightarrow> d_Band d \<noteq> BandAuto)
     \<and> \<not> d_AutoProceedOnTimeout d"

lemma classify_coherent: "coherent (classify i)"
proof (cases "must_pause i")
  case True
  then show ?thesis using find_fst_Some classify_paused by (fastforce simp: coherent_def)
qed (simp add: classify_clear coherent_def)

lemma classify_fields:
  "d_ActionID (classify i) = gi_ActionID i \<and> d_PlanHash (classify i) = gi_PlanHash i
     \<and> d_RiskLevel (classify i) = gi_RiskLevel i"
proof (cases "must_pause i")
  case True
  then show ?thesis using find_fst_Some classify_paused by blast
qed (simp add: classify_clear)

lemma applyBandFloor_coherent: "coherent d \<Longrightarrow> coherent (applyBandFloor i d)"
  unfolding coherent_def applyBandFloor_def by (auto simp: tg_consts)

lemma applyBandFloor_band:
  "d_Band (applyBandFloor i d) =
     (if \<not> gi_BandFloorApplies i \<or> gi_BandFloor i \<ge> d_Band d then d_Band d
      else if gi_BandFloor i = BandAutoNotice then BandAutoNotice else BandPollPause)"
  by (simp add: applyBandFloor_def)

lemma applyBandFloor_fields:
  "d_ActionID (applyBandFloor i d) = d_ActionID d \<and> d_PlanHash (applyBandFloor i d) = d_PlanHash d
     \<and> d_RiskLevel (applyBandFloor i d) = d_RiskLevel d"
  by (simp add: applyBandFloor_def)

text \<open>
  One input carries at least the risk of another: every reason to pause or to notify that holds of
  the first holds of the second, and a declared floor of the first is at least as strict in the second.
\<close>

definition riskier :: "GatedInput \<Rightarrow> GatedInput \<Rightarrow> bool" where
  "riskier i j \<longleftrightarrow>
     list_all2 (\<lambda>p q. fst p \<longrightarrow> fst q) (pause_table i) (pause_table j)
     \<and> (notice_worthy i \<longrightarrow> notice_worthy j)
     \<and> (gi_BandFloorApplies i \<longrightarrow> gi_BandFloorApplies j \<and> gi_BandFloor j \<le> gi_BandFloor i)"

lemma riskier_pause: "riskier i j \<Longrightarrow> must_pause i \<Longrightarrow> must_pause j"
proof -
  have "list_all2 (\<lambda>p q. fst p \<longrightarrow> fst q) xs ys \<Longrightarrow> list_ex fst xs \<Longrightarrow> list_ex fst ys"
    for xs ys :: "(bool \<times> string) list"
    by (induction xs ys rule: list_all2_induct) auto
  then show "riskier i j \<Longrightarrow> must_pause i \<Longrightarrow> must_pause j"
    unfolding riskier_def must_pause_def by blast
qed

section \<open>Properties\<close>


text \<open>
  A decision is coherent whatever the input and the declared floor are: it is approved without
  a human exactly when its band is not POLL_PAUSE, an action below AUTO is always announced, the
  auto-resolve marker survives only on approved actions, and nothing ever proceeds on a timeout.
\<close>

theorem Classify_coherent: "coherent (Classify i)"
  unfolding Classify_def using classify_coherent by (rule applyBandFloor_coherent)

text \<open>
  C35. More risk never means more autonomy: adding any reason to pause or to notify, or tightening
  the declared floor, never yields a higher band.
\<close>

theorem Classify_monotone:
  assumes "riskier i j"
  shows "d_Band (Classify j) \<le> d_Band (Classify i)"
proof -
  have "d_Band (classify j) \<le> d_Band (classify i)"
    using riskier_pause [OF assms] assms by (auto simp: classify_band riskier_def tg_consts)
  moreover have "d_Band (classify j) \<in> {0, 1, 2}" "d_Band (classify i) \<in> {0, 1, 2}"
    by (auto simp: classify_band tg_consts)
  ultimately show ?thesis
    using assms unfolding Classify_def applyBandFloor_band riskier_def by (auto simp: tg_consts)
qed

text \<open>
  A declared floor only ever raises review: with a floor that is one of the three bands the
  final band is the lower of the two, and without one it is the classifier's.
\<close>

theorem Classify_floor_min:
  assumes "gi_BandFloor i \<in> {BandPollPause, BandAutoNotice, BandAuto}"
  shows "d_Band (Classify i) =
    (if gi_BandFloorApplies i then min (d_Band (classify i)) (gi_BandFloor i) else d_Band (classify i))"
  using assms classify_coherent [of i] unfolding Classify_def applyBandFloor_band coherent_def
  by (auto simp: tg_consts)

text \<open>
  Every audited classification leaves a truthful row: when the call succeeds on an in-memory
  ledger that verifies, the new last row names the action, carries the decided band, is marked
  withheld exactly for a pause, and the ledger still verifies; when it fails the ledger is unchanged.
\<close>

theorem ClassifyAndAudit_row:
  assumes "ledger_inv H l"
    and "ClassifyAndAudit H None env risk_sink i l db = ((d, r), l', db')"
  shows "case r of
      Inl _ \<Rightarrow> l' = l
    | Inr (ra, e) \<Rightarrow> ledger_inv H l' \<and> ld_entries l' = ld_entries l @ [e] \<and> d = Classify i
        \<and> le_ActionID e = gi_ActionID i \<and> le_Decision e = ''classify:'' @ band_string (d_Band d)
        \<and> (le_Withheld e \<longleftrightarrow> d_Band d = BandPollPause)
        \<and> ra_Band ra = d_Band d \<and> ra_AutoApproved ra = d_AutoApproved d \<and> \<not> ra_AutoProceedOnTimeout ra"
proof -
  let ?gd = "\<lparr>gd_Decision = ''classify:'' @ band_string (d_Band (Classify i)), gd_Reason = gi_RiskLevel i,
      gd_ActionID = gi_ActionID i, gd_Withheld = (d_Band (Classify i) = BandPollPause)\<rparr>"
  have f: "d_ActionID (Classify i) = gi_ActionID i" "d_RiskLevel (Classify i) = gi_RiskLevel i"
    using classify_fields applyBandFloor_fields by (simp_all add: Classify_def)
  have st: "schema_Stamp ''session_risk_audit'' = Inr 1" by (simp add: schema_Stamp_def schema_current_def)
  have inv: "ledger_inv H (snd (append_mem H ?gd l))" using append_mem_inv [OF assms(1)] by blast
  show ?thesis
    using assms(2) inv f st
    unfolding ClassifyAndAudit_def AppendRiskAudit_def append_mem_def AppendContext_def Let_def
    by (auto simp: set_tail_def build_entry_def Let_def split: if_splits option.splits)
qed

section \<open>A concrete input\<close>

text \<open>A reversible restart of a known service with a committed prediction and a clean history.\<close>

definition calm_input :: GatedInput where
  "calm_input =
     \<lparr>gi_ExternalRef = ''INC-1'', gi_ActionID = ''a1'', gi_PlanHash = ''p1'', gi_RiskLevel = ''low'',
      gi_OpClass = ''restart-service'', gi_Reversible = Reversible, gi_Jailbreak = False,
      gi_CanaryPinned = False, gi_UngraduatedClass = False, gi_RationaleHostMismatch = False,
      gi_RationaleMismatchDetail = [], gi_BandFloor = BandAutoNotice, gi_BandFloorApplies = True,
      gi_BandFloorReason = ''ladder-auto-notice'', gi_AttributionStandDown = False,
      gi_AttributionSecurity = False, gi_AttributionEscalate = False, gi_StatefulTarget = False,
      gi_ServerDestructive = False, gi_SelfProtectedRestart = False, gi_HasPrediction = True,
      gi_HasVerdict = True, gi_Verdict = VerdictMatch, gi_VerdictKey = [], gi_NovelIncident = False,
      gi_NoveltyKey = [], gi_NoveltyCount = 0, gi_CriticalityTier = False, gi_BlastRadiusWide = False,
      gi_HighRiskCategory = False, gi_SilentCognitionGuard = False, gi_AutoResolveMarked = False,
      gi_Evidence = [], gi_Signals = None\<rparr>"

theorem Classify_monotone_witness:
  "d_Band (Classify calm_input) = BandAutoNotice
     \<and> d_Band (Classify (calm_input\<lparr>gi_NovelIncident := True\<rparr>)) \<le> d_Band (Classify calm_input)"
proof -
  have "riskier calm_input (calm_input\<lparr>gi_NovelIncident := True\<rparr>)" by code_simp
  moreover have "d_Band (Classify calm_input) = BandAutoNotice" by code_simp
  ultimately show ?thesis using Classify_monotone by blast
qed

theorem Classify_floor_min_witness:
  "gi_BandFloorApplies calm_input
     \<and> d_Band (Classify calm_input) = min (d_Band (classify calm_input)) (gi_BandFloor calm_input)"
  using Classify_floor_min [of calm_input] by (simp add: calm_input_def)

theorem ClassifyAndAudit_row_witness:
  "\<exists>d ra e l' db'. ClassifyAndAudit (\<lambda>x. x) None (\<lambda>_ x. x) None calm_input NewLedger () = ((d, Inr (ra, e)), l', db')
     \<and> ld_entries l' = [e] \<and> le_Decision e = ''classify:'' @ band_string (d_Band d)"
proof -
  obtain d r l' db' where eq:
    "ClassifyAndAudit (\<lambda>x. x) None (\<lambda>_ x. x) None calm_input NewLedger () = ((d, r), l', db')"
    by (metis prod.exhaust)
  have "\<not> isl (snd (fst (ClassifyAndAudit (\<lambda>x. x) None (\<lambda>_ x. x) None calm_input NewLedger ())))"
    by code_simp
  then obtain ra e where "r = Inr (ra, e)" using eq by (cases r) auto
  with eq ClassifyAndAudit_row [OF ledger_inv_New eq] show ?thesis by (auto simp: NewLedger_def)
qed

end
