(* ===== verification/Policy_Rules.thy ===== *)
theory Policy_Rules
  imports Safety
begin

text \<open>
  Operator policy as data: the selector grammar \<^verbatim>\<open>core/credential/match.go\<close>, rules and matching
  \<^verbatim>\<open>core/policy/rule.go\<close>, validation \<^verbatim>\<open>core/policy/schema.go\<close>, and the one evaluation module
  \<^verbatim>\<open>core/policy/rego/policy.rego\<close> as \<^verbatim>\<open>core/policy/eval.go\<close> reads its result.

  JSON decoding and the Rego interpreter are not under verification: validation starts from the
  decoded document, and evaluation is the meaning of the module's text.
\<close>

section \<open>Selectors\<close>

definition KindHost :: string where [tg_consts]: "KindHost = ''host''"
definition KindResource :: string where [tg_consts]: "KindResource = ''resource''"
definition KindHostGlob :: string where [tg_consts]: "KindHostGlob = ''host-glob''"
definition KindGroup :: string where [tg_consts]: "KindGroup = ''group''"
definition KindDeviceClass :: string where [tg_consts]: "KindDeviceClass = ''device-class''"

record Selector =
  se_Kind :: string
  se_Pattern :: string

record Target =
  ta_Host :: string
  ta_Resource :: string
  ta_Groups :: "string list"
  ta_DeviceClass :: string

definition eqFold :: "string \<Rightarrow> string \<Rightarrow> bool" where
  "eqFold a b \<longleftrightarrow> equal_fold (trim_space a) (trim_space b)"

definition GlobMatch :: "string \<Rightarrow> string \<Rightarrow> bool" where
  "GlobMatch glob host \<longleftrightarrow>
     (let glob = norm_key glob; host = norm_key host in
      if glob = ''*'' then True
      else if has_prefix glob ''*'' \<and> has_suffix glob ''*'' then str_contains host (trim_char (CHR ''*'') glob)
      else if has_suffix glob ''*'' then has_prefix host (trim_suffix glob ''*'')
      else if has_prefix glob ''*'' then has_suffix host (trim_prefix glob ''*'')
      else glob = host)"

definition selector_Match :: "Selector \<Rightarrow> Target \<Rightarrow> bool" where
  "selector_Match sel t \<longleftrightarrow>
     (if se_Kind sel = KindHost then ta_Host t \<noteq> [] \<and> eqFold (se_Pattern sel) (ta_Host t)
      else if se_Kind sel = KindResource then ta_Resource t \<noteq> [] \<and> eqFold (se_Pattern sel) (ta_Resource t)
      else if se_Kind sel = KindHostGlob then ta_Host t \<noteq> [] \<and> GlobMatch (se_Pattern sel) (ta_Host t)
      else if se_Kind sel = KindGroup then list_ex (\<lambda>g. eqFold (se_Pattern sel) g) (ta_Groups t)
      else if se_Kind sel = KindDeviceClass then ta_DeviceClass t \<noteq> [] \<and> eqFold (se_Pattern sel) (ta_DeviceClass t)
      else False)"

definition Specificity :: "Selector \<Rightarrow> int" where
  "Specificity sel =
     (if se_Kind sel = KindHost \<or> se_Kind sel = KindResource then 1000000
      else if se_Kind sel = KindHostGlob then
        (let fixed = int (length (filter (\<lambda>c. c \<noteq> CHR ''*'') (se_Pattern sel)));
             fixed = (if fixed > 100000 then 100000 else fixed)
         in 500000 + fixed)
      else if se_Kind sel = KindGroup then 200000
      else if se_Kind sel = KindDeviceClass then 100000
      else 0)"

section \<open>Rules\<close>

type_synonym pverdict = string

definition VerdictAuto :: pverdict where [tg_consts]: "VerdictAuto = ''auto''"
definition VerdictApprove :: pverdict where [tg_consts]: "VerdictApprove = ''approve''"
definition VerdictDeny :: pverdict where [tg_consts]: "VerdictDeny = ''deny''"

definition validVerdict :: "pverdict \<Rightarrow> bool" where
  "validVerdict v \<longleftrightarrow> v = VerdictAuto \<or> v = VerdictApprove \<or> v = VerdictDeny"

type_synonym bandmode = string

definition BandRespect :: bandmode where [tg_consts]: "BandRespect = ''respect''"
definition BandForce :: bandmode where [tg_consts]: "BandForce = ''force''"

definition validBandMode :: "bandmode \<Rightarrow> bool" where
  "validBandMode b \<longleftrightarrow> b = [] \<or> b = BandRespect \<or> b = BandForce"

text \<open>The \<^verbatim>\<open>float64\<close> nearest to 0.60.\<close>

definition DefaultMinConfidence :: float64 where
  "DefaultMinConfidence = Fin (5404319552844595 / 9007199254740992)"

record Params =
  pa_MinConfidence :: "float64 option"
  pa_BandMode :: bandmode
  pa_RateLimit :: "int option"

definition no_params :: Params where
  "no_params = \<lparr>pa_MinConfidence = None, pa_BandMode = [], pa_RateLimit = None\<rparr>"

definition inherit :: "Params \<Rightarrow> Params \<Rightarrow> Params" where
  "inherit p def =
     \<lparr>pa_MinConfidence = (case pa_MinConfidence p of None \<Rightarrow> pa_MinConfidence def | Some x \<Rightarrow> Some x),
      pa_BandMode = (if pa_BandMode p = [] then pa_BandMode def else pa_BandMode p),
      pa_RateLimit = (case pa_RateLimit p of None \<Rightarrow> pa_RateLimit def | Some x \<Rightarrow> Some x)\<rparr>"

record Match =
  ma_Selector :: "Selector option"
  ma_OpClass :: string
  ma_ArgvPattern :: string
  ma_Territory :: string
  ma_Reversible :: "bool option"
  ma_InverseOnly :: "bool option"

text \<open>The autonomy mode is defined with its controller; its zero value is Shadow.\<close>

type_synonym mode = int

record EvalInput =
  ei_OpClass :: string
  ei_Argv :: string
  ei_Host :: string
  ei_Resource :: string
  ei_Groups :: "string list"
  ei_DeviceClass :: string
  ei_Territory :: string
  ei_Reversible :: bool
  ei_InvertsForward :: bool
  ei_Confidence :: float64
  ei_Band :: band
  ei_Mode :: mode
  ei_ActionID :: string
  ei_ExternalRef :: string
  ei_Principal :: string

definition argvMatch :: "string \<Rightarrow> string \<Rightarrow> bool" where
  "argvMatch pattern argv \<longleftrightarrow>
     (let pattern = trim_space pattern in
      if pattern = [] then False
      else if str_contains pattern ''*'' then GlobMatch pattern argv
      else str_contains (to_lower argv) (to_lower pattern))"

text \<open>
  \<^verbatim>\<open>Match.matches\<close>: each constrained dimension has to hold, and the flag \<^verbatim>\<open>specified\<close> records that
  there was one.
\<close>

definition matches :: "Match \<Rightarrow> EvalInput \<Rightarrow> bool" where
  "matches m i \<longleftrightarrow>
     (let specified = False in
      case (case ma_Selector m of
              None \<Rightarrow> Some specified
            | Some sel \<Rightarrow>
                (let t = \<lparr>ta_Host = ei_Host i, ta_Resource = ei_Resource i, ta_Groups = ei_Groups i,
                          ta_DeviceClass = ei_DeviceClass i\<rparr>
                 in if \<not> selector_Match sel t then None else Some True)) of
        None \<Rightarrow> False
      | Some specified \<Rightarrow>
          if ma_OpClass m \<noteq> [] \<and> \<not> equal_fold (trim_space (ma_OpClass m)) (trim_space (ei_OpClass i)) then False
          else let specified = specified \<or> ma_OpClass m \<noteq> [] in
          if ma_ArgvPattern m \<noteq> [] \<and> \<not> argvMatch (ma_ArgvPattern m) (ei_Argv i) then False
          else let specified = specified \<or> ma_ArgvPattern m \<noteq> [] in
          if ma_Territory m \<noteq> [] \<and> \<not> equal_fold (trim_space (ma_Territory m)) (trim_space (ei_Territory i)) then False
          else let specified = specified \<or> ma_Territory m \<noteq> [] in
          (case ma_Reversible m of
             None \<Rightarrow>
               (case ma_InverseOnly m of None \<Rightarrow> specified | Some b \<Rightarrow> b = ei_InvertsForward i)
           | Some r \<Rightarrow>
               if r \<noteq> ei_Reversible i then False
               else case ma_InverseOnly m of None \<Rightarrow> True | Some b \<Rightarrow> b = ei_InvertsForward i))"

record Rule =
  ru_ID :: string
  ru_Match :: Match
  ru_Verdict :: pverdict
  ru_Params :: Params
  ru_ApproveBy :: "string list"
  ru_IsDefault :: bool

definition no_match :: Match where
  "no_match = \<lparr>ma_Selector = None, ma_OpClass = [], ma_ArgvPattern = [], ma_Territory = [],
     ma_Reversible = None, ma_InverseOnly = None\<rparr>"

text \<open>The zero value of the struct, which a lookup of an unknown id returns.\<close>

definition zero_rule :: Rule where
  "zero_rule = \<lparr>ru_ID = [], ru_Match = no_match, ru_Verdict = [], ru_Params = no_params, ru_ApproveBy = [],
     ru_IsDefault = False\<rparr>"

section \<open>Rule sets and their validation\<close>

record RuleSet =
  rs_Default :: Params
  rs_Rules :: "Rule list"

definition EffectiveParams :: "RuleSet \<Rightarrow> Rule \<Rightarrow> Params" where
  "EffectiveParams rs r =
     (let p = inherit (ru_Params r) (rs_Default rs) in
      if pa_MinConfidence p = None then p\<lparr>pa_MinConfidence := Some DefaultMinConfidence\<rparr> else p)"

datatype rule_error = DecodeError | DefaultParams rule_error | AtRule nat string rule_error | DuplicateID nat string
  | EmptyID | UnknownVerdict string | UnknownBandMode string | ConfidenceRange | NegativeRate int
  | NoDimension | ManySelectors nat

definition specifiesAny :: "Match \<Rightarrow> bool" where
  "specifiesAny m \<longleftrightarrow> ma_Selector m \<noteq> None \<or> ma_OpClass m \<noteq> [] \<or> ma_ArgvPattern m \<noteq> []
     \<or> ma_Territory m \<noteq> [] \<or> ma_Reversible m \<noteq> None \<or> ma_InverseOnly m \<noteq> None"

definition out_of_unit :: "float64 option \<Rightarrow> bool" where
  "out_of_unit c \<longleftrightarrow> (case c of None \<Rightarrow> False | Some x \<Rightarrow> flt x (Fin 0) \<or> flt (Fin 1) x)"

definition negative_rate :: "int option \<Rightarrow> bool" where
  "negative_rate r \<longleftrightarrow> (case r of None \<Rightarrow> False | Some x \<Rightarrow> x < 0)"

definition NewRule :: "Rule \<Rightarrow> rule_error + Rule" where
  "NewRule r =
     (if ru_ID r = [] then Inl EmptyID
      else if \<not> validVerdict (ru_Verdict r) then Inl (UnknownVerdict (ru_Verdict r))
      else if \<not> validBandMode (pa_BandMode (ru_Params r)) then Inl (UnknownBandMode (pa_BandMode (ru_Params r)))
      else if out_of_unit (pa_MinConfidence (ru_Params r)) then Inl ConfidenceRange
      else if negative_rate (pa_RateLimit (ru_Params r)) then Inl (NegativeRate (the (pa_RateLimit (ru_Params r))))
      else if \<not> ru_IsDefault r \<and> \<not> specifiesAny (ru_Match r) then Inl NoDimension
      else Inr r)"

record paramsDoc =
  pd_MinConfidence :: "float64 option"
  pd_BandMode :: string
  pd_RateLimit :: "int option"

record matchDoc =
  md_Host :: string
  md_HostGlob :: string
  md_Group :: string
  md_DeviceClass :: string
  md_Resource :: string
  md_OpClass :: string
  md_ArgvPattern :: string
  md_Territory :: string
  md_Reversible :: "bool option"
  md_InverseOnly :: "bool option"

record ruleDoc =
  rd_ID :: string
  rd_Match :: matchDoc
  rd_Verdict :: string
  rd_Params :: "paramsDoc option"
  rd_ApproveBy :: "string list"
  rd_IsDefault :: bool

record ruleSetDoc =
  sd_Default :: "paramsDoc option"
  sd_Rules :: "ruleDoc list"

definition parseParams :: "paramsDoc option \<Rightarrow> rule_error + Params" where
  "parseParams pdo =
     (case pdo of
        None \<Rightarrow> Inr no_params
      | Some pd \<Rightarrow>
          (let p = \<lparr>pa_MinConfidence = pd_MinConfidence pd, pa_BandMode = pd_BandMode pd, pa_RateLimit = pd_RateLimit pd\<rparr> in
           if \<not> validBandMode (pa_BandMode p) then Inl (UnknownBandMode (pa_BandMode p))
           else if out_of_unit (pa_MinConfidence p) then Inl ConfidenceRange
           else if negative_rate (pa_RateLimit p) then Inl (NegativeRate (the (pa_RateLimit p)))
           else Inr p))"

text \<open>The selectors a document sets, in the order the code looks for them; the last one wins.\<close>

definition doc_selectors :: "matchDoc \<Rightarrow> Selector list" where
  "doc_selectors md =
     map (\<lambda>(k, p). \<lparr>se_Kind = k, se_Pattern = p\<rparr>)
       (filter (\<lambda>(k, p). p \<noteq> [])
          [(KindHost, md_Host md), (KindHostGlob, md_HostGlob md), (KindGroup, md_Group md),
           (KindDeviceClass, md_DeviceClass md), (KindResource, md_Resource md)])"

definition selectorFromDoc :: "matchDoc \<Rightarrow> rule_error + Selector option" where
  "selectorFromDoc md =
     (let sels = doc_selectors md in
      if length sels > 1 then Inl (ManySelectors (length sels))
      else Inr (if sels = [] then None else Some (last sels)))"

definition ruleFromDoc :: "ruleDoc \<Rightarrow> rule_error + Rule" where
  "ruleFromDoc rd =
     (case parseParams (rd_Params rd) of
        Inl e \<Rightarrow> Inl e
      | Inr p \<Rightarrow>
          (case selectorFromDoc (rd_Match rd) of
             Inl e \<Rightarrow> Inl e
           | Inr sel \<Rightarrow>
               NewRule
                 \<lparr>ru_ID = rd_ID rd,
                  ru_Match = \<lparr>ma_Selector = sel, ma_OpClass = md_OpClass (rd_Match rd),
                    ma_ArgvPattern = md_ArgvPattern (rd_Match rd), ma_Territory = md_Territory (rd_Match rd),
                    ma_Reversible = md_Reversible (rd_Match rd), ma_InverseOnly = md_InverseOnly (rd_Match rd)\<rparr>,
                  ru_Verdict = rd_Verdict rd, ru_Params = p, ru_ApproveBy = rd_ApproveBy rd,
                  ru_IsDefault = rd_IsDefault rd\<rparr>))"

fun parse_rules :: "nat \<Rightarrow> string list \<Rightarrow> ruleDoc list \<Rightarrow> rule_error + Rule list" where
  "parse_rules i seen [] = Inr []"
| "parse_rules i seen (rd # rds) =
     (case ruleFromDoc rd of
        Inl e \<Rightarrow> Inl (AtRule i (rd_ID rd) e)
      | Inr r \<Rightarrow>
          if ru_ID r \<in> set seen then Inl (DuplicateID i (ru_ID r))
          else (case parse_rules (Suc i) (ru_ID r # seen) rds of Inl e \<Rightarrow> Inl e | Inr rs \<Rightarrow> Inr (r # rs)))"

text \<open>\<^verbatim>\<open>ParseRuleSet\<close> on a decoded document; \<^const>\<open>None\<close> is a document that did not decode.\<close>

definition ParseRuleSet :: "ruleSetDoc option \<Rightarrow> rule_error + RuleSet" where
  "ParseRuleSet doc =
     (case doc of
        None \<Rightarrow> Inl DecodeError
      | Some d \<Rightarrow>
          (case parseParams (sd_Default d) of
             Inl e \<Rightarrow> Inl (DefaultParams e)
           | Inr def \<Rightarrow>
               (case parse_rules 0 [] (sd_Rules d) of
                  Inl e \<Rightarrow> Inl e
                | Inr rs \<Rightarrow> Inr \<lparr>rs_Default = def, rs_Rules = rs\<rparr>)))"

section \<open>Evaluation\<close>

record prepared =
  pp_id :: string
  pp_verdict :: string
  pp_matched :: bool

record regoResult =
  rr_verdict :: pverdict
  rr_matchedIDs :: "string list"
  rr_denyIDs :: "string list"
  rr_winningIDs :: "string list"

text \<open>The module \<^verbatim>\<open>tg.policy\<close>.\<close>

definition rego_verdict :: "prepared list \<Rightarrow> pverdict" where
  "rego_verdict rules =
     (let vs = map pp_verdict (filter pp_matched rules) in
      if ''deny'' \<in> set vs then ''deny''
      else if ''approve'' \<in> set vs then ''approve''
      else if ''auto'' \<in> set vs then ''auto''
      else ''approve'')"

definition rego_result :: "prepared list \<Rightarrow> regoResult" where
  "rego_result rules =
     \<lparr>rr_verdict = rego_verdict rules,
      rr_matchedIDs = map pp_id (filter pp_matched rules),
      rr_denyIDs = map pp_id (filter (\<lambda>r. pp_matched r \<and> pp_verdict r = ''deny'') rules),
      rr_winningIDs = map pp_id (filter (\<lambda>r. pp_matched r \<and> pp_verdict r = rego_verdict rules) rules)\<rparr>"

text \<open>
  \<^verbatim>\<open>evaluate\<close>: the interpreter either fails or returns the module's result object, whose verdict is
  checked against the enumeration.
\<close>

datatype eval_error = RegoEval string | NonEnumVerdict string

definition evaluate :: "(prepared list \<Rightarrow> eval_error option) \<Rightarrow> prepared list \<Rightarrow> eval_error + regoResult" where
  "evaluate opa rules =
     (case opa rules of
        Some e \<Rightarrow> Inl e
      | None \<Rightarrow>
          (let out = rego_result rules in
           if \<not> validVerdict (rr_verdict out) then Inl (NonEnumVerdict (rr_verdict out)) else Inr out))"

section \<open>Facts\<close>

lemma pverdict_distinct [simp]:
  "VerdictAuto \<noteq> VerdictApprove" "VerdictAuto \<noteq> VerdictDeny" "VerdictApprove \<noteq> VerdictDeny"
  "VerdictApprove \<noteq> VerdictAuto" "VerdictDeny \<noteq> VerdictAuto" "VerdictDeny \<noteq> VerdictApprove"
  by (simp_all add: tg_consts)

lemma validVerdict_consts [simp]: "validVerdict VerdictAuto" "validVerdict VerdictApprove" "validVerdict VerdictDeny"
  by (simp_all add: validVerdict_def)

text \<open>Whether every dimension that a match constrains agrees with the action.\<close>

definition dims_agree :: "Match \<Rightarrow> EvalInput \<Rightarrow> bool" where
  "dims_agree m i \<longleftrightarrow>
     (\<forall>sel. ma_Selector m = Some sel \<longrightarrow>
        selector_Match sel \<lparr>ta_Host = ei_Host i, ta_Resource = ei_Resource i, ta_Groups = ei_Groups i,
          ta_DeviceClass = ei_DeviceClass i\<rparr>)
     \<and> (ma_OpClass m \<noteq> [] \<longrightarrow> eqFold (ma_OpClass m) (ei_OpClass i))
     \<and> (ma_ArgvPattern m \<noteq> [] \<longrightarrow> argvMatch (ma_ArgvPattern m) (ei_Argv i))
     \<and> (ma_Territory m \<noteq> [] \<longrightarrow> eqFold (ma_Territory m) (ei_Territory i))
     \<and> (\<forall>r. ma_Reversible m = Some r \<longrightarrow> r = ei_Reversible i)
     \<and> (\<forall>b. ma_InverseOnly m = Some b \<longrightarrow> b = ei_InvertsForward i)"

lemma matches_iff: "matches m i \<longleftrightarrow> specifiesAny m \<and> dims_agree m i"
  unfolding matches_def specifiesAny_def dims_agree_def eqFold_def Let_def
  by (auto split: option.splits if_splits)

text \<open>A rule that validation lets through.\<close>

definition wf_params :: "Params \<Rightarrow> bool" where
  "wf_params p \<longleftrightarrow> validBandMode (pa_BandMode p) \<and> \<not> out_of_unit (pa_MinConfidence p) \<and> \<not> negative_rate (pa_RateLimit p)"

definition wf_rule :: "Rule \<Rightarrow> bool" where
  "wf_rule r \<longleftrightarrow> ru_ID r \<noteq> [] \<and> validVerdict (ru_Verdict r) \<and> wf_params (ru_Params r)
     \<and> (ru_IsDefault r \<or> specifiesAny (ru_Match r))"

lemma parseParams_wf: "parseParams pd = Inr p \<Longrightarrow> wf_params p"
  by (auto simp: parseParams_def wf_params_def no_params_def validBandMode_def out_of_unit_def negative_rate_def Let_def
      split: option.splits if_splits)

lemma NewRule_wf: "NewRule r = Inr r' \<longleftrightarrow> r' = r \<and> wf_rule r"
  by (auto simp: NewRule_def wf_rule_def wf_params_def)

lemma ruleFromDoc_wf: "ruleFromDoc rd = Inr r \<Longrightarrow> wf_rule r \<and> ru_ID r = rd_ID rd"
  by (auto simp: ruleFromDoc_def NewRule_wf split: sum.splits)

lemma parse_rules_wf:
  "parse_rules i seen rds = Inr rs \<Longrightarrow>
     list_all wf_rule rs \<and> distinct (map ru_ID rs) \<and> set (map ru_ID rs) \<inter> set seen = {}"
proof (induction i seen rds arbitrary: rs rule: parse_rules.induct)
  case (1 i seen)
  then show ?case by simp
next
  case (2 i seen rd rds)
  then obtain r rs' where r: "ruleFromDoc rd = Inr r" "ru_ID r \<notin> set seen"
      and rs: "parse_rules (Suc i) (ru_ID r # seen) rds = Inr rs'" "rs = r # rs'"
    by (auto split: sum.splits if_splits)
  from 2(1) [OF r rs(1)] ruleFromDoc_wf [OF r(1)] r(2) rs(2) show ?case by auto
qed

lemma parse_rules_ids: "parse_rules i seen rds = Inr rs \<Longrightarrow> map ru_ID rs = map rd_ID rds"
  by (induction i seen rds arbitrary: rs rule: parse_rules.induct)
    (auto dest: ruleFromDoc_wf split: sum.splits if_splits)

section \<open>Properties\<close>

lemma rego_deny_iff:
  "rego_verdict rules = VerdictDeny \<longleftrightarrow> (\<exists>r \<in> set rules. pp_matched r \<and> pp_verdict r = VerdictDeny)"
  by (auto simp: rego_verdict_def tg_consts Let_def image_iff)

lemma rego_auto_iff:
  assumes "list_all (\<lambda>r. validVerdict (pp_verdict r)) rules"
  shows "rego_verdict rules = VerdictAuto \<longleftrightarrow> (\<exists>r \<in> set rules. pp_matched r)
        \<and> (\<forall>r \<in> set rules. pp_matched r \<longrightarrow> pp_verdict r = VerdictAuto)"
proof
  have v: "pp_verdict r \<in> {''auto'', ''approve'', ''deny''}" if "r \<in> set rules" for r
    using assms that by (auto simp: list_all_iff validVerdict_def tg_consts)
  assume a: "rego_verdict rules = VerdictAuto"
  have n: "''deny'' \<notin> pp_verdict ` {r \<in> set rules. pp_matched r}"
    "''approve'' \<notin> pp_verdict ` {r \<in> set rules. pp_matched r}"
    "''auto'' \<in> pp_verdict ` {r \<in> set rules. pp_matched r}"
    using a by (simp_all add: rego_verdict_def tg_consts Let_def split: if_splits)
  show "(\<exists>r \<in> set rules. pp_matched r) \<and> (\<forall>r \<in> set rules. pp_matched r \<longrightarrow> pp_verdict r = VerdictAuto)"
  proof (intro conjI ballI impI)
    show "\<exists>r \<in> set rules. pp_matched r" using n(3) by auto
    fix r assume r: "r \<in> set rules" "pp_matched r"
    then have "pp_verdict r \<in> pp_verdict ` {r \<in> set rules. pp_matched r}" by auto
    then have "pp_verdict r \<noteq> ''deny''" "pp_verdict r \<noteq> ''approve''" using n(1,2) by metis+
    with v [OF r(1)] show "pp_verdict r = VerdictAuto" by (simp add: VerdictAuto_def)
  qed
next
  assume "(\<exists>r \<in> set rules. pp_matched r) \<and> (\<forall>r \<in> set rules. pp_matched r \<longrightarrow> pp_verdict r = VerdictAuto)"
  then have "pp_verdict ` {r \<in> set rules. pp_matched r} = {VerdictAuto}" by auto
  then show "rego_verdict rules = VerdictAuto" by (simp add: rego_verdict_def tg_consts Let_def)
qed

lemma rego_valid: "validVerdict (rego_verdict rules)"
  by (simp add: rego_verdict_def validVerdict_def tg_consts Let_def)

lemma rego_set_cong: "set rules' = set rules \<Longrightarrow> rego_verdict rules' = rego_verdict rules"
  by (simp add: rego_verdict_def Let_def)

text \<open>
  Deny overrides: the base verdict is deny exactly when some matching rule denies, whatever else
  matches; it is auto only when some rule matches and every matching rule says auto; in all other
  cases, no matching rule included, it is approve. The verdict does not depend on rule order.
\<close>

theorem deny_overrides:
  assumes "list_all (\<lambda>r. validVerdict (pp_verdict r)) rules"
  shows "(rego_verdict rules = VerdictDeny \<longleftrightarrow> (\<exists>r \<in> set rules. pp_matched r \<and> pp_verdict r = VerdictDeny))
    \<and> (rego_verdict rules = VerdictAuto \<longleftrightarrow> (\<exists>r \<in> set rules. pp_matched r)
        \<and> (\<forall>r \<in> set rules. pp_matched r \<longrightarrow> pp_verdict r = VerdictAuto))
    \<and> validVerdict (rego_verdict rules)
    \<and> (\<forall>rules'. set rules' = set rules \<longrightarrow> rego_verdict rules' = rego_verdict rules)"
  using rego_deny_iff [of rules] rego_auto_iff [OF assms] by (auto simp: rego_valid intro: rego_set_cong)

text \<open>
  C36. A rule set that parses is well formed: the identifiers are those of the document, non-empty
  and pairwise distinct, every rule has one of the three verdicts and parameters in range, and every
  rule that is not a default constrains at least one dimension, so that no rule can match everything
  by having said nothing.
\<close>

theorem ParseRuleSet_wf:
  assumes "ParseRuleSet (Some doc) = Inr rs"
  shows "wf_params (rs_Default rs) \<and> list_all wf_rule (rs_Rules rs) \<and> distinct (map ru_ID (rs_Rules rs))
    \<and> map ru_ID (rs_Rules rs) = map rd_ID (sd_Rules doc)
    \<and> (\<forall>r \<in> set (rs_Rules rs). \<forall>i. matches (ru_Match r) i \<longrightarrow> specifiesAny (ru_Match r))"
  using assms parse_rules_wf [of 0 "[]" "sd_Rules doc"] parse_rules_ids [of 0 "[]" "sd_Rules doc"] parseParams_wf [of "sd_Default doc"]
  by (auto simp: ParseRuleSet_def matches_iff split: sum.splits)

section \<open>Concrete rules\<close>

definition demo_prepared :: "prepared list" where
  "demo_prepared = [\<lparr>pp_id = ''allow'', pp_verdict = ''auto'', pp_matched = True\<rparr>,
     \<lparr>pp_id = ''deny-db'', pp_verdict = ''deny'', pp_matched = True\<rparr>]"

theorem deny_overrides_witness: "rego_verdict demo_prepared = VerdictDeny \<and> rego_verdict (rev demo_prepared) = VerdictDeny"
proof -
  have "list_all (\<lambda>r. validVerdict (pp_verdict r)) demo_prepared" by code_simp
  moreover have "\<exists>r \<in> set demo_prepared. pp_matched r \<and> pp_verdict r = VerdictDeny"
    by (simp add: demo_prepared_def tg_consts)
  ultimately show ?thesis using deny_overrides [of demo_prepared] by (metis set_rev)
qed

definition demo_doc :: ruleSetDoc where
  "demo_doc = \<lparr>sd_Default = Some \<lparr>pd_MinConfidence = Some (Fin (1 / 2)), pd_BandMode = ''respect'', pd_RateLimit = Some 30\<rparr>,
     sd_Rules = [\<lparr>rd_ID = ''deny-reboot'',
        rd_Match = \<lparr>md_Host = [], md_HostGlob = [], md_Group = [], md_DeviceClass = [], md_Resource = [],
          md_OpClass = [], md_ArgvPattern = ''reboot'', md_Territory = [], md_Reversible = None, md_InverseOnly = None\<rparr>,
        rd_Verdict = ''deny'', rd_Params = None, rd_ApproveBy = [], rd_IsDefault = False\<rparr>]\<rparr>"

theorem ParseRuleSet_wf_witness:
  "\<exists>rs. ParseRuleSet (Some demo_doc) = Inr rs \<and> list_all wf_rule (rs_Rules rs) \<and> length (rs_Rules rs) = 1"
proof -
  obtain rs where "ParseRuleSet (Some demo_doc) = Inr rs"
    by (simp add: ParseRuleSet_def demo_doc_def parseParams_def ruleFromDoc_def selectorFromDoc_def doc_selectors_def
        NewRule_def validBandMode_def validVerdict_def out_of_unit_def negative_rate_def no_params_def
        specifiesAny_def tg_consts)
  with ParseRuleSet_wf [OF this] show ?thesis
    by (intro exI [of _ rs]) (auto simp: demo_doc_def dest: arg_cong [of _ _ length])
qed

end
