(* ===== verification/Policy_Narrow.thy ===== *)
theory Policy_Narrow
  imports Policy_Rules
begin

text \<open>
  The steps that narrow a policy verdict: band composition \<^verbatim>\<open>core/policy/band.go\<close>, the confidence
  clamp \<^verbatim>\<open>core/policy/confidence.go\<close> and the rate governor \<^verbatim>\<open>core/policy/ratelimit.go\<close>.

  The text of the \<^verbatim>\<open>Reason\<close> fields, which only the console shows, is a datatype here: which of the
  messages it is, not its wording.
\<close>

section \<open>Band composition\<close>

definition verdictRank :: "pverdict \<Rightarrow> nat" where
  "verdictRank v =
     (if v = VerdictAuto then 0
      else if v = VerdictApprove then 1
      else if v = VerdictDeny then 2
      else 2)"

definition bandFloorVerdict :: "band \<Rightarrow> pverdict" where
  "bandFloorVerdict b = (if b = BandAuto \<or> b = BandAutoNotice then VerdictAuto else VerdictApprove)"

definition moreRestrictive :: "pverdict \<Rightarrow> pverdict \<Rightarrow> pverdict" where
  "moreRestrictive a b = (if verdictRank a \<ge> verdictRank b then a else b)"

datatype compose_reason = ReasonFloorClamped | ReasonOverridden | ReasonForced | ReasonRespected

record ComposeRecord =
  cr_PolicyVerdict :: pverdict
  cr_SafetyBand :: band
  cr_BandVerdict :: pverdict
  cr_BandMode :: bandmode
  cr_Composed :: pverdict
  cr_Overridden :: bool
  cr_OverriddenBand :: band
  cr_FloorClamped :: bool
  cr_DoubleWarn :: bool
  cr_Reason :: compose_reason
  cr_BandMarginRank :: int

definition composeReason :: "bool \<Rightarrow> bool \<Rightarrow> bandmode \<Rightarrow> compose_reason" where
  "composeReason floorClamped overridden bandMode =
     (if floorClamped then ReasonFloorClamped
      else if overridden then ReasonOverridden
      else if bandMode = BandForce then ReasonForced
      else ReasonRespected)"

definition ComposeBand :: "pverdict \<Rightarrow> band \<Rightarrow> bandmode \<Rightarrow> bool \<Rightarrow> pverdict \<times> ComposeRecord" where
  "ComposeBand policyVerdict safetyBand mode neverAuto =
     (let resolved = (if mode = BandForce then BandForce else BandRespect);
          bandV = bandFloorVerdict safetyBand;
          pv = (if \<not> validVerdict policyVerdict then VerdictDeny else policyVerdict);
          overridden = (resolved = BandForce \<and> verdictRank pv < verdictRank bandV);
          result = (if resolved = BandForce then pv else moreRestrictive pv bandV);
          clamped = (neverAuto \<and> result = VerdictAuto);
          result = (if clamped then VerdictApprove else result)
      in (result,
          \<lparr>cr_PolicyVerdict = policyVerdict, cr_SafetyBand = safetyBand, cr_BandVerdict = bandV,
           cr_BandMode = resolved, cr_Composed = result, cr_Overridden = overridden,
           cr_OverriddenBand = (if overridden then safetyBand else 0), cr_FloorClamped = clamped,
           cr_DoubleWarn = (resolved = BandForce), cr_Reason = composeReason clamped overridden resolved,
           cr_BandMarginRank = int (verdictRank pv) - int (verdictRank bandV)\<rparr>))"

definition NeverAutoApplies :: "EvalInput \<Rightarrow> bool" where
  "NeverAutoApplies i \<longleftrightarrow> IsNeverAuto (ei_OpClass i) \<or> \<not> ei_Reversible i \<or> IsDestructiveOp [ei_Argv i, ei_OpClass i]"

section \<open>The confidence clamp\<close>

datatype clamp_reason = NoConfidenceGate | GateNotApplicable | BelowThreshold | AboveThreshold

record ClampRecord =
  cl_VerdictIn :: pverdict
  cl_VerdictOut :: pverdict
  cl_Confidence :: float64
  cl_MinConfidence :: float64
  cl_Clamped :: bool
  cl_Reason :: clamp_reason

definition ClampConfidence :: "pverdict \<Rightarrow> float64 \<Rightarrow> float64 \<Rightarrow> pverdict \<times> ClampRecord" where
  "ClampConfidence verdict confidence minConfidence =
     (let rec = (\<lambda>out clamped reason. \<lparr>cl_VerdictIn = verdict, cl_VerdictOut = out, cl_Confidence = confidence,
                   cl_MinConfidence = minConfidence, cl_Clamped = clamped, cl_Reason = reason\<rparr>)
      in
      if \<not> flt (Fin 0) minConfidence then (verdict, rec verdict False NoConfidenceGate)
      else if verdict \<noteq> VerdictAuto then (verdict, rec verdict False GateNotApplicable)
      else if confidence = NaN \<or> flt confidence (Fin 0) \<or> flt (Fin 1) confidence \<or> flt confidence minConfidence
        then (VerdictApprove, rec VerdictApprove True BelowThreshold)
      else (verdict, rec verdict False AboveThreshold))"

section \<open>The rate governor\<close>

definition defaultRateWindow :: duration where
  "defaultRateWindow = 60 * 1000000000"

definition rateKey :: "string \<Rightarrow> string" where
  "rateKey opClass = (let k = norm_key opClass in if k = [] then ''global'' else k)"

record RateGovernor =
  rg_window :: duration
  rg_events :: "string \<Rightarrow> instant list"
  rg_governed :: int
  rg_ungoverned :: int
  rg_clamped :: int

definition NewRateGovernor :: RateGovernor where
  "NewRateGovernor = \<lparr>rg_window = defaultRateWindow, rg_events = (\<lambda>_. []), rg_governed = 0, rg_ungoverned = 0, rg_clamped = 0\<rparr>"

definition WithWindow :: "duration \<Rightarrow> RateGovernor option \<Rightarrow> RateGovernor option" where
  "WithWindow w g = (case g of None \<Rightarrow> None | Some g \<Rightarrow> Some (if w > 0 then g\<lparr>rg_window := w\<rparr> else g))"

datatype rate_reason = NoRateGovernor | RateNotApplicable | RateCapMet | RateAdmitted

record RateRecord =
  rt_VerdictIn :: pverdict
  rt_VerdictOut :: pverdict
  rt_Key :: string
  rt_Limit :: int
  rt_CountInWindow :: int
  rt_Clamped :: bool
  rt_Reason :: rate_reason

record RateGovernorStats =
  st_Governed :: int
  st_Ungoverned :: int
  st_Clamped :: int
  st_Window :: duration

definition Stats :: "RateGovernor option \<Rightarrow> RateGovernorStats" where
  "Stats go =
     (case go of
        None \<Rightarrow> \<lparr>st_Governed = 0, st_Ungoverned = 0, st_Clamped = 0, st_Window = 0\<rparr>
      | Some g \<Rightarrow> \<lparr>st_Governed = rg_governed g, st_Ungoverned = rg_ungoverned g, st_Clamped = rg_clamped g,
                    st_Window = rg_window g\<rparr>)"

definition pruneBefore :: "instant list \<Rightarrow> instant \<Rightarrow> instant list" where
  "pruneBefore ts cutoff = filter (\<lambda>t. t > cutoff) ts"

text \<open>\<^verbatim>\<open>clamp\<close>; \<^const>\<open>None\<close> is the nil governor, \<open>now\<close> the reading of its clock.\<close>

definition rate_clamp ::
    "instant \<Rightarrow> RateGovernor option \<Rightarrow> pverdict \<Rightarrow> string \<Rightarrow> int \<Rightarrow> (pverdict \<times> RateRecord) \<times> RateGovernor option" where
  "rate_clamp now go verdict key limit =
     (let k = rateKey key;
          rec = (\<lambda>out n c reason. \<lparr>rt_VerdictIn = verdict, rt_VerdictOut = out, rt_Key = k, rt_Limit = limit,
                   rt_CountInWindow = n, rt_Clamped = c, rt_Reason = reason\<rparr>)
      in case go of
           None \<Rightarrow> ((verdict, rec verdict 0 False NoRateGovernor), None)
         | Some g \<Rightarrow>
             if limit \<le> 0 then ((verdict, rec verdict 0 False NoRateGovernor), Some (g\<lparr>rg_ungoverned := rg_ungoverned g + 1\<rparr>))
             else if verdict \<noteq> VerdictAuto then ((verdict, rec verdict 0 False RateNotApplicable), Some g)
             else
               (let cutoff = now - rg_window g; ev = pruneBefore (rg_events g k) cutoff in
                if int (length ev) \<ge> limit
                then ((VerdictApprove, rec VerdictApprove (int (length ev)) True RateCapMet),
                      Some (g\<lparr>rg_events := (rg_events g)(k := ev), rg_governed := rg_governed g + 1, rg_clamped := rg_clamped g + 1\<rparr>))
                else ((verdict, rec verdict (int (length ev)) False RateAdmitted),
                      Some (g\<lparr>rg_events := (rg_events g)(k := ev @ [now]), rg_governed := rg_governed g + 1\<rparr>))))"

section \<open>Refinement: both clamps\<close>

datatype refine_reason = BothClamped | ConfidenceOnly | RateOnly | NoClamp

record RefineRecord =
  re_VerdictIn :: pverdict
  re_VerdictOut :: pverdict
  re_Confidence :: float64
  re_MinConfidence :: float64
  re_ConfidenceClamped :: bool
  re_RateLimit :: int
  re_RateKey :: string
  re_RateCount :: int
  re_RateClamped :: bool
  re_Reason :: refine_reason

definition refineReason :: "bool \<Rightarrow> bool \<Rightarrow> refine_reason" where
  "refineReason conf rate = (if conf \<and> rate then BothClamped else if conf then ConfidenceOnly else if rate then RateOnly else NoClamp)"

definition Refine ::
    "instant \<Rightarrow> RateGovernor option \<Rightarrow> pverdict \<Rightarrow> float64 \<Rightarrow> Params \<Rightarrow> string
     \<Rightarrow> (pverdict \<times> RefineRecord) \<times> RateGovernor option" where
  "Refine now g verdict confidence params opClass =
     (let minConf = (case pa_MinConfidence params of None \<Rightarrow> Fin 0 | Some c \<Rightarrow> c);
          limit = (case pa_RateLimit params of None \<Rightarrow> 0 | Some l \<Rightarrow> l)
      in case ClampConfidence verdict confidence minConf of (v, cr) \<Rightarrow>
         (case rate_clamp now g v opClass limit of ((v2, rr), g') \<Rightarrow>
            ((v2, \<lparr>re_VerdictIn = verdict, re_VerdictOut = v2, re_Confidence = confidence, re_MinConfidence = minConf,
                   re_ConfidenceClamped = cl_Clamped cr, re_RateLimit = limit, re_RateKey = rateKey opClass,
                   re_RateCount = rt_CountInWindow rr, re_RateClamped = rt_Clamped rr,
                   re_Reason = refineReason (cl_Clamped cr) (rt_Clamped rr)\<rparr>), g')))"

section \<open>Narrowing steps\<close>

text \<open>
  The contract every step of the pipeline after the base verdict meets: it never loosens a verdict
  and keeps the three values.
\<close>

locale narrowing =
  fixes step :: "pverdict \<Rightarrow> pverdict"
  assumes tightens: "verdictRank v \<le> verdictRank (step v)"
    and keeps_valid: "validVerdict v \<Longrightarrow> validVerdict (step v)"
begin

lemma auto_only_from_auto: "step v = VerdictAuto \<Longrightarrow> v = VerdictAuto"
  using tightens [of v] by (auto simp: verdictRank_def split: if_splits)

lemma deny_stays: "validVerdict v \<Longrightarrow> v = VerdictDeny \<Longrightarrow> step v = VerdictDeny"
  using tightens [of v] keeps_valid [of v] by (auto simp: verdictRank_def validVerdict_def split: if_splits)

lemma then_narrowing:
  assumes "narrowing step'"
  shows "narrowing (step' \<circ> step)"
proof -
  from assms have "\<And>v. verdictRank v \<le> verdictRank (step' v)" and "\<And>v. validVerdict v \<Longrightarrow> validVerdict (step' v)"
    unfolding narrowing_def by blast+
  then show ?thesis using tightens keeps_valid unfolding narrowing_def by (force intro: order_trans)
qed

end

lemma rank_simps [simp]:
  "verdictRank VerdictAuto = 0" "verdictRank VerdictApprove = 1" "verdictRank VerdictDeny = 2"
  by (simp_all add: verdictRank_def)

lemma bandmode_distinct [simp]: "BandRespect \<noteq> BandForce" "BandForce \<noteq> BandRespect"
  by (simp_all add: tg_consts)

lemma rank_bound: "verdictRank v \<le> 2"
  by (simp add: verdictRank_def)

lemma rank_zero: "verdictRank v = 0 \<longleftrightarrow> v = VerdictAuto"
  by (simp add: verdictRank_def)

lemma rank_moreRestrictive: "verdictRank (moreRestrictive a b) = max (verdictRank a) (verdictRank b)"
  by (auto simp: moreRestrictive_def)

interpretation conf_step: narrowing "\<lambda>v. fst (ClampConfidence v c m)" for c m
  by unfold_locales (auto simp: ClampConfidence_def Let_def)

interpretation rate_step: narrowing "\<lambda>v. fst (fst (rate_clamp now g v key limit))" for now g key limit
  by unfold_locales (auto simp: rate_clamp_def Let_def split: option.split)

interpretation band_step: narrowing "\<lambda>v. fst (ComposeBand v b mode neverAuto)" for b mode neverAuto
proof unfold_locales
  fix v
  show "verdictRank v \<le> verdictRank (fst (ComposeBand v b mode neverAuto))"
    using rank_bound [of v] rank_moreRestrictive [of v "bandFloorVerdict b"]
    by (auto simp: ComposeBand_def Let_def moreRestrictive_def)
  show "validVerdict v \<Longrightarrow> validVerdict (fst (ComposeBand v b mode neverAuto))"
    by (auto simp: ComposeBand_def Let_def moreRestrictive_def bandFloorVerdict_def)
qed

lemma Refine_verdict:
  "fst (fst (Refine now g v c p op)) =
     fst (fst (rate_clamp now g
       (fst (ClampConfidence v c (case pa_MinConfidence p of None \<Rightarrow> Fin 0 | Some c \<Rightarrow> c))) op
       (case pa_RateLimit p of None \<Rightarrow> 0 | Some l \<Rightarrow> l)))"
  by (simp add: Refine_def Let_def split: prod.split)

text \<open>
  The two clamps only tighten, and auto survives exactly when the verdict was auto, the bound
  confidence is a number between the threshold and 1 (or no positive threshold is set), and the
  governor has room in the trailing window (or there is none, or no positive limit is set).
\<close>

definition confident :: "Params \<Rightarrow> float64 \<Rightarrow> bool" where
  "confident p c \<longleftrightarrow>
     (case pa_MinConfidence p of None \<Rightarrow> True
      | Some m \<Rightarrow> flt (Fin 0) m \<longrightarrow> c \<noteq> NaN \<and> \<not> flt c (Fin 0) \<and> \<not> flt (Fin 1) c \<and> \<not> flt c m)"

definition rate_room :: "instant \<Rightarrow> RateGovernor option \<Rightarrow> Params \<Rightarrow> string \<Rightarrow> bool" where
  "rate_room now go p op \<longleftrightarrow>
     (case go of None \<Rightarrow> True
      | Some g \<Rightarrow>
          (case pa_RateLimit p of None \<Rightarrow> True
           | Some l \<Rightarrow> l > 0 \<longrightarrow> int (length (filter (\<lambda>t. t > now - rg_window g) (rg_events g (rateKey op)))) < l))"

lemma Refine_auto_iff:
  "fst (fst (Refine now go v c p op)) = VerdictAuto \<longleftrightarrow> v = VerdictAuto \<and> confident p c \<and> rate_room now go p op"
  unfolding Refine_verdict rate_clamp_def ClampConfidence_def Let_def confident_def rate_room_def
  by (auto simp: pruneBefore_def split: option.splits if_splits)

lemma ComposeBand_auto_iff:
  "fst (ComposeBand v b mode neverAuto) = VerdictAuto \<longleftrightarrow>
     v = VerdictAuto \<and> \<not> neverAuto \<and> (mode = BandForce \<or> bandFloorVerdict b = VerdictAuto)"
  by (auto simp: ComposeBand_def Let_def moreRestrictive_def bandFloorVerdict_def split: if_splits)

interpretation refine_step: narrowing "\<lambda>v. fst (fst (Refine now g v c p op))" for now g c p op
  unfolding Refine_verdict
  using narrowing.then_narrowing [OF conf_step.narrowing_axioms rate_step.narrowing_axioms] by (simp add: comp_def)

section \<open>Runs of the governor\<close>

text \<open>A run of calls \<open>(now, verdict, key, limit)\<close> and the times and keys of the admitted ones.\<close>

type_synonym rate_call = "instant \<times> pverdict \<times> string \<times> int"

fun rate_run :: "rate_call list \<Rightarrow> RateGovernor \<Rightarrow> (instant \<times> string) list \<times> RateGovernor" where
  "rate_run [] g = ([], g)"
| "rate_run ((now, v, key, limit) # cs) g =
     (case rate_clamp now (Some g) v key limit of
        ((out, _), None) \<Rightarrow> ([], g)
      | ((out, _), Some g') \<Rightarrow>
          (case rate_run cs g' of (adm, g'') \<Rightarrow> ((if out = VerdictAuto then [(now, rateKey key)] else []) @ adm, g'')))"

definition in_window :: "duration \<Rightarrow> instant \<Rightarrow> instant list \<Rightarrow> nat" where
  "in_window w t ts = length (filter (\<lambda>n. t - w < n \<and> n \<le> t) ts)"

definition admitted :: "string \<Rightarrow> (instant \<times> string) list \<Rightarrow> instant list" where
  "admitted k adm = map fst (filter (\<lambda>a. snd a = k) adm)"

text \<open>
  What the governor knows about a key: the kept events are the admitted ones after some cut-off that
  no later call can reach behind, and no window holds more than the limit.
\<close>

definition rate_inv :: "string \<Rightarrow> int \<Rightarrow> instant \<Rightarrow> RateGovernor \<Rightarrow> instant list \<Rightarrow> bool" where
  "rate_inv k L now g ts \<longleftrightarrow>
     (\<exists>c \<le> now - rg_window g. rg_events g k = filter (\<lambda>n. c < n) ts)
     \<and> (\<forall>n \<in> set ts. n \<le> now) \<and> (\<forall>t. int (in_window (rg_window g) t ts) \<le> L) \<and> 0 < rg_window g"

lemma rate_inv_later: "rate_inv k L now g ts \<Longrightarrow> now \<le> now' \<Longrightarrow> rate_inv k L now' g ts"
  unfolding rate_inv_def by (metis diff_right_mono order_trans)

lemma in_window_snoc:
  assumes "\<forall>n \<in> set ts. n \<le> now" and "int (length (filter (\<lambda>n. now - w < n) ts)) < L"
    and "\<forall>t. int (in_window w t ts) \<le> L"
  shows "int (in_window w t (ts @ [now])) \<le> L"
proof (cases "t < now")
  case True
  then show ?thesis using assms(3) by (simp add: in_window_def)
next
  case False
  have "length (filter (\<lambda>n. t - w < n \<and> n \<le> t) ts) \<le> length (filter (\<lambda>n. now - w < n) ts)"
    using False by (induction ts) auto
  with assms(2) show ?thesis by (simp add: in_window_def)
qed

lemma rate_clamp_inv:
  assumes "rate_inv k L now g ts" and "rateKey key = k \<Longrightarrow> limit = L" and "0 < L"
    and "rate_clamp now (Some g) v key limit = ((out, rec), g')"
  shows "\<exists>h. g' = Some h \<and> rate_inv k L now h (if out = VerdictAuto \<and> rateKey key = k then ts @ [now] else ts)
    \<and> rg_window h = rg_window g"
proof -
  let ?w = "rg_window g" and ?ev = "pruneBefore (rg_events g (rateKey key)) (now - rg_window g)"
  obtain c where c: "c \<le> now - ?w" "rg_events g k = filter (\<lambda>n. c < n) ts" using assms(1) by (auto simp: rate_inv_def)
  show ?thesis
  proof (cases "rateKey key = k \<and> v = VerdictAuto")
    case False
    then show ?thesis
      using assms unfolding rate_clamp_def Let_def
      by (auto simp: rate_inv_def split: if_splits)
  next
    case True
    have ev: "?ev = filter (\<lambda>n. now - ?w < n) ts"
      using c True by (auto simp: pruneBefore_def filter_filter intro!: filter_cong)
    have L: "limit = L" using assms(2) True by simp
    show ?thesis
    proof (cases "int (length ?ev) \<ge> L")
      case cap: True
      then have "out = VerdictApprove" "g' = Some (g\<lparr>rg_events := (rg_events g)(k := ?ev),
          rg_governed := rg_governed g + 1, rg_clamped := rg_clamped g + 1\<rparr>)"
        using assms(3,4) True L by (auto simp: rate_clamp_def Let_def)
      with assms(1) ev show ?thesis by (auto simp: rate_inv_def)
    next
      case adm: False
      then have "out = VerdictAuto" and g': "g' = Some (g\<lparr>rg_events := (rg_events g)(k := ?ev @ [now]), rg_governed := rg_governed g + 1\<rparr>)"
        using assms(3,4) True L by (auto simp: rate_clamp_def Let_def)
      moreover have "\<forall>t. int (in_window ?w t (ts @ [now])) \<le> L"
        using in_window_snoc [of ts now ?w L] assms(1) adm ev by (auto simp: rate_inv_def)
      moreover have "?ev @ [now] = filter (\<lambda>n. now - ?w < n) (ts @ [now])"
        using ev assms(1) by (simp add: rate_inv_def)
      ultimately show ?thesis
        using True assms(1) by (auto simp: rate_inv_def intro!: exI [of _ "now - ?w"])
    qed
  qed
qed

lemma rate_run_inv:
  assumes "rate_inv k L now0 g ts" and "0 < L"
    and "sorted (now0 # map fst cs)" and "list_all (\<lambda>(now, v, key, limit). rateKey key = k \<longrightarrow> limit = L) cs"
    and "rate_run cs g = (adm, g')"
  shows "\<forall>t. int (in_window (rg_window g) t (ts @ admitted k adm)) \<le> L"
  using assms
proof (induction cs arbitrary: now0 g ts adm)
  case Nil
  then show ?case by (simp add: rate_inv_def admitted_def)
next
  case (Cons x cs)
  obtain now v key limit where x: "x = (now, v, key, limit)" by (metis prod.exhaust)
  obtain out rec go where rc: "rate_clamp now (Some g) v key limit = ((out, rec), go)" by (metis prod.exhaust)
  have inv: "rate_inv k L now g ts" using rate_inv_later [OF Cons.prems(1)] Cons.prems(3) x by simp
  have lim: "rateKey key = k \<Longrightarrow> limit = L" using Cons.prems(4) x by simp
  obtain h where h: "go = Some h" "rg_window h = rg_window g"
    "rate_inv k L now h (if out = VerdictAuto \<and> rateKey key = k then ts @ [now] else ts)"
    using rate_clamp_inv [OF inv lim assms(2) rc] by blast
  obtain adm' where r: "rate_run cs h = (adm', g')"
    and adm: "adm = (if out = VerdictAuto then [(now, rateKey key)] else []) @ adm'"
    using Cons.prems(5) x rc h(1) by (auto split: prod.splits)
  have "\<forall>t. int (in_window (rg_window h) t
      ((if out = VerdictAuto \<and> rateKey key = k then ts @ [now] else ts) @ admitted k adm')) \<le> L"
    using Cons.IH [OF h(3) assms(2) _ _ r] Cons.prems(3,4) x by simp
  moreover have "(if out = VerdictAuto \<and> rateKey key = k then ts @ [now] else ts) @ admitted k adm' = ts @ admitted k adm"
    using adm by (simp add: admitted_def)
  ultimately show ?case using h(2) by simp
qed

section \<open>Properties\<close>

text \<open>
  Composition with the risk band. In every mode, the never-auto floor never lets auto through
  and the composed verdict is never looser than the policy's own. Respecting the band yields the
  stricter of the two; only an explicit force mode may be looser than the band, and then the record
  says so and asks for the double confirmation.
\<close>

theorem ComposeBand_spec:
  assumes "ComposeBand v b mode neverAuto = (out, rec)"
  shows "(neverAuto \<longrightarrow> out \<noteq> VerdictAuto) \<and> verdictRank v \<le> verdictRank out
    \<and> (mode \<noteq> BandForce \<longrightarrow> \<not> cr_DoubleWarn rec \<and> verdictRank out =
         (if neverAuto then max 1 (max (verdictRank v) (verdictRank (bandFloorVerdict b)))
          else max (verdictRank v) (verdictRank (bandFloorVerdict b))))
    \<and> (verdictRank out < verdictRank (bandFloorVerdict b) \<longrightarrow> mode = BandForce \<and> cr_Overridden rec \<and> cr_DoubleWarn rec)
    \<and> cr_Composed rec = out"
proof -
  have le: "verdictRank v \<le> verdictRank out" using band_step.tightens [of v b mode neverAuto] assms by simp
  have bf: "bandFloorVerdict b \<in> {VerdictAuto, VerdictApprove}" by (simp add: bandFloorVerdict_def)
  have rk: "verdictRank v = (if validVerdict v then verdictRank v else 2)"
    by (simp add: verdictRank_def validVerdict_def)
  show ?thesis
    using assms bf le rank_moreRestrictive [of v "bandFloorVerdict b"] rank_moreRestrictive [of VerdictDeny "bandFloorVerdict b"] rk
    unfolding ComposeBand_def Let_def by (auto simp: rank_zero max_def split: if_splits)
qed

text \<open>
  C29. The governor keeps its promise over time. For any run of calls at times that do not go
  backwards, from a new governor, whatever other operation classes do in between: in no window of
  its length, wherever it is placed, are there more admitted automatic executions of a class than
  the limit given for it.
\<close>

theorem rate_limit_holds:
  assumes "sorted (map fst cs)" and "0 < L" and "list_all (\<lambda>(now, v, key, limit). rateKey key = k \<longrightarrow> limit = L) cs"
  shows "int (in_window defaultRateWindow t (admitted k (fst (rate_run cs NewRateGovernor)))) \<le> L"
proof (cases cs)
  case Nil
  then show ?thesis using assms(2) by (simp add: admitted_def in_window_def)
next
  case (Cons x xs)
  have "rate_inv k L (fst x) NewRateGovernor []"
    using assms(2) by (auto simp: rate_inv_def NewRateGovernor_def in_window_def defaultRateWindow_def)
  moreover have "sorted (fst x # map fst cs)" using assms(1) Cons by simp
  ultimately show ?thesis
    using rate_run_inv [of k L "fst x" NewRateGovernor "[]" cs] assms(2,3)
    by (simp add: NewRateGovernor_def prod_eq_iff)
qed

section \<open>Concrete runs\<close>

theorem ComposeBand_spec_witness:
  "fst (ComposeBand VerdictAuto BandPollPause BandForce True) \<noteq> VerdictAuto"
proof -
  obtain out rec where e: "ComposeBand VerdictAuto BandPollPause BandForce True = (out, rec)" by (metis prod.exhaust)
  from ComposeBand_spec [OF e] e show ?thesis by simp
qed

theorem rate_limit_holds_witness:
  "int (in_window defaultRateWindow 3 (admitted ''restart'' (fst (rate_run
      [(1, VerdictAuto, ''restart'', 1), (2, VerdictAuto, '' Restart'', 1), (3, VerdictAuto, ''other'', 9)] NewRateGovernor)))) \<le> 1"
proof -
  have "rateKey ''other'' \<noteq> ''restart''" by code_simp
  then show ?thesis
    using rate_limit_holds [of "[(1, VerdictAuto, ''restart'', 1), (2, VerdictAuto, '' Restart'', 1), (3, VerdictAuto, ''other'', 9)]"
        1 "''restart''" 3] by simp
qed

end
