(* ===== verification/Policy_Floor.thy ===== *)
theory Policy_Floor
  imports Policy_Narrow
begin

text \<open>
  The operator's execution deny-floor, \<^verbatim>\<open>core/policy/floor.go\<close>, with the two starter templates of
  \<^verbatim>\<open>core/policy/templates/\<close> as decoded documents. Log lines are not modelled, and the text of
  the \<^verbatim>\<open>Reason\<close> fields is left out; the time stamp of a change record is a parameter.
\<close>

section \<open>Entries and changes\<close>

datatype floor_error = ErrFloorRemovalNotConfirmed | ErrUnknownTemplate string | ErrFloorEntryNotFound string
  | FloorEmptyID nat | FloorDuplicateID string | FloorTemplate rule_error

record Warning =
  wa_Text :: string
  wa_Acknowledged :: bool
  wa_DoubleConfirm :: bool

definition acknowledged :: "Warning \<Rightarrow> bool" where
  "acknowledged w \<longleftrightarrow> wa_Acknowledged w \<and> trim_space (wa_Text w) \<noteq> []"

definition redConfirmed :: "Warning \<Rightarrow> bool" where
  "redConfirmed w \<longleftrightarrow> acknowledged w \<and> wa_DoubleConfirm w"

record FloorRecord =
  fr_Floored :: bool
  fr_MatchedEntryID :: string
  fr_ProposalVerdict :: pverdict
  fr_ExecutionVerdict :: pverdict

record FloorChangeRecord =
  fc_Change :: string
  fc_EntryID :: string
  fc_Actor :: string
  fc_WarningText :: string
  fc_RedConfirm :: bool
  fc_Lowering :: bool
  fc_Timestamp :: instant

record FloorEntry =
  fe_ID :: string
  fe_Match :: Match

record floorEntry =
  fi_entry :: FloorEntry
  fi_malformed :: bool
  fi_removal :: "FloorChangeRecord option"

type_synonym floor = "floorEntry list"

record FloorEntrySnapshot =
  fs_ID :: string
  fs_Malformed :: bool
  fs_Removed :: bool

definition matchesAction :: "floorEntry \<Rightarrow> EvalInput \<Rightarrow> bool" where
  "matchesAction fe i \<longleftrightarrow> (if fi_malformed fe then True else matches (fe_Match (fi_entry fe)) i)"

fun new_floor :: "nat \<Rightarrow> string list \<Rightarrow> FloorEntry list \<Rightarrow> floor_error + floor" where
  "new_floor i seen [] = Inr []"
| "new_floor i seen (e # es) =
     (if trim_space (fe_ID e) = [] then Inl (FloorEmptyID i)
      else if fe_ID e \<in> set seen then Inl (FloorDuplicateID (fe_ID e))
      else case new_floor (Suc i) (fe_ID e # seen) es of
        Inl er \<Rightarrow> Inl er
      | Inr f \<Rightarrow> Inr (\<lparr>fi_entry = e, fi_malformed = (\<not> specifiesAny (fe_Match e)), fi_removal = None\<rparr> # f))"

definition NewFloor :: "FloorEntry list \<Rightarrow> floor_error + floor" where
  "NewFloor entries = new_floor 0 [] entries"

definition matchActiveLocked :: "floor \<Rightarrow> EvalInput \<Rightarrow> floorEntry option" where
  "matchActiveLocked f i = find (\<lambda>fe. fi_removal fe = None \<and> matchesAction fe i) f"

definition AppliesTo :: "floor option \<Rightarrow> EvalInput \<Rightarrow> bool" where
  "AppliesTo fo i \<longleftrightarrow> (case fo of None \<Rightarrow> False | Some f \<Rightarrow> matchActiveLocked f i \<noteq> None)"

definition ApplyFloor :: "floor option \<Rightarrow> pverdict \<Rightarrow> EvalInput \<Rightarrow> pverdict \<times> FloorRecord" where
  "ApplyFloor fo proposal i =
     (let rec = \<lparr>fr_Floored = False, fr_MatchedEntryID = [], fr_ProposalVerdict = proposal, fr_ExecutionVerdict = proposal\<rparr> in
      case fo of
        None \<Rightarrow> (proposal, rec)
      | Some f \<Rightarrow>
          (case matchActiveLocked f i of
             None \<Rightarrow> (proposal, rec)
           | Some fe \<Rightarrow>
               (VerdictDeny, rec\<lparr>fr_Floored := True, fr_MatchedEntryID := fe_ID (fi_entry fe),
                                fr_ExecutionVerdict := VerdictDeny\<rparr>)))"

fun remove_first :: "string \<Rightarrow> FloorChangeRecord \<Rightarrow> floor \<Rightarrow> floor option" where
  "remove_first eid rec [] = None"
| "remove_first eid rec (fe # f) =
     (if fe_ID (fi_entry fe) = eid \<and> fi_removal fe = None then Some (fe\<lparr>fi_removal := Some rec\<rparr> # f)
      else map_option (\<lambda>g. fe # g) (remove_first eid rec f))"

definition RemoveFloorEntry ::
    "instant \<Rightarrow> string \<Rightarrow> string \<Rightarrow> Warning \<Rightarrow> floor \<Rightarrow> (floor_error + FloorChangeRecord) \<times> floor" where
  "RemoveFloorEntry now entryID actor ack f =
     (if \<not> redConfirmed ack then (Inl ErrFloorRemovalNotConfirmed, f)
      else
        (let rec = \<lparr>fc_Change = ''remove-floor-entry'', fc_EntryID = entryID, fc_Actor = actor,
                    fc_WarningText = wa_Text ack, fc_RedConfirm = True, fc_Lowering = True, fc_Timestamp = now\<rparr>
         in case remove_first entryID rec f of
              None \<Rightarrow> (Inl (ErrFloorEntryNotFound entryID), f)
            | Some f' \<Rightarrow> (Inr rec, f')))"

definition Entries :: "floor \<Rightarrow> FloorEntrySnapshot list" where
  "Entries f = map (\<lambda>fe. \<lparr>fs_ID = fe_ID (fi_entry fe), fs_Malformed = fi_malformed fe, fs_Removed = (fi_removal fe \<noteq> None)\<rparr>) f"

section \<open>Templates\<close>

definition empty_matchDoc :: matchDoc where
  "empty_matchDoc = \<lparr>md_Host = [], md_HostGlob = [], md_Group = [], md_DeviceClass = [], md_Resource = [],
     md_OpClass = [], md_ArgvPattern = [], md_Territory = [], md_Reversible = None, md_InverseOnly = None\<rparr>"

definition conservative_patterns :: "(string \<times> string) list" where
  "conservative_patterns =
     [(''deny-rm-rf-root'', ''rm -rf /''),
      (''deny-rm-rf-home-tilde'', ''rm -rf ~''),
      (''deny-rm-rf-home'', ''rm -rf /home''),
      (''deny-rm-rf-etc'', ''rm -rf /etc''),
      (''deny-rm-rf-var'', ''rm -rf /var''),
      (''deny-reboot'', ''reboot''),
      (''deny-shutdown'', ''shutdown''),
      (''deny-init-0'', ''init 0''),
      (''deny-init-6'', ''init 6''),
      (''deny-halt'', ''halt''),
      (''deny-poweroff'', ''poweroff''),
      (''deny-mkfs'', ''mkfs''),
      (''deny-dd-if-zero'', ''dd if=/dev/zero''),
      (''deny-dd-of-sd'', ''dd of=/dev/sd''),
      (''deny-redirect-block-dev'', ''> /dev/sd''),
      (''deny-kubectl-del-ns'', ''kubectl delete namespace''),
      (''deny-kubectl-del-all'', ''kubectl delete --all''),
      (''deny-kubectl-del-A'', ''kubectl delete -A''),
      (''deny-iptables-flush'', ''iptables -F''),
      (''deny-iptables-delete-chain'', ''iptables -X''),
      (''deny-systemctl-stop-n8n'', ''systemctl stop n8n''),
      (''deny-systemctl-disable-n8n'', ''systemctl disable n8n''),
      (''deny-systemctl-stop-oclaw'', ''systemctl stop openclaw''),
      (''deny-pkill-9'', ''pkill -9''),
      (''deny-kill-9-init'', ''kill -9 1''),
      (''deny-chmod-777-root'', ''chmod -R 777 /''),
      (''deny-chown-recursive'', ''chown -R''),
      (''deny-passwd'', ''passwd''),
      (''deny-useradd'', ''useradd''),
      (''deny-userdel'', ''userdel''),
      (''deny-visudo'', ''visudo''),
      (''deny-crontab-remove'', ''crontab -r''),
      (''deny-reverse-shell-bash-i'', ''bash -i''),
      (''deny-reverse-shell-devtcp'', ''/dev/tcp''),
      (''deny-reverse-shell-nc-e'', ''nc -e''),
      (''deny-reverse-shell-ncat-e'', ''ncat -e'')]"

definition conservativeTemplate :: ruleSetDoc where
  "conservativeTemplate =
     \<lparr>sd_Default = Some \<lparr>pd_MinConfidence = None, pd_BandMode = ''respect'', pd_RateLimit = Some 30\<rparr>,
      sd_Rules = map (\<lambda>(rid, pat). \<lparr>rd_ID = rid, rd_Match = empty_matchDoc\<lparr>md_ArgvPattern := pat\<rparr>,
                   rd_Verdict = ''deny'', rd_Params = None, rd_ApproveBy = [], rd_IsDefault = False\<rparr>)
                   conservative_patterns\<rparr>"

definition bareTemplate :: ruleSetDoc where
  "bareTemplate =
     \<lparr>sd_Default = Some \<lparr>pd_MinConfidence = None, pd_BandMode = ''respect'', pd_RateLimit = None\<rparr>,
      sd_Rules = [\<lparr>rd_ID = ''bare-allow-all'', rd_Match = empty_matchDoc\<lparr>md_HostGlob := ''*''\<rparr>,
                   rd_Verdict = ''auto'', rd_Params = None, rd_ApproveBy = [], rd_IsDefault = False\<rparr>]\<rparr>"

definition TemplateConservative :: string where [tg_consts]: "TemplateConservative = ''conservative''"
definition TemplateBare :: string where [tg_consts]: "TemplateBare = ''bare''"

definition parseTemplate :: "string \<Rightarrow> floor_error + RuleSet" where
  "parseTemplate name =
     (if name = TemplateConservative
        then (case ParseRuleSet (Some conservativeTemplate) of Inl e \<Rightarrow> Inl (FloorTemplate e) | Inr rs \<Rightarrow> Inr rs)
      else if name = TemplateBare
        then (case ParseRuleSet (Some bareTemplate) of Inl e \<Rightarrow> Inl (FloorTemplate e) | Inr rs \<Rightarrow> Inr rs)
      else Inl (ErrUnknownTemplate name))"

definition ConservativeFloor :: "floor_error + floor" where
  "ConservativeFloor =
     (case parseTemplate TemplateConservative of
        Inl e \<Rightarrow> Inl e
      | Inr rs \<Rightarrow>
          NewFloor (map (\<lambda>r. \<lparr>fe_ID = ru_ID r, fe_Match = ru_Match r\<rparr>)
                     (filter (\<lambda>r. ru_Verdict r = VerdictDeny) (rs_Rules rs))))"

definition SelectTemplate ::
    "instant \<Rightarrow> string \<Rightarrow> string \<Rightarrow> Warning \<Rightarrow> floor \<Rightarrow> (floor_error + RuleSet \<times> FloorChangeRecord) \<times> floor" where
  "SelectTemplate now name actor ack f =
     (case parseTemplate name of
        Inl e \<Rightarrow> (Inl e, f)
      | Inr rs \<Rightarrow>
          if name = TemplateBare then
            (if \<not> redConfirmed ack then (Inl ErrFloorRemovalNotConfirmed, f)
             else
               (let rec = (\<lambda>eid. \<lparr>fc_Change = ''select-template:bare'', fc_EntryID = eid, fc_Actor = actor,
                             fc_WarningText = wa_Text ack, fc_RedConfirm = True, fc_Lowering = True, fc_Timestamp = now\<rparr>);
                    f' = map (\<lambda>fe. if fi_removal fe = None then fe\<lparr>fi_removal := Some (rec (fe_ID (fi_entry fe)))\<rparr> else fe) f
                in (Inr (rs, rec TemplateBare), f')))
          else if name = TemplateConservative then
            (case ConservativeFloor of
               Inl e \<Rightarrow> (Inl e, f)
             | Inr seed \<Rightarrow>
                 (Inr (rs, \<lparr>fc_Change = ''select-template:conservative'', fc_EntryID = TemplateConservative, fc_Actor = actor,
                            fc_WarningText = wa_Text ack, fc_RedConfirm = wa_DoubleConfirm ack, fc_Lowering = False,
                            fc_Timestamp = now\<rparr>), seed))
          else (Inl (ErrUnknownTemplate name), f))"

definition TemplateNames :: "string list" where
  "TemplateNames = sort [TemplateBare, TemplateConservative]"

section \<open>Facts\<close>

interpretation floor_step: narrowing "\<lambda>v. fst (ApplyFloor f v i)" for f i
  by unfold_locales (auto simp: ApplyFloor_def rank_bound Let_def split: option.split)

lemma ApplyFloor_eq:
  "fst (ApplyFloor fo v i) = (if AppliesTo fo i then VerdictDeny else v)"
  "fr_ProposalVerdict (snd (ApplyFloor fo v i)) = v"
  by (auto simp: ApplyFloor_def AppliesTo_def Let_def split: option.split)

lemma AppliesTo_iff: "AppliesTo (Some f) i \<longleftrightarrow> (\<exists>fe \<in> set f. fi_removal fe = None \<and> matchesAction fe i)"
  by (auto simp: AppliesTo_def matchActiveLocked_def find_None_iff)

lemma new_floor_entries:
  "new_floor n seen es = Inr f \<Longrightarrow>
     map fi_entry f = es \<and> (\<forall>fe \<in> set f. fi_removal fe = None \<and> fi_malformed fe = (\<not> specifiesAny (fe_Match (fi_entry fe))))
     \<and> distinct (map fe_ID es) \<and> set (map fe_ID es) \<inter> set seen = {}"
  by (induction n seen es arbitrary: f rule: new_floor.induct) (auto split: if_splits sum.splits)

lemma new_floor_ok:
  "distinct (map fe_ID es) \<Longrightarrow> set (map fe_ID es) \<inter> set seen = {} \<Longrightarrow> list_all (\<lambda>e. trim_space (fe_ID e) \<noteq> []) es
    \<Longrightarrow> \<exists>f. new_floor n seen es = Inr f"
proof (induction n seen es rule: new_floor.induct)
  case (1 i seen)
  then show ?case by simp
next
  case (2 i seen e es)
  then have "\<exists>f. new_floor (Suc i) (fe_ID e # seen) es = Inr f" by (intro 2(1)) auto
  with 2(2-4) show ?case by auto
qed

definition pattern_rule :: "string \<Rightarrow> string \<Rightarrow> Rule" where
  "pattern_rule rid pat = \<lparr>ru_ID = rid, ru_Match = no_match\<lparr>ma_ArgvPattern := pat\<rparr>, ru_Verdict = VerdictDeny,
     ru_Params = no_params, ru_ApproveBy = [], ru_IsDefault = False\<rparr>"

lemma pattern_rule_parses:
  assumes "rid \<noteq> []" and "pat \<noteq> []"
  shows "ruleFromDoc \<lparr>rd_ID = rid, rd_Match = empty_matchDoc\<lparr>md_ArgvPattern := pat\<rparr>,
      rd_Verdict = ''deny'', rd_Params = None, rd_ApproveBy = [], rd_IsDefault = False\<rparr> = Inr (pattern_rule rid pat)"
  using assms
  by (simp add: ruleFromDoc_def parseParams_def selectorFromDoc_def doc_selectors_def empty_matchDoc_def NewRule_def
      pattern_rule_def no_match_def no_params_def specifiesAny_def validBandMode_def out_of_unit_def negative_rate_def
      validVerdict_def VerdictDeny_def Let_def)

lemma parse_pattern_rules:
  assumes "distinct (map fst ps)" and "set (map fst ps) \<inter> set seen = {}" and "list_all (\<lambda>(r, p). r \<noteq> [] \<and> p \<noteq> []) ps"
  shows "parse_rules n seen (map (\<lambda>(rid, pat). \<lparr>rd_ID = rid, rd_Match = empty_matchDoc\<lparr>md_ArgvPattern := pat\<rparr>,
      rd_Verdict = ''deny'', rd_Params = None, rd_ApproveBy = [], rd_IsDefault = False\<rparr>) ps)
    = Inr (map (\<lambda>(rid, pat). pattern_rule rid pat) ps)"
  using assms
proof (induction ps arbitrary: n seen)
  case (Cons x ps)
  obtain rid pat where x: "x = (rid, pat)" by fastforce
  have "pattern_rule rid pat = r \<Longrightarrow> ru_ID r = rid" for r by (auto simp: pattern_rule_def)
  with Cons.IH [of "rid # seen" "Suc n"] Cons.prems x show ?case by (auto simp: pattern_rule_parses)
qed simp

lemma conservative_patterns_ok:
  "distinct (map fst conservative_patterns)"
  "list_all (\<lambda>(r, p). r \<noteq> [] \<and> p \<noteq> []) conservative_patterns"
  "list_all (\<lambda>(r, p). trim_space r \<noteq> [] \<and> trim_space p = p \<and> \<not> str_contains p ''*'') conservative_patterns"
  by code_simp+

lemma ConservativeFloor_ok:
  "\<exists>f. ConservativeFloor = Inr f
     \<and> map fi_entry f = map (\<lambda>(rid, pat). \<lparr>fe_ID = rid, fe_Match = no_match\<lparr>ma_ArgvPattern := pat\<rparr>\<rparr>) conservative_patterns
     \<and> (\<forall>fe \<in> set f. fi_removal fe = None \<and> \<not> fi_malformed fe)"
proof -
  let ?rules = "map (\<lambda>(rid, pat). pattern_rule rid pat) conservative_patterns"
    and ?es = "map (\<lambda>(rid, pat). \<lparr>fe_ID = rid, fe_Match = no_match\<lparr>ma_ArgvPattern := pat\<rparr>\<rparr>) conservative_patterns"
  have pr: "parse_rules 0 [] (sd_Rules conservativeTemplate) = Inr ?rules"
    unfolding conservativeTemplate_def using conservative_patterns_ok by (simp add: parse_pattern_rules)
  have "parseParams (sd_Default conservativeTemplate) = Inr \<lparr>pa_MinConfidence = None, pa_BandMode = ''respect'', pa_RateLimit = Some 30\<rparr>"
    by (simp add: conservativeTemplate_def parseParams_def validBandMode_def out_of_unit_def negative_rate_def tg_consts)
  with pr have pt: "\<exists>rs. parseTemplate TemplateConservative = Inr rs \<and> rs_Rules rs = ?rules"
    by (simp add: parseTemplate_def ParseRuleSet_def)
  have "filter (\<lambda>r. ru_Verdict r = VerdictDeny) ?rules = ?rules"
    by (rule filter_True) (auto simp: pattern_rule_def)
  moreover have "map (\<lambda>r. \<lparr>fe_ID = ru_ID r, fe_Match = ru_Match r\<rparr>) ?rules = ?es"
    by (auto simp: pattern_rule_def)
  ultimately have cf: "ConservativeFloor = NewFloor ?es"
    using pt unfolding ConservativeFloor_def by (elim exE conjE) (simp only: sum.case)
  have ids: "map fe_ID ?es = map fst conservative_patterns" by auto
  have "list_all (\<lambda>e. trim_space (fe_ID e) \<noteq> []) ?es"
    using conservative_patterns_ok(3) by (auto simp: list_all_iff)
  moreover have "distinct (map fe_ID ?es)" unfolding ids by (rule conservative_patterns_ok(1))
  ultimately obtain f where f: "new_floor 0 [] ?es = Inr f"
    using new_floor_ok [of ?es "[]" 0] by (metis Int_empty_right list.set(1))
  have "specifiesAny (fe_Match (fi_entry fe))" if "fe \<in> set f" for fe
  proof -
    have "fi_entry fe \<in> set ?es" using that new_floor_entries [OF f] by (metis in_set_conv_nth length_map nth_map nth_mem)
    then show ?thesis using conservative_patterns_ok(2) by (auto simp: specifiesAny_def list_all_iff)
  qed
  with f cf new_floor_entries [OF f] show ?thesis by (auto simp: NewFloor_def)
qed

lemma remove_first_keeps:
  "remove_first eid rec f = Some f' \<Longrightarrow> fe \<in> set f \<Longrightarrow> fe_ID (fi_entry fe) \<noteq> eid \<Longrightarrow> fe \<in> set f'"
  by (induction f arbitrary: f') (auto split: if_splits)

section \<open>Properties\<close>

text \<open>
  The floor denies execution and nothing else: an action that an active entry matches gets the
  execution verdict deny whatever the pipeline proposed, and the proposal is kept in the record for
  the vote; an action that none matches keeps its verdict. An entry that constrains no dimension
  denies every action.
\<close>

theorem floor_denies:
  assumes "NewFloor es = Inr f" and "e \<in> set es" and "matches (fe_Match e) i \<or> \<not> specifiesAny (fe_Match e)"
  shows "fst (ApplyFloor (Some f) v i) = VerdictDeny \<and> fr_ProposalVerdict (snd (ApplyFloor (Some f) v i)) = v"
proof -
  note ne = new_floor_entries [OF assms(1) [unfolded NewFloor_def]]
  then obtain fe where "fe \<in> set f" "fi_entry fe = e" using assms(2) by (metis in_set_conv_nth length_map nth_map nth_mem)
  with ne assms(3) have "fi_removal fe = None \<and> matchesAction fe i" by (auto simp: matchesAction_def)
  with \<open>fe \<in> set f\<close> have "AppliesTo (Some f) i" by (auto simp: AppliesTo_iff)
  then show ?thesis by (simp add: ApplyFloor_eq)
qed

text \<open>
  C37. The conservative template loads, and the floor it seeds denies every command that contains one
  of its patterns in any letter case, whatever verdict the pipeline proposed.
\<close>

theorem conservative_floor_denies:
  assumes "(rid, pat) \<in> set conservative_patterns" and "str_contains (to_lower (ei_Argv i)) (to_lower pat)"
  shows "\<exists>f. ConservativeFloor = Inr f \<and> fst (ApplyFloor (Some f) v i) = VerdictDeny"
proof -
  obtain f where f: "ConservativeFloor = Inr f"
    "map fi_entry f = map (\<lambda>(rid, pat). \<lparr>fe_ID = rid, fe_Match = no_match\<lparr>ma_ArgvPattern := pat\<rparr>\<rparr>) conservative_patterns"
    "\<forall>fe \<in> set f. fi_removal fe = None \<and> \<not> fi_malformed fe"
    using ConservativeFloor_ok by blast
  have "\<lparr>fe_ID = rid, fe_Match = no_match\<lparr>ma_ArgvPattern := pat\<rparr>\<rparr> \<in> set (map fi_entry f)"
    unfolding f(2) using assms(1) by force
  then obtain fe where fe: "fe \<in> set f" "fi_entry fe = \<lparr>fe_ID = rid, fe_Match = no_match\<lparr>ma_ArgvPattern := pat\<rparr>\<rparr>"
    by (metis imageE list.set_map)
  have ok: "pat \<noteq> []" "trim_space pat = pat" "\<not> str_contains pat ''*''"
    using conservative_patterns_ok assms(1) by (auto simp: list_all_iff)
  have "argvMatch pat (ei_Argv i)" using ok assms(2) by (simp add: argvMatch_def)
  then have "matches (no_match\<lparr>ma_ArgvPattern := pat\<rparr>) i"
    using ok(1) by (simp add: matches_iff specifiesAny_def dims_agree_def no_match_def)
  then have "matchesAction fe i" using fe f(3) by (simp add: matchesAction_def)
  with fe(1) f(3) have "AppliesTo (Some f) i" unfolding AppliesTo_iff by blast
  then have "fst (ApplyFloor (Some f) v i) = VerdictDeny" by (simp add: ApplyFloor_eq)
  with f(1) show ?thesis by blast
qed

text \<open>
  C38. Protection is not removed by accident: without the acknowledged double confirmation, neither
  removing an entry nor selecting the allow-all template changes the floor; with it, removing an
  entry takes exactly that entry out of force and leaves the others; and an unknown template changes
  nothing.
\<close>

theorem removal_needs_confirmation:
  assumes "RemoveFloorEntry now eid actor ack f = (r, f')"
  shows "(\<not> redConfirmed ack \<longrightarrow> r = Inl ErrFloorRemovalNotConfirmed \<and> f' = f
        \<and> snd (SelectTemplate now TemplateBare actor ack f) = f)
    \<and> (\<forall>i. (\<exists>fe \<in> set f. fi_removal fe = None \<and> fe_ID (fi_entry fe) \<noteq> eid \<and> matchesAction fe i) \<longrightarrow> AppliesTo (Some f') i)
    \<and> (name \<notin> {TemplateBare, TemplateConservative} \<longrightarrow>
        SelectTemplate now name actor ack f = (Inl (ErrUnknownTemplate name), f))"
proof (intro conjI)
  show "\<not> redConfirmed ack \<longrightarrow> r = Inl ErrFloorRemovalNotConfirmed \<and> f' = f
      \<and> snd (SelectTemplate now TemplateBare actor ack f) = f"
    using assms by (auto simp: RemoveFloorEntry_def SelectTemplate_def split: sum.split)
  show "\<forall>i. (\<exists>fe \<in> set f. fi_removal fe = None \<and> fe_ID (fi_entry fe) \<noteq> eid \<and> matchesAction fe i) \<longrightarrow> AppliesTo (Some f') i"
    using assms unfolding RemoveFloorEntry_def AppliesTo_iff Let_def
    by (auto split: if_splits option.splits dest: remove_first_keeps)
  show "name \<notin> {TemplateBare, TemplateConservative} \<longrightarrow>
      SelectTemplate now name actor ack f = (Inl (ErrUnknownTemplate name), f)"
    by (auto simp: SelectTemplate_def parseTemplate_def)
qed

section \<open>Concrete floors\<close>

definition demo_action :: EvalInput where
  "demo_action = \<lparr>ei_OpClass = ''prune-backups'', ei_Argv = ''sudo REBOOT --force'', ei_Host = ''web01'', ei_Resource = [],
     ei_Groups = [], ei_DeviceClass = [], ei_Territory = [], ei_Reversible = True, ei_InvertsForward = False,
     ei_Confidence = Fin 1, ei_Band = BandAuto, ei_Mode = 0, ei_ActionID = ''a1'', ei_ExternalRef = [], ei_Principal = []\<rparr>"

definition demo_entry :: FloorEntry where
  "demo_entry = \<lparr>fe_ID = ''site-rule'', fe_Match = no_match\<lparr>ma_OpClass := ''prune-backups''\<rparr>\<rparr>"

definition demo_floor :: floor where
  "demo_floor = [\<lparr>fi_entry = demo_entry, fi_malformed = False, fi_removal = None\<rparr>]"

lemma demo_floor_new: "NewFloor [demo_entry] = Inr demo_floor"
proof -
  have "trim_space ''site-rule'' \<noteq> []" by code_simp
  then show ?thesis
    by (simp add: NewFloor_def demo_entry_def demo_floor_def specifiesAny_def no_match_def)
qed

lemma demo_entry_matches: "matches (fe_Match demo_entry) demo_action"
  by code_simp

theorem floor_denies_witness: "fst (ApplyFloor (Some demo_floor) VerdictAuto demo_action) = VerdictDeny"
  using floor_denies [OF demo_floor_new, of demo_entry demo_action VerdictAuto] demo_entry_matches by simp

theorem conservative_floor_denies_witness:
  "\<exists>f. ConservativeFloor = Inr f \<and> fst (ApplyFloor (Some f) VerdictAuto demo_action) = VerdictDeny"
proof (rule conservative_floor_denies)
  show "(''deny-reboot'', ''reboot'') \<in> set conservative_patterns" by code_simp
  show "str_contains (to_lower (ei_Argv demo_action)) (to_lower ''reboot'')" by code_simp
qed

definition no_ack :: Warning where
  "no_ack = \<lparr>wa_Text = [], wa_Acknowledged = False, wa_DoubleConfirm = False\<rparr>"

theorem removal_needs_confirmation_witness:
  "snd (RemoveFloorEntry 0 ''site-rule'' ''op'' no_ack demo_floor) = demo_floor"
proof -
  have "\<not> redConfirmed no_ack" by code_simp
  then show ?thesis
    using removal_needs_confirmation [of 0 "''site-rule''" "''op''" no_ack demo_floor
        "fst (RemoveFloorEntry 0 ''site-rule'' ''op'' no_ack demo_floor)" "snd (RemoveFloorEntry 0 ''site-rule'' ''op'' no_ack demo_floor)"]
    by simp
qed

section \<open>Re-seeding drops the operator's own entries\<close>

text \<open>
  Selecting the conservative template without any confirmation replaces the whole floor: an
  operator entry that the template does not contain is gone, and an action it denied is no longer
  denied, although the change is recorded as one that does not lower protection.
\<close>

theorem conservative_reseed_drops_entry:
  "\<exists>rs rec f. SelectTemplate 0 TemplateConservative ''op'' no_ack demo_floor = (Inr (rs, rec), f)
     \<and> \<not> redConfirmed no_ack \<and> \<not> fc_Lowering rec
     \<and> fst (ApplyFloor (Some demo_floor) VerdictAuto (demo_action\<lparr>ei_Argv := ''prunectl run''\<rparr>)) = VerdictDeny
     \<and> fst (ApplyFloor (Some f) VerdictAuto (demo_action\<lparr>ei_Argv := ''prunectl run''\<rparr>)) = VerdictAuto"
proof -
  let ?i = "demo_action\<lparr>ei_Argv := ''prunectl run''\<rparr>"
  obtain f where f: "ConservativeFloor = Inr f"
    "map fi_entry f = map (\<lambda>(rid, pat). \<lparr>fe_ID = rid, fe_Match = no_match\<lparr>ma_ArgvPattern := pat\<rparr>\<rparr>) conservative_patterns"
    "\<forall>fe \<in> set f. fi_removal fe = None \<and> \<not> fi_malformed fe"
    using ConservativeFloor_ok by blast
  have "list_all (\<lambda>e. \<not> matches (fe_Match e) ?i)
      (map (\<lambda>(rid, pat). \<lparr>fe_ID = rid, fe_Match = no_match\<lparr>ma_ArgvPattern := pat\<rparr>\<rparr>) conservative_patterns)"
    by code_simp
  then have "\<not> AppliesTo (Some f) ?i"
    using f(3) unfolding f(2) [symmetric] by (auto simp: AppliesTo_iff matchesAction_def list_all_iff)
  moreover have "matches (fe_Match demo_entry) ?i" by code_simp
  then have "AppliesTo (Some demo_floor) ?i" by (auto simp: AppliesTo_iff matchesAction_def demo_floor_def)
  moreover have "\<not> redConfirmed no_ack" by code_simp
  moreover obtain rs where rs: "parseTemplate TemplateConservative = Inr rs"
    using f(1) by (auto simp: ConservativeFloor_def split: sum.splits)
  moreover have "TemplateConservative \<noteq> TemplateBare" by (simp add: tg_consts)
  then have "\<exists>rec. SelectTemplate 0 TemplateConservative ''op'' no_ack demo_floor = (Inr (rs, rec), f) \<and> \<not> fc_Lowering rec"
    unfolding SelectTemplate_def f(1) rs by simp
  ultimately show ?thesis unfolding ApplyFloor_eq(1) by auto
qed

end
