(* ===== verification/Graduation.thy ===== *)
theory Graduation
  imports Policy_Narrow
begin

text \<open>
  The graduation ladder, \<^verbatim>\<open>core/policy/graduation.go\<close>, its Postgres store
  \<^verbatim>\<open>core/db/policy_graduation_store.go\<close>, the seeding of \<^verbatim>\<open>core/policy/defaults.go\<close>, and what it
  asks of the operation registry, \<^verbatim>\<open>core/actuate/opschema\<close>.

  The registry's contents are data; only the tier of each class matters here, so the embedded
  registry and the runtime overlay are two maps from class to tier. Counters are unbounded
  integers. Log lines and the wording of reasons are not modelled.
\<close>

section \<open>The operation registry\<close>

definition TierLowReversible :: string where [tg_consts]: "TierLowReversible = ''low-reversible''"
definition TierMedium :: string where [tg_consts]: "TierMedium = ''medium''"
definition TierIrreversible :: string where [tg_consts]: "TierIrreversible = ''irreversible''"
definition TierVendorCritical :: string where [tg_consts]: "TierVendorCritical = ''vendor-critical''"

definition AutoEligible :: "string \<Rightarrow> bool" where
  "AutoEligible tier \<longleftrightarrow> (let t = norm_key tier in t = TierLowReversible \<or> t = TierMedium)"

record opregistry =
  or_embedded :: "string \<rightharpoonup> string"
  or_overlay :: "string \<rightharpoonup> string"

text \<open>\<^verbatim>\<open>opschema.Lookup\<close>, as far as the tier goes: the embedded registry first, always.\<close>

definition opClassTier :: "opregistry \<Rightarrow> string \<Rightarrow> string option" where
  "opClassTier reg opClass =
     (let key = norm_key opClass in
      case or_embedded reg key of Some t \<Rightarrow> Some t | None \<Rightarrow> or_overlay reg key)"

definition IsEmbedded :: "opregistry \<Rightarrow> string \<Rightarrow> bool" where
  "IsEmbedded reg opClass \<longleftrightarrow> or_embedded reg (norm_key opClass) \<noteq> None"

definition autoEligibleOpClass :: "opregistry \<Rightarrow> string \<Rightarrow> bool" where
  "autoEligibleOpClass reg opClass \<longleftrightarrow> (case opClassTier reg opClass of None \<Rightarrow> False | Some t \<Rightarrow> AutoEligible t)"

definition tierForbidsAuto :: "opregistry \<Rightarrow> string \<Rightarrow> bool" where
  "tierForbidsAuto reg opClass \<longleftrightarrow> (case opClassTier reg opClass of None \<Rightarrow> False | Some t \<Rightarrow> \<not> AutoEligible t)"

section \<open>Levels and outcomes\<close>

definition DefaultPromoteThreshold :: int where [tg_consts]: "DefaultPromoteThreshold = 5"
definition DefaultNoticeThreshold :: int where [tg_consts]: "DefaultNoticeThreshold = 10"

definition PromoteThresholdForTier :: "string \<Rightarrow> int" where
  "PromoteThresholdForTier tier = (if tier = TierLowReversible then DefaultPromoteThreshold else DefaultNoticeThreshold)"

type_synonym level = int

definition LevelApprove :: level where [tg_consts]: "LevelApprove = 0"
definition LevelAutoNotice :: level where [tg_consts]: "LevelAutoNotice = 1"
definition LevelAuto :: level where [tg_consts]: "LevelAuto = 2"

definition level_valid :: "level \<Rightarrow> bool" where
  "level_valid l \<longleftrightarrow> l = LevelApprove \<or> l = LevelAutoNotice \<or> l = LevelAuto"

definition level_Verdict :: "level \<Rightarrow> pverdict" where
  "level_Verdict l = (if l = LevelAutoNotice \<or> l = LevelAuto then VerdictAuto else VerdictApprove)"

definition level_string :: "level \<Rightarrow> string" where
  "level_string l = (if l = LevelAuto then ''auto'' else if l = LevelAutoNotice then ''auto_notice'' else ''approve'')"

type_synonym outcome = int

definition OutcomeUnverified :: outcome where [tg_consts]: "OutcomeUnverified = 0"
definition OutcomeVerifiedClean :: outcome where [tg_consts]: "OutcomeVerifiedClean = 1"
definition OutcomeDeviated :: outcome where [tg_consts]: "OutcomeDeviated = 2"
definition OutcomeSeeded :: outcome where [tg_consts]: "OutcomeSeeded = 3"

definition outcome_string :: "outcome \<Rightarrow> string" where
  "outcome_string oc =
     (if oc = OutcomeVerifiedClean then ''verified_clean''
      else if oc = OutcomeDeviated then ''deviated''
      else if oc = OutcomeSeeded then ''seeded''
      else ''unverified'')"

definition OutcomeFromVerdict :: "verdict \<Rightarrow> bool \<Rightarrow> outcome" where
  "OutcomeFromVerdict v verified =
     (if \<not> verified then OutcomeUnverified
      else if v = VerdictMatch then OutcomeVerifiedClean
      else if v = VerdictDeviation then OutcomeDeviated
      else OutcomeUnverified)"

section \<open>One run\<close>

record ClassState =
  cs_OpClass :: string
  cs_Level :: level
  cs_CleanRunCount :: int
  cs_NoticeRunCount :: int
  cs_LastOutcome :: outcome
  cs_Version :: int

record RecordResult =
  rs_OpClass :: string
  rs_Outcome :: outcome
  rs_From :: level
  rs_To :: level
  rs_CleanRunCount :: int
  rs_NoticeRunCount :: int
  rs_Threshold :: int
  rs_NoticeThresh :: int
  rs_Promoted :: bool
  rs_Demoted :: bool
  rs_CeilingHeld :: bool

definition sanitize :: "ClassState \<Rightarrow> ClassState" where
  "sanitize st =
     st\<lparr>cs_Level := (if \<not> level_valid (cs_Level st) then LevelApprove else cs_Level st),
        cs_CleanRunCount := (if cs_CleanRunCount st < 0 then 0 else cs_CleanRunCount st),
        cs_NoticeRunCount := (if cs_NoticeRunCount st < 0 then 0 else cs_NoticeRunCount st)\<rparr>"

text \<open>The body of the switch: the new state with the flags promoted, demoted and ceiling-held.\<close>

definition outcome_step :: "opregistry \<Rightarrow> int \<Rightarrow> int \<Rightarrow> outcome \<Rightarrow> ClassState \<Rightarrow> ClassState \<times> bool \<times> bool \<times> bool" where
  "outcome_step reg threshold noticeThreshold oc st =
     (if oc = OutcomeVerifiedClean then
        (if cs_Level st = LevelApprove then
           (let st = st\<lparr>cs_CleanRunCount := cs_CleanRunCount st + 1\<rparr> in
            if cs_CleanRunCount st \<ge> threshold \<and> \<not> tierForbidsAuto reg (cs_OpClass st)
            then (st\<lparr>cs_Level := LevelAutoNotice, cs_CleanRunCount := 0, cs_NoticeRunCount := 0\<rparr>, True, False, False)
            else (st, False, False, False))
         else if cs_Level st = LevelAutoNotice then
           (let st = st\<lparr>cs_NoticeRunCount := cs_NoticeRunCount st + 1\<rparr> in
            if cs_NoticeRunCount st \<ge> noticeThreshold \<and> \<not> tierForbidsAuto reg (cs_OpClass st) then
              (if IsEmbedded reg (cs_OpClass st)
               then (st\<lparr>cs_Level := LevelAuto, cs_NoticeRunCount := 0\<rparr>, True, False, False)
               else (st\<lparr>cs_NoticeRunCount := noticeThreshold\<rparr>, False, False, True))
            else (st, False, False, False))
         else (st, False, False, False))
      else if oc = OutcomeDeviated then
        (st\<lparr>cs_Level := LevelApprove, cs_CleanRunCount := 0, cs_NoticeRunCount := 0\<rparr>, False,
         cs_Level st = LevelAuto \<or> cs_Level st = LevelAutoNotice, False)
      else (st\<lparr>cs_CleanRunCount := 0, cs_NoticeRunCount := 0\<rparr>, False, False, False))"

definition applyOutcome :: "opregistry \<Rightarrow> ClassState \<Rightarrow> outcome \<Rightarrow> int \<Rightarrow> int \<Rightarrow> ClassState \<times> RecordResult" where
  "applyOutcome reg st oc threshold noticeThreshold =
     (let threshold = (if threshold < 1 then DefaultPromoteThreshold else threshold);
          noticeThreshold = (if noticeThreshold < 1 then DefaultNoticeThreshold else noticeThreshold);
          st = sanitize st;
          from = cs_Level st
      in case outcome_step reg threshold noticeThreshold oc st of
           (st', promoted, demoted, held) \<Rightarrow>
             (st'\<lparr>cs_LastOutcome := oc\<rparr>,
              \<lparr>rs_OpClass = cs_OpClass st, rs_Outcome = oc, rs_From = from, rs_To = cs_Level st',
               rs_CleanRunCount = cs_CleanRunCount st', rs_NoticeRunCount = cs_NoticeRunCount st',
               rs_Threshold = threshold, rs_NoticeThresh = noticeThreshold,
               rs_Promoted = promoted, rs_Demoted = demoted, rs_CeilingHeld = held\<rparr>))"

definition graduatedVerdict :: "level \<Rightarrow> pverdict \<Rightarrow> pverdict" where
  "graduatedVerdict l ruleVerdict = (if ruleVerdict \<noteq> VerdictAuto then ruleVerdict else level_Verdict l)"

section \<open>Stores\<close>

datatype grad_error = ErrClassAbsent string | ErrConcurrentModification string | GradStore string
  | ErrPromotionNotPersisted grad_error | AppliedInMemory grad_error

record 'st gstore =
  gs_load :: "'st \<Rightarrow> string \<Rightarrow> 'st \<times> (grad_error + ClassState)"
  gs_save :: "'st \<Rightarrow> ClassState \<Rightarrow> 'st \<times> grad_error option"

record mem_grad =
  mg_states :: "string \<rightharpoonup> ClassState"
  mg_loadErr :: "grad_error option"

definition grad_Seed :: "ClassState \<Rightarrow> mem_grad \<Rightarrow> mem_grad" where
  "grad_Seed st s =
     (let st = (if cs_Version st < 1 then st\<lparr>cs_Version := 1\<rparr> else st)
      in s\<lparr>mg_states := (mg_states s)(cs_OpClass st \<mapsto> st)\<rparr>)"

definition mem_grad_Load :: "mem_grad \<Rightarrow> string \<Rightarrow> mem_grad \<times> (grad_error + ClassState)" where
  "mem_grad_Load s opClass =
     (case mg_loadErr s of
        Some e \<Rightarrow> (s, Inl e)
      | None \<Rightarrow> (case mg_states s opClass of None \<Rightarrow> (s, Inl (ErrClassAbsent opClass)) | Some st \<Rightarrow> (s, Inr st)))"

definition mem_grad_Save :: "mem_grad \<Rightarrow> ClassState \<Rightarrow> mem_grad \<times> grad_error option" where
  "mem_grad_Save s st =
     (case mg_states s (cs_OpClass st) of
        Some existing \<Rightarrow>
          if cs_Version st > 0 \<and> cs_Version st \<noteq> cs_Version existing
          then (s, Some (ErrConcurrentModification (cs_OpClass st)))
          else (s\<lparr>mg_states := (mg_states s)(cs_OpClass st \<mapsto> st\<lparr>cs_Version := cs_Version existing + 1\<rparr>)\<rparr>, None)
      | None \<Rightarrow> (s\<lparr>mg_states := (mg_states s)(cs_OpClass st \<mapsto> st\<lparr>cs_Version := 1\<rparr>)\<rparr>, None))"

definition MemGraduationStore :: "mem_grad gstore" where
  "MemGraduationStore = \<lparr>gs_load = mem_grad_Load, gs_save = mem_grad_Save\<rparr>"

text \<open>
  The table \<^verbatim>\<open>policy_graduation\<close>: the level and the last outcome are stored as their names.
  \<open>pt_faults\<close> scripts the statements that fail.
\<close>

record grad_row =
  gr_level :: string
  gr_clean :: int
  gr_notice :: int
  gr_outcome :: string
  gr_version :: int

record grad_table =
  pt_rows :: "string \<rightharpoonup> grad_row"
  pt_faults :: "bool list"

definition pt_faulty :: "grad_table \<Rightarrow> bool \<times> grad_table" where
  "pt_faulty t = (case pt_faults t of [] \<Rightarrow> (False, t) | f # fs \<Rightarrow> (f, t\<lparr>pt_faults := fs\<rparr>))"

definition parseLevel :: "string \<Rightarrow> level option" where
  "parseLevel s =
     (if s = ''auto'' then Some LevelAuto
      else if s = ''auto_notice'' then Some LevelAutoNotice
      else if s = ''approve'' then Some LevelApprove
      else None)"

definition parseOutcome :: "string \<Rightarrow> outcome" where
  "parseOutcome s =
     (if s = ''verified_clean'' then OutcomeVerifiedClean
      else if s = ''deviated'' then OutcomeDeviated
      else if s = ''seeded'' then OutcomeSeeded
      else OutcomeUnverified)"

definition pg_grad_Load :: "grad_table \<Rightarrow> string \<Rightarrow> grad_table \<times> (grad_error + ClassState)" where
  "pg_grad_Load t opClass =
     (case pt_faulty t of (bad, t1) \<Rightarrow>
        if bad then (t1, Inl (GradStore ''load''))
        else case pt_rows t1 opClass of
          None \<Rightarrow> (t1, Inl (ErrClassAbsent opClass))
        | Some r \<Rightarrow>
            (case parseLevel (gr_level r) of
               None \<Rightarrow> (t1, Inl (ErrClassAbsent opClass))
             | Some lvl \<Rightarrow>
                 (t1, Inr \<lparr>cs_OpClass = opClass, cs_Level = lvl, cs_CleanRunCount = gr_clean r,
                           cs_NoticeRunCount = gr_notice r, cs_LastOutcome = parseOutcome (gr_outcome r),
                           cs_Version = gr_version r\<rparr>)))"

definition row_of_state :: "ClassState \<Rightarrow> int \<Rightarrow> grad_row" where
  "row_of_state st v = \<lparr>gr_level = level_string (cs_Level st), gr_clean = cs_CleanRunCount st,
     gr_notice = cs_NoticeRunCount st, gr_outcome = outcome_string (cs_LastOutcome st), gr_version = v\<rparr>"

definition pg_grad_Save :: "grad_table \<Rightarrow> ClassState \<Rightarrow> grad_table \<times> grad_error option" where
  "pg_grad_Save t st =
     (case pt_faulty t of (bad, t1) \<Rightarrow>
        if bad then (t1, Some (GradStore ''save''))
        else case pt_rows t1 (cs_OpClass st) of
          None \<Rightarrow> (t1\<lparr>pt_rows := (pt_rows t1)(cs_OpClass st \<mapsto> row_of_state st 1)\<rparr>, None)
        | Some r \<Rightarrow>
            if cs_Version st = 0 \<or> gr_version r = cs_Version st
            then (t1\<lparr>pt_rows := (pt_rows t1)(cs_OpClass st \<mapsto> row_of_state st (gr_version r + 1))\<rparr>, None)
            else (t1, Some (ErrConcurrentModification (cs_OpClass st))))"

definition PolicyGraduationStore :: "grad_table gstore" where
  "PolicyGraduationStore = \<lparr>gs_load = pg_grad_Load, gs_save = pg_grad_Save\<rparr>"

section \<open>The ladder\<close>

record Ladder =
  la_threshold :: int
  la_noticeThreshold :: int
  la_perClass :: "(string \<Rightarrow> int option) option"
  la_states :: "string \<rightharpoonup> ClassState"

definition NewLadder :: "int \<Rightarrow> Ladder" where
  "NewLadder threshold =
     \<lparr>la_threshold = (if threshold < 1 then DefaultPromoteThreshold else threshold),
      la_noticeThreshold = DefaultNoticeThreshold, la_perClass = None, la_states = Map.empty\<rparr>"

definition thresholdForLocked :: "Ladder \<Rightarrow> string \<Rightarrow> int" where
  "thresholdForLocked l opClass =
     (case la_perClass l of
        None \<Rightarrow> la_threshold l
      | Some f \<Rightarrow> (case f opClass of None \<Rightarrow> la_threshold l | Some n \<Rightarrow> if n \<le> la_threshold l then la_threshold l else n))"

definition fresh_class :: "string \<Rightarrow> ClassState" where
  "fresh_class opClass = \<lparr>cs_OpClass = opClass, cs_Level = LevelApprove, cs_CleanRunCount = 0, cs_NoticeRunCount = 0,
     cs_LastOutcome = OutcomeUnverified, cs_Version = 0\<rparr>"

definition cache :: "Ladder \<Rightarrow> string \<Rightarrow> ClassState \<Rightarrow> Ladder" where
  "cache l opClass st = l\<lparr>la_states := (la_states l)(opClass \<mapsto> st)\<rparr>"

definition loadFreshLocked :: "'st gstore option \<Rightarrow> string \<Rightarrow> Ladder \<Rightarrow> 'st \<Rightarrow> ClassState \<times> Ladder \<times> 'st" where
  "loadFreshLocked store opClass l db =
     (let st = fresh_class opClass in
      case store of
        None \<Rightarrow> (case la_states l opClass of Some cached \<Rightarrow> (cached, l, db) | None \<Rightarrow> (st, cache l opClass st, db))
      | Some s \<Rightarrow>
          (case gs_load s db opClass of
             (db', Inl _) \<Rightarrow> (st, cache l opClass st, db')
           | (db', Inr loaded) \<Rightarrow>
               if \<not> level_valid (cs_Level loaded) then (st, cache l opClass st, db')
               else
                 (let st = loaded\<lparr>cs_OpClass := opClass,
                       cs_CleanRunCount := (if cs_CleanRunCount loaded < 0 then 0 else cs_CleanRunCount loaded),
                       cs_NoticeRunCount := (if cs_NoticeRunCount loaded < 0 then 0 else cs_NoticeRunCount loaded)\<rparr>
                  in (st, cache l opClass st, db'))))"

definition stateLocked :: "'st gstore option \<Rightarrow> string \<Rightarrow> Ladder \<Rightarrow> 'st \<Rightarrow> ClassState \<times> Ladder \<times> 'st" where
  "stateLocked store opClass l db =
     (case la_states l opClass of Some st \<Rightarrow> (st, l, db) | None \<Rightarrow> loadFreshLocked store opClass l db)"

definition Forget :: "string \<Rightarrow> Ladder \<Rightarrow> Ladder" where
  "Forget opClass l = l\<lparr>la_states := (la_states l)(opClass := None)\<rparr>"

definition maxRecordCASRetries :: nat where
  "maxRecordCASRetries = 5"

text \<open>
  The loop of \<^verbatim>\<open>Record\<close>: \<open>n\<close> retries are left, and \<open>env k\<close> is whatever sibling workers do to the
  store before its \<open>k\<close>-th statement.
\<close>

fun record_loop ::
    "opregistry \<Rightarrow> 'st gstore option \<Rightarrow> (nat \<Rightarrow> 'st \<Rightarrow> 'st) \<Rightarrow> string \<Rightarrow> outcome \<Rightarrow> nat \<Rightarrow> nat \<Rightarrow> Ladder \<Rightarrow> 'st
     \<Rightarrow> (RecordResult \<times> grad_error option) \<times> Ladder \<times> 'st" where
  "record_loop reg store env opClass oc n k l db =
     (case loadFreshLocked store opClass l (env (2 * k) db) of (cur, l1, db1) \<Rightarrow>
        (let threshold = thresholdForLocked l1 opClass in
         case applyOutcome reg cur oc threshold (la_noticeThreshold l1) of (next, res) \<Rightarrow>
           (case store of
              None \<Rightarrow> ((res, None), cache l1 opClass next, db1)
            | Some s \<Rightarrow>
                (case gs_save s (env (2 * k + 1) db1) next of
                   (db2, None) \<Rightarrow> ((res, None), cache l1 opClass next, db2)
                 | (db2, Some err) \<Rightarrow>
                     (case (err, n) of
                        (ErrConcurrentModification _, Suc m) \<Rightarrow>
                          record_loop reg store env opClass oc m (Suc k) (Forget opClass l1) db2
                      | _ \<Rightarrow>
                          if rs_Promoted res
                          then ((\<lparr>rs_OpClass = opClass, rs_Outcome = oc, rs_From = cs_Level cur, rs_To = cs_Level cur,
                                  rs_CleanRunCount = cs_CleanRunCount cur, rs_NoticeRunCount = cs_NoticeRunCount cur,
                                  rs_Threshold = threshold, rs_NoticeThresh = la_noticeThreshold l1,
                                  rs_Promoted = False, rs_Demoted = False, rs_CeilingHeld = False\<rparr>,
                                 Some (ErrPromotionNotPersisted err)), cache l1 opClass cur, db2)
                          else ((res, Some (AppliedInMemory err)), cache l1 opClass next, db2))))))"

declare record_loop.simps [simp del]

definition Record ::
    "opregistry \<Rightarrow> 'st gstore option \<Rightarrow> (nat \<Rightarrow> 'st \<Rightarrow> 'st) \<Rightarrow> string \<Rightarrow> outcome \<Rightarrow> Ladder \<Rightarrow> 'st
     \<Rightarrow> (RecordResult \<times> grad_error option) \<times> Ladder \<times> 'st" where
  "Record reg store env opClass oc l db = record_loop reg store env opClass oc maxRecordCASRetries 0 l db"

definition GraduatedVerdict ::
    "opregistry \<Rightarrow> 'st gstore option \<Rightarrow> string \<Rightarrow> pverdict \<Rightarrow> Ladder \<Rightarrow> 'st \<Rightarrow> pverdict \<times> Ladder \<times> 'st" where
  "GraduatedVerdict reg store opClass ruleVerdict l db =
     (if \<not> autoEligibleOpClass reg opClass then (graduatedVerdict LevelApprove ruleVerdict, l, db)
      else case stateLocked store opClass l db of (st, l', db') \<Rightarrow> (graduatedVerdict (cs_Level st) ruleVerdict, l', db'))"

definition GraduationMargin ::
    "opregistry \<Rightarrow> 'st gstore option \<Rightarrow> string \<Rightarrow> Ladder \<Rightarrow> 'st \<Rightarrow> int option \<times> Ladder \<times> 'st" where
  "GraduationMargin reg store opClass l db =
     (if \<not> autoEligibleOpClass reg opClass then (None, l, db)
      else case stateLocked store opClass l db of (st, l', db') \<Rightarrow>
        (if cs_Level st = LevelApprove then Some (cs_CleanRunCount st - thresholdForLocked l' opClass)
         else if cs_Level st = LevelAutoNotice then Some (cs_NoticeRunCount st - la_noticeThreshold l')
         else None, l', db'))"

section \<open>Seeding a fresh deployment\<close>

definition DefaultGraduatedClasses :: "string list" where
  "DefaultGraduatedClasses = [''restart-service'', ''reload-service'', ''restart-container'', ''start-guest'']"

definition seed_class :: "'st gstore \<Rightarrow> string \<Rightarrow> 'st \<Rightarrow> 'st" where
  "seed_class s opClass db =
     (case gs_load s db opClass of
        (db1, Inl (ErrClassAbsent _)) \<Rightarrow>
          fst (gs_save s db1 ((fresh_class opClass)\<lparr>cs_Level := LevelAutoNotice, cs_LastOutcome := OutcomeSeeded\<rparr>))
      | (db1, _) \<Rightarrow> db1)"

text \<open>
  \<^verbatim>\<open>SeedDefaults\<close>. \<open>loaded\<close> is the stored rule set, \<open>Inl True\<close> its absence and \<open>Inl False\<close> any other
  failure; \<open>seeded\<close> is the outcome of storing the default document.
\<close>

definition SeedDefaults :: "(bool + RuleSet) \<Rightarrow> RuleSet option \<Rightarrow> 'st gstore \<Rightarrow> 'st \<Rightarrow> RuleSet \<times> 'st" where
  "SeedDefaults loaded seeded grad db =
     (let none = \<lparr>rs_Default = no_params, rs_Rules = []\<rparr> in
      case loaded of
        Inr rs \<Rightarrow> (rs, db)
      | Inl fresh \<Rightarrow>
          if fresh then (case seeded of Some rs \<Rightarrow> (rs, fold (seed_class grad) DefaultGraduatedClasses db) | None \<Rightarrow> (none, db))
          else (none, db))"

section \<open>Facts\<close>

lemma level_distinct [simp]:
  "LevelApprove \<noteq> LevelAutoNotice" "LevelApprove \<noteq> LevelAuto" "LevelAutoNotice \<noteq> LevelAuto"
  "LevelAutoNotice \<noteq> LevelApprove" "LevelAuto \<noteq> LevelApprove" "LevelAuto \<noteq> LevelAutoNotice"
  by (simp_all add: tg_consts)

lemma outcome_distinct [simp]:
  "OutcomeVerifiedClean \<noteq> OutcomeDeviated" "OutcomeDeviated \<noteq> OutcomeVerifiedClean"
  "OutcomeUnverified \<noteq> OutcomeVerifiedClean" "OutcomeUnverified \<noteq> OutcomeDeviated"
  by (simp_all add: tg_consts)

lemma parse_level_string: "level_valid l \<Longrightarrow> parseLevel (level_string l) = Some l"
  by (auto simp: parseLevel_def level_string_def level_valid_def tg_consts)

lemma parse_outcome_string:
  "oc \<in> {OutcomeUnverified, OutcomeVerifiedClean, OutcomeDeviated, OutcomeSeeded} \<Longrightarrow> parseOutcome (outcome_string oc) = oc"
  by (auto simp: parseOutcome_def outcome_string_def tg_consts)

lemma sanitize_valid [simp]: "level_valid (cs_Level (sanitize st))" "cs_OpClass (sanitize st) = cs_OpClass st"
  "0 \<le> cs_CleanRunCount (sanitize st)" "0 \<le> cs_NoticeRunCount (sanitize st)" "cs_Version (sanitize st) = cs_Version st"
  by (simp_all add: sanitize_def level_valid_def)

interpretation grad_step: narrowing "graduatedVerdict l" for l
  by unfold_locales (auto simp: graduatedVerdict_def level_Verdict_def)

interpretation ladder_step: narrowing "\<lambda>v. fst (GraduatedVerdict reg store op v l db)" for reg store op l db
  by unfold_locales
    (auto simp: GraduatedVerdict_def grad_step.tightens grad_step.keeps_valid split: prod.split)

lemma GraduatedVerdict_auto:
  assumes "fst (GraduatedVerdict reg store op v l db) = VerdictAuto"
  shows "v = VerdictAuto \<and> autoEligibleOpClass reg op
    \<and> cs_Level (fst (stateLocked store op l db)) \<in> {LevelAutoNotice, LevelAuto}"
  using assms
  by (auto simp: GraduatedVerdict_def graduatedVerdict_def level_Verdict_def split: if_splits prod.splits)

text \<open>The thresholds that are in force.\<close>

definition eff_threshold :: "int \<Rightarrow> int" where
  "eff_threshold t = (if t < 1 then DefaultPromoteThreshold else t)"

definition eff_notice :: "int \<Rightarrow> int" where
  "eff_notice t = (if t < 1 then DefaultNoticeThreshold else t)"

lemma eff_pos: "1 \<le> eff_threshold t" "1 \<le> eff_notice t"
  by (simp_all add: eff_threshold_def eff_notice_def tg_consts)

lemma applyOutcome_eq:
  "applyOutcome reg st oc th nt =
     (case outcome_step reg (eff_threshold th) (eff_notice nt) oc (sanitize st) of
        (st', promoted, demoted, held) \<Rightarrow>
          (st'\<lparr>cs_LastOutcome := oc\<rparr>,
           \<lparr>rs_OpClass = cs_OpClass st, rs_Outcome = oc, rs_From = cs_Level (sanitize st), rs_To = cs_Level st',
            rs_CleanRunCount = cs_CleanRunCount st', rs_NoticeRunCount = cs_NoticeRunCount st',
            rs_Threshold = eff_threshold th, rs_NoticeThresh = eff_notice nt,
            rs_Promoted = promoted, rs_Demoted = demoted, rs_CeilingHeld = held\<rparr>))"
  by (simp add: applyOutcome_def eff_threshold_def eff_notice_def Let_def split: prod.split)

lemma outcome_step_level:
  assumes "level_valid (cs_Level st)" and "outcome_step reg th nt oc st = (st', promoted, demoted, held)"
  shows "level_valid (cs_Level st') \<and> cs_OpClass st' = cs_OpClass st \<and> cs_Version st' = cs_Version st
    \<and> (promoted \<longleftrightarrow> cs_Level st' > cs_Level st) \<and> cs_Level st' \<le> cs_Level st + 1
    \<and> (cs_Level st' > cs_Level st \<longrightarrow> oc = OutcomeVerifiedClean \<and> \<not> tierForbidsAuto reg (cs_OpClass st)
        \<and> (cs_Level st' = LevelAuto \<longrightarrow> IsEmbedded reg (cs_OpClass st)))
    \<and> (oc = OutcomeDeviated \<longrightarrow> cs_Level st' = LevelApprove \<and> cs_CleanRunCount st' = 0 \<and> cs_NoticeRunCount st' = 0)"
  using assms unfolding outcome_step_def Let_def level_valid_def
  by (auto split: if_splits simp: tg_consts)

section \<open>Earning autonomy\<close>

definition climb :: "opregistry \<Rightarrow> int \<Rightarrow> int \<Rightarrow> outcome list \<Rightarrow> ClassState \<Rightarrow> ClassState" where
  "climb reg th nt os st = fold (\<lambda>oc st. fst (applyOutcome reg st oc th nt)) os st"

text \<open>The clean runs since the last deviation.\<close>

definition clean_since_deviation :: "outcome list \<Rightarrow> nat" where
  "clean_since_deviation os =
     length (filter (\<lambda>oc. oc = OutcomeVerifiedClean) (takeWhile (\<lambda>oc. oc \<noteq> OutcomeDeviated) (rev os)))"

lemma clean_since_snoc:
  "clean_since_deviation (os @ [oc]) =
     (if oc = OutcomeDeviated then 0 else clean_since_deviation os + (if oc = OutcomeVerifiedClean then 1 else 0))"
  by (simp add: clean_since_deviation_def)

definition earned :: "opregistry \<Rightarrow> int \<Rightarrow> int \<Rightarrow> string \<Rightarrow> outcome list \<Rightarrow> ClassState \<Rightarrow> bool" where
  "earned reg th nt op os st \<longleftrightarrow>
     cs_OpClass st = op \<and> level_valid (cs_Level st) \<and> 0 \<le> cs_CleanRunCount st \<and> 0 \<le> cs_NoticeRunCount st
     \<and> (cs_Level st = LevelApprove \<longrightarrow> cs_CleanRunCount st \<le> int (clean_since_deviation os))
     \<and> (cs_Level st = LevelAutoNotice \<longrightarrow> th + cs_NoticeRunCount st \<le> int (clean_since_deviation os))
     \<and> (cs_Level st = LevelAuto \<longrightarrow> th + nt \<le> int (clean_since_deviation os) \<and> IsEmbedded reg op)
     \<and> (cs_Level st \<noteq> LevelApprove \<longrightarrow> \<not> tierForbidsAuto reg op)"

lemma sanitize_id: "level_valid (cs_Level st) \<Longrightarrow> 0 \<le> cs_CleanRunCount st \<Longrightarrow> 0 \<le> cs_NoticeRunCount st \<Longrightarrow> sanitize st = st"
  by (simp add: sanitize_def)

lemma earned_step:
  assumes "earned reg (eff_threshold th) (eff_notice nt) op os st"
  shows "earned reg (eff_threshold th) (eff_notice nt) op (os @ [oc]) (fst (applyOutcome reg st oc th nt))"
proof -
  have s: "sanitize st = st" using assms by (intro sanitize_id) (auto simp: earned_def)
  have l: "level_valid (cs_Level st)" using assms by (simp add: earned_def)
  show ?thesis
    using assms eff_pos [of th] eff_pos [of nt] l
    unfolding applyOutcome_eq s outcome_step_def Let_def earned_def clean_since_snoc level_valid_def
    by (auto split: if_splits)
qed

lemma earned_climb:
  "earned reg (eff_threshold th) (eff_notice nt) op os (climb reg th nt os (fresh_class op))"
proof (induction os rule: rev_induct)
  case Nil
  then show ?case by (simp add: earned_def climb_def fresh_class_def level_valid_def clean_since_deviation_def)
next
  case (snoc oc os)
  from earned_step [OF this] show ?case by (simp add: climb_def)
qed

section \<open>Recording on a shared store\<close>

text \<open>What a recorder needs from its store: a reported success means the state is stored.\<close>

locale graduation_store =
  fixes store :: "'st gstore"
    and level_in :: "'st \<Rightarrow> string \<Rightarrow> level option"
  assumes save_stores: "gs_save store db st = (db', None) \<Longrightarrow> level_valid (cs_Level st) \<Longrightarrow>
      level_in db' (cs_OpClass st) = Some (cs_Level st)"
begin

lemma loadFresh_class:
  assumes "loadFreshLocked (Some store) op l db = (cur, l1, db1)"
  shows "cs_OpClass cur = op \<and> level_valid (cs_Level cur) \<and> sanitize cur = cur"
  using assms unfolding loadFreshLocked_def Let_def
  by (auto simp: fresh_class_def level_valid_def sanitize_def split: prod.splits sum.splits if_splits)

lemma record_loop_persists:
  assumes "record_loop reg (Some store) env op oc n k l db = ((res, err), l', db')"
  shows "(rs_Promoted res \<longrightarrow> err = None)
    \<and> (err = None \<longrightarrow> level_in db' op = Some (rs_To res) \<and> (rs_Promoted res \<longleftrightarrow> rs_From res < rs_To res))
    \<and> (err \<noteq> None \<longrightarrow> rs_To res \<le> rs_From res)
    \<and> (\<exists>st. la_states l' op = Some st \<and> cs_Level st = rs_To res)
    \<and> (oc = OutcomeDeviated \<longrightarrow> rs_To res = LevelApprove)"
  using assms
proof (induction n arbitrary: k l db)
  case (0 k l db)
  obtain cur l1 db1 where ld: "loadFreshLocked (Some store) op l (env (2 * k) db) = (cur, l1, db1)" by (metis prod.exhaust)
  note lc = loadFresh_class [OF ld]
  obtain next' pr de he where os: "outcome_step reg (eff_threshold (thresholdForLocked l1 op)) (eff_notice (la_noticeThreshold l1)) oc cur = (next', pr, de, he)"
    by (metis prod.exhaust)
  note lev = outcome_step_level [OF _ os]
  obtain db2 e where sv: "gs_save store (env (2 * k + 1) db1) (next'\<lparr>cs_LastOutcome := oc\<rparr>) = (db2, e)" by (metis prod.exhaust)
  show ?case
    using 0 ld lc os lev sv save_stores [of "env (2 * k + 1) db1" "next'\<lparr>cs_LastOutcome := oc\<rparr>" db2]
    by (subst (asm) record_loop.simps)
      (auto simp: applyOutcome_eq cache_def Let_def split: option.splits grad_error.splits if_splits)
next
  case (Suc n k l db)
  obtain cur l1 db1 where ld: "loadFreshLocked (Some store) op l (env (2 * k) db) = (cur, l1, db1)" by (metis prod.exhaust)
  note lc = loadFresh_class [OF ld]
  obtain next' pr de he where os: "outcome_step reg (eff_threshold (thresholdForLocked l1 op)) (eff_notice (la_noticeThreshold l1)) oc cur = (next', pr, de, he)"
    by (metis prod.exhaust)
  note lev = outcome_step_level [OF _ os]
  obtain db2 e where sv: "gs_save store (env (2 * k + 1) db1) (next'\<lparr>cs_LastOutcome := oc\<rparr>) = (db2, e)" by (metis prod.exhaust)
  show ?case
  proof (cases "\<exists>c. e = Some (ErrConcurrentModification c)")
    case True
    then have "record_loop reg (Some store) env op oc n (Suc k) (Forget op l1) db2 = ((res, err), l', db')"
      using Suc.prems ld lc os sv by (subst (asm) record_loop.simps) (auto simp: applyOutcome_eq Let_def)
    then show ?thesis by (rule Suc.IH)
  next
    case False
    then show ?thesis
      using Suc.prems ld lc os lev sv save_stores [of "env (2 * k + 1) db1" "next'\<lparr>cs_LastOutcome := oc\<rparr>" db2]
      by (subst (asm) record_loop.simps)
        (auto simp: applyOutcome_eq cache_def Let_def split: option.splits grad_error.splits if_splits)
  qed
qed

end

definition pg_level :: "grad_table \<Rightarrow> string \<Rightarrow> level option" where
  "pg_level t op = Option.bind (pt_rows t op) (\<lambda>r. parseLevel (gr_level r))"

interpretation pg_grad: graduation_store PolicyGraduationStore pg_level
  by unfold_locales
    (auto simp: PolicyGraduationStore_def pg_grad_Save_def pt_faulty_def pg_level_def row_of_state_def parse_level_string
      split: option.splits if_splits list.splits prod.splits)

interpretation mem_grad: graduation_store MemGraduationStore "\<lambda>s op. map_option cs_Level (mg_states s op)"
  by unfold_locales
    (auto simp: MemGraduationStore_def mem_grad_Save_def split: option.splits if_splits)

section \<open>Properties\<close>

text \<open>
  Autonomy is earned one rung at a time: a run moves a class up by at most one level, and only a
  verified-clean run of a class whose tier allows autonomy moves it up at all; the silent level is
  reached only by a class of the embedded registry; a deviation always drops the class to approve
  and resets both climbs. The result flags a promotion exactly when the level rose.
\<close>

theorem one_rung_at_a_time:
  assumes "applyOutcome reg st oc th nt = (st', res)" and "level_valid (cs_Level st)"
  shows "cs_Level st' \<le> cs_Level st + 1 \<and> level_valid (cs_Level st')
    \<and> (cs_Level st' > cs_Level st \<longrightarrow> oc = OutcomeVerifiedClean \<and> \<not> tierForbidsAuto reg (cs_OpClass st)
        \<and> (cs_Level st' = LevelAuto \<longrightarrow> IsEmbedded reg (cs_OpClass st)))
    \<and> (rs_Promoted res \<longleftrightarrow> cs_Level st' > cs_Level st)
    \<and> (oc = OutcomeDeviated \<longrightarrow> cs_Level st' = LevelApprove \<and> cs_CleanRunCount st' = 0 \<and> cs_NoticeRunCount st' = 0)"
proof -
  obtain s' pr de he where os: "outcome_step reg (eff_threshold th) (eff_notice nt) oc (sanitize st) = (s', pr, de, he)"
    by (metis prod.exhaust)
  have l: "cs_Level (sanitize st) = cs_Level st" using assms(2) by (simp add: sanitize_def)
  have "st' = s'\<lparr>cs_LastOutcome := oc\<rparr>" "rs_Promoted res = pr" using assms(1) os by (auto simp: applyOutcome_eq)
  with outcome_step_level [OF _ os] l assms(2) show ?thesis by simp
qed


text \<open>
  C10. No autonomy on state that would vanish. Recording a run on the Postgres table, with statements
  that fail and sibling workers writing the same row between them: a reported promotion has been
  stored at the level it reports; a run whose save failed never raises the level this process acts
  on; and after a deviation this process is at approve, stored or not.
\<close>

theorem promotion_is_persisted:
  assumes "Record reg (Some PolicyGraduationStore) env op oc l db = ((res, err), l', db')"
  shows "(rs_Promoted res \<longrightarrow> err = None \<and> pg_level db' op = Some (rs_To res))
    \<and> (err \<noteq> None \<longrightarrow> rs_To res \<le> rs_From res)
    \<and> (\<exists>st. la_states l' op = Some st \<and> cs_Level st = rs_To res)
    \<and> (oc = OutcomeDeviated \<longrightarrow> rs_To res = LevelApprove)"
  using pg_grad.record_loop_persists [OF assms [unfolded Record_def]] by blast

section \<open>Concrete ladders\<close>

definition demo_reg :: opregistry where
  "demo_reg = \<lparr>or_embedded = [''restart-service'' \<mapsto> ''low-reversible''], or_overlay = [''drop-cache'' \<mapsto> ''medium'']\<rparr>"

definition auto_row :: grad_row where
  "auto_row = \<lparr>gr_level = ''auto'', gr_clean = 0, gr_notice = 0, gr_outcome = ''verified_clean'', gr_version = 3\<rparr>"

definition demo_grad_table :: "bool list \<Rightarrow> grad_table" where
  "demo_grad_table fs = \<lparr>pt_rows = [''restart-service'' \<mapsto> auto_row], pt_faults = fs\<rparr>"

theorem one_rung_at_a_time_witness:
  "cs_Level (fst (applyOutcome demo_reg ((fresh_class ''restart-service'')\<lparr>cs_CleanRunCount := 4\<rparr>) OutcomeVerifiedClean 5 10))
     = LevelAutoNotice
   \<and> rs_Promoted (snd (applyOutcome demo_reg ((fresh_class ''restart-service'')\<lparr>cs_CleanRunCount := 4\<rparr>) OutcomeVerifiedClean 5 10))"
proof -
  let ?st = "(fresh_class ''restart-service'')\<lparr>cs_CleanRunCount := 4\<rparr>"
  have lvl: "cs_Level (fst (applyOutcome demo_reg ?st OutcomeVerifiedClean 5 10)) = LevelAutoNotice" by code_simp
  moreover have "level_valid (cs_Level ?st)" by code_simp
  moreover have "cs_Level ?st < LevelAutoNotice" by code_simp
  ultimately show ?thesis
    using one_rung_at_a_time [of demo_reg ?st OutcomeVerifiedClean 5 10
        "fst (applyOutcome demo_reg ?st OutcomeVerifiedClean 5 10)" "snd (applyOutcome demo_reg ?st OutcomeVerifiedClean 5 10)"]
    by simp
qed


theorem promotion_is_persisted_witness:
  "\<exists>res err l' db'. Record demo_reg (Some PolicyGraduationStore) (\<lambda>_ x. x) ''restart-service'' OutcomeDeviated (NewLadder 5)
      (demo_grad_table [False, True]) = ((res, err), l', db') \<and> rs_To res = LevelApprove"
proof -
  obtain res err l' db' where r: "Record demo_reg (Some PolicyGraduationStore) (\<lambda>_ x. x) ''restart-service'' OutcomeDeviated (NewLadder 5)
      (demo_grad_table [False, True]) = ((res, err), l', db')" by (metis prod.exhaust)
  with promotion_is_persisted [OF r] show ?thesis by blast
qed

section \<open>A demotion that is not stored does not last\<close>

text \<open>
  A deviation whose save fails is applied in memory only. The next recorded run reads the durable
  row again, which still says auto, and the class acts on its own again although no clean run was
  counted after the deviation: the loss of one statement undoes the demotion.
\<close>

theorem unsaved_demotion_is_undone:
  "\<exists>r1 e1 l1 db1 r2 l2 db2.
     Record demo_reg (Some PolicyGraduationStore) (\<lambda>_ x. x) ''restart-service'' OutcomeDeviated (NewLadder 5)
       (demo_grad_table [False, True]) = ((r1, Some e1), l1, db1)
     \<and> rs_Demoted r1 \<and> fst (GraduatedVerdict demo_reg (Some PolicyGraduationStore) ''restart-service'' VerdictAuto l1 db1) = VerdictApprove
     \<and> Record demo_reg (Some PolicyGraduationStore) (\<lambda>_ x. x) ''restart-service'' OutcomeUnverified l1 db1 = ((r2, None), l2, db2)
     \<and> fst (GraduatedVerdict demo_reg (Some PolicyGraduationStore) ''restart-service'' VerdictAuto l2 db2) = VerdictAuto"
proof -
  let ?x = "Record demo_reg (Some PolicyGraduationStore) (\<lambda>_ x. x) ''restart-service'' OutcomeDeviated (NewLadder 5)
       (demo_grad_table [False, True])"
  let ?y = "Record demo_reg (Some PolicyGraduationStore) (\<lambda>_ x. x) ''restart-service'' OutcomeUnverified
       (fst (snd ?x)) (snd (snd ?x))"
  have 1: "snd (fst ?x) \<noteq> None" by code_simp
  have 2: "rs_Demoted (fst (fst ?x))" by code_simp
  have 3: "fst (GraduatedVerdict demo_reg (Some PolicyGraduationStore) ''restart-service'' VerdictAuto (fst (snd ?x)) (snd (snd ?x))) = VerdictApprove"
    by code_simp
  have 4: "snd (fst ?y) = None" by code_simp
  have 5: "fst (GraduatedVerdict demo_reg (Some PolicyGraduationStore) ''restart-service'' VerdictAuto (fst (snd ?y)) (snd (snd ?y))) = VerdictAuto"
    by code_simp
  obtain r1 e1 l1 db1 where x: "?x = ((r1, e1), l1, db1)" by (metis prod.exhaust)
  obtain r2 e2 l2 db2 where y: "?y = ((r2, e2), l2, db2)" by (metis prod.exhaust)
  from 1 2 3 4 5 show ?thesis unfolding y unfolding x by (auto simp: y [unfolded x, simplified])
qed

end
