(* ===== verification/Breaker.thy ===== *)
theory Breaker
  imports Safety
begin

text \<open>
  The circuit breaker, \<^verbatim>\<open>core/breaker/\<close>, its Postgres store, \<^verbatim>\<open>core/db/breaker_read.go\<close> and
  \<^verbatim>\<open>core/db/breaker_write.go\<close>, and the mutation breaker built on it,
  \<^verbatim>\<open>core/safety/mutation_breaker.go\<close>.

  A breaker's methods hold its mutex, so each is one step. \<open>clock k\<close> is the \<open>k\<close>-th reading of the
  breaker's clock within a call. A store is a record of functions over its own state; the methods
  are generic in it and their laws are stated for any store that meets the contract below.
\<close>

section \<open>Records and stores\<close>

type_synonym bstate = string

definition StateClosed :: bstate where [tg_consts]: "StateClosed = ''closed''"
definition StateOpen :: bstate where [tg_consts]: "StateOpen = ''open''"
definition StateHalfOpen :: bstate where [tg_consts]: "StateHalfOpen = ''half_open''"

record BRecord =
  br_Name :: string
  br_State :: bstate
  br_FailureCount :: int
  br_OpenedAt :: instant
  br_HalfOpenSuccesses :: int
  br_LastTransitionAt :: instant
  br_LastUpdatedAt :: instant

definition fresh_record :: "string \<Rightarrow> bstate \<Rightarrow> BRecord" where
  "fresh_record name s =
     \<lparr>br_Name = name, br_State = s, br_FailureCount = 0, br_OpenedAt = 0, br_HalfOpenSuccesses = 0,
      br_LastTransitionAt = 0, br_LastUpdatedAt = 0\<rparr>"

datatype breaker_error = BStoreError string | ErrOpen string | ErrInvalidName string | ErrNilStore | FnError string

record 'st bstore =
  bs_load :: "'st \<Rightarrow> string \<Rightarrow> 'st \<times> (breaker_error + BRecord option)"
  bs_save :: "'st \<Rightarrow> BRecord \<Rightarrow> 'st \<times> breaker_error option"
  bs_compareAndOpen :: "('st \<Rightarrow> string \<Rightarrow> instant \<Rightarrow> 'st \<times> (breaker_error + bool)) option"

record 'st Breaker =
  bk_name :: string
  bk_failureThreshold :: int
  bk_cooldown :: duration
  bk_halfOpenNeeded :: int
  bk_store :: "'st bstore"

datatype boption = WithThreshold int | WithCooldown duration | WithHalfOpenSuccesses int

fun apply_boption :: "boption \<Rightarrow> 'st Breaker \<Rightarrow> 'st Breaker" where
  "apply_boption (WithThreshold n) b = b\<lparr>bk_failureThreshold := n\<rparr>"
| "apply_boption (WithCooldown d) b = b\<lparr>bk_cooldown := d\<rparr>"
| "apply_boption (WithHalfOpenSuccesses n) b = b\<lparr>bk_halfOpenNeeded := n\<rparr>"

definition name_char :: "char \<Rightarrow> bool" where
  "name_char c \<longleftrightarrow>
     list_ex (\<lambda>(lo, hi). lo \<le> c \<and> c \<le> hi) [(CHR ''a'', CHR ''z''), (CHR ''A'', CHR ''Z''), (CHR ''0'', CHR ''9'')]
     \<or> c \<in> {CHR ''_'', CHR ''-''}"

definition validName :: "string \<Rightarrow> bool" where
  "validName s \<longleftrightarrow> (if s = [] then False else list_all name_char s)"

definition New_breaker :: "string \<Rightarrow> 'st bstore option \<Rightarrow> boption list \<Rightarrow> breaker_error + 'st Breaker" where
  "New_breaker name store opts =
     (if \<not> validName name then Inl (ErrInvalidName name)
      else case store of
        None \<Rightarrow> Inl ErrNilStore
      | Some st \<Rightarrow>
          (let b = \<lparr>bk_name = name, bk_failureThreshold = 3, bk_cooldown = 60 * 1000000000,
                    bk_halfOpenNeeded = 1, bk_store = st\<rparr>;
               b = fold apply_boption opts b;
               b = (if bk_failureThreshold b < 1 then b\<lparr>bk_failureThreshold := 1\<rparr> else b);
               b = (if bk_halfOpenNeeded b < 1 then b\<lparr>bk_halfOpenNeeded := 1\<rparr> else b)
           in Inr b))"

section \<open>Operations\<close>

definition bload :: "'st Breaker \<Rightarrow> 'st \<Rightarrow> 'st \<times> (breaker_error + BRecord)" where
  "bload b st =
     (case bs_load (bk_store b) st (bk_name b) of
        (st', Inl e) \<Rightarrow> (st', Inl e)
      | (st', Inr None) \<Rightarrow> (st', Inr (fresh_record (bk_name b) StateClosed))
      | (st', Inr (Some rec)) \<Rightarrow>
          (st', Inr (if br_State rec = [] then rec\<lparr>br_State := StateClosed\<rparr> else rec)))"

definition transition :: "instant \<Rightarrow> bstate \<Rightarrow> BRecord \<Rightarrow> BRecord" where
  "transition now newState rec =
     (let rec = rec\<lparr>br_State := newState, br_LastTransitionAt := now, br_LastUpdatedAt := now\<rparr> in
      if newState = StateClosed
        then rec\<lparr>br_FailureCount := 0, br_OpenedAt := 0, br_HalfOpenSuccesses := 0\<rparr>
      else if newState = StateOpen then rec\<lparr>br_OpenedAt := now, br_HalfOpenSuccesses := 0\<rparr>
      else if newState = StateHalfOpen then rec\<lparr>br_HalfOpenSuccesses := 0\<rparr>
      else rec)"

definition Allow :: "'st Breaker \<Rightarrow> (nat \<Rightarrow> instant) \<Rightarrow> 'st \<Rightarrow> 'st \<times> bool \<times> breaker_error option" where
  "Allow b clock st =
     (case bload b st of
        (st', Inl e) \<Rightarrow> (st', True, Some e)
      | (st', Inr rec) \<Rightarrow>
          if br_State rec = StateClosed then (st', True, None)
          else if br_State rec = StateOpen then
            (if br_OpenedAt rec = 0 \<or> time_sub (clock 0) (br_OpenedAt rec) > bk_cooldown b
             then (case bs_save (bk_store b) st' (transition (clock 1) StateHalfOpen rec) of
                     (st'', e) \<Rightarrow> (st'', True, e))
             else (st', False, None))
          else (st', True, None))"

definition RecordSuccess :: "'st Breaker \<Rightarrow> (nat \<Rightarrow> instant) \<Rightarrow> 'st \<Rightarrow> 'st \<times> breaker_error option" where
  "RecordSuccess b clock st =
     (case bload b st of
        (st', Inl e) \<Rightarrow> (st', Some e)
      | (st', Inr rec) \<Rightarrow>
          if br_State rec = StateHalfOpen then
            (let rec = rec\<lparr>br_HalfOpenSuccesses := br_HalfOpenSuccesses rec + 1\<rparr>;
                 rec = (if br_HalfOpenSuccesses rec \<ge> bk_halfOpenNeeded b
                        then transition (clock 0) StateClosed rec else rec)
             in bs_save (bk_store b) st' rec)
          else if br_State rec = StateClosed then
            (if br_FailureCount rec > 0 then bs_save (bk_store b) st' (rec\<lparr>br_FailureCount := 0\<rparr>) else (st', None))
          else (st', None))"

definition RecordFailure :: "'st Breaker \<Rightarrow> (nat \<Rightarrow> instant) \<Rightarrow> 'st \<Rightarrow> 'st \<times> breaker_error option" where
  "RecordFailure b clock st =
     (case bload b st of
        (st', Inl e) \<Rightarrow> (st', Some e)
      | (st', Inr rec) \<Rightarrow>
          if br_State rec = StateHalfOpen
            then bs_save (bk_store b) st' (transition (clock 0) StateOpen rec)
          else if br_State rec = StateClosed then
            (let rec = rec\<lparr>br_FailureCount := br_FailureCount rec + 1\<rparr>;
                 rec = (if br_FailureCount rec \<ge> bk_failureThreshold b
                        then transition (clock 0) StateOpen rec else rec)
             in bs_save (bk_store b) st' rec)
          else (st', None))"

definition Snapshot :: "'st Breaker \<Rightarrow> 'st \<Rightarrow> 'st \<times> (breaker_error + BRecord)" where
  "Snapshot b st = bload b st"

definition Reset :: "'st Breaker \<Rightarrow> (nat \<Rightarrow> instant) \<Rightarrow> 'st \<Rightarrow> 'st \<times> breaker_error option" where
  "Reset b clock st =
     (case bload b st of
        (st', Inl e) \<Rightarrow> (st', Some e)
      | (st', Inr rec) \<Rightarrow>
          if br_State rec = StateClosed \<and> br_FailureCount rec = 0 then (st', None)
          else bs_save (bk_store b) st' (transition (clock 0) StateClosed rec))"

definition TripOpen :: "'st Breaker \<Rightarrow> (nat \<Rightarrow> instant) \<Rightarrow> 'st \<Rightarrow> 'st \<times> (breaker_error + bool)" where
  "TripOpen b clock st =
     (case bs_compareAndOpen (bk_store b) of
        Some cao \<Rightarrow> cao st (bk_name b) (clock 0)
      | None \<Rightarrow>
          (case bload b st of
             (st', Inl e) \<Rightarrow> (st', Inl e)
           | (st', Inr rec) \<Rightarrow>
               if br_State rec = StateOpen then (st', Inr False)
               else case bs_save (bk_store b) st' (transition (clock 0) StateOpen rec) of
                 (st'', Some e) \<Rightarrow> (st'', Inl e)
               | (st'', None) \<Rightarrow> (st'', Inr True)))"

text \<open>\<^verbatim>\<open>Guard\<close>: the guarded call \<open>fn\<close> works on its own world.\<close>

definition Guard ::
    "'st Breaker \<Rightarrow> (nat \<Rightarrow> nat \<Rightarrow> instant) \<Rightarrow> ('w \<Rightarrow> 'w \<times> breaker_error option) \<Rightarrow> 'st \<Rightarrow> 'w
     \<Rightarrow> 'st \<times> 'w \<times> breaker_error option" where
  "Guard b clocks fn st w =
     (case Allow b (clocks 0) st of
        (st', _, Some _) \<Rightarrow> (case fn w of (w', e) \<Rightarrow> (st', w', e))
      | (st', allowed, None) \<Rightarrow>
          if \<not> allowed then (st', w, Some (ErrOpen (bk_name b)))
          else case fn w of
            (w', Some ferr) \<Rightarrow> (case RecordFailure b (clocks 1) st' of (st'', _) \<Rightarrow> (st'', w', Some ferr))
          | (w', None) \<Rightarrow> (case RecordSuccess b (clocks 1) st' of (st'', e) \<Rightarrow> (st'', w', e)))"

definition StateValue :: "bstate \<Rightarrow> int" where
  "StateValue s =
     (let k = norm_key s in
      if k = StateClosed \<or> k = [] then 0
      else if k = StateHalfOpen then 1
      else if k = StateOpen then 2
      else -1)"

section \<open>The in-memory store\<close>

type_synonym memstore = "string \<rightharpoonup> BRecord"

definition mem_Load :: "memstore \<Rightarrow> string \<Rightarrow> memstore \<times> (breaker_error + BRecord option)" where
  "mem_Load m name = (m, Inr (m name))"

definition mem_Save :: "memstore \<Rightarrow> BRecord \<Rightarrow> memstore \<times> breaker_error option" where
  "mem_Save m rec = (m(br_Name rec \<mapsto> rec), None)"

definition opened_record :: "string \<Rightarrow> int \<Rightarrow> instant \<Rightarrow> BRecord" where
  "opened_record name failures now =
     \<lparr>br_Name = name, br_State = StateOpen, br_FailureCount = failures, br_OpenedAt = now,
      br_HalfOpenSuccesses = 0, br_LastTransitionAt = now, br_LastUpdatedAt = now\<rparr>"

definition mem_CompareAndOpen :: "memstore \<Rightarrow> string \<Rightarrow> instant \<Rightarrow> memstore \<times> (breaker_error + bool)" where
  "mem_CompareAndOpen m name now =
     (if (case m name of Some rec \<Rightarrow> br_State rec = StateOpen | None \<Rightarrow> False) then (m, Inr False)
      else
        (let failures = (case m name of Some prev \<Rightarrow> br_FailureCount prev | None \<Rightarrow> 0) in
         (m(name \<mapsto> opened_record name (failures + 1) now), Inr True)))"

definition MemStore :: "memstore bstore" where
  "MemStore = \<lparr>bs_load = mem_Load, bs_save = mem_Save, bs_compareAndOpen = Some mem_CompareAndOpen\<rparr>"

section \<open>The Postgres store\<close>

text \<open>
  The table \<^verbatim>\<open>mutation_breaker_state\<close>, keyed by name. \<open>bt_faults\<close> scripts the statements that
  fail; \<open>bt_now\<close> is the database's own clock, which stamps \<^verbatim>\<open>last_updated_at\<close>.
\<close>

record breaker_table =
  bt_rows :: "string \<rightharpoonup> BRecord"
  bt_faults :: "bool list"
  bt_now :: instant

definition bt_faulty :: "breaker_table \<Rightarrow> bool \<times> breaker_table" where
  "bt_faulty t = (case bt_faults t of [] \<Rightarrow> (False, t) | f # fs \<Rightarrow> (f, t\<lparr>bt_faults := fs\<rparr>))"

definition pg_Load :: "breaker_table \<Rightarrow> string \<Rightarrow> breaker_table \<times> (breaker_error + BRecord option)" where
  "pg_Load t name =
     (case bt_faulty t of (bad, t1) \<Rightarrow>
        if bad then (t1, Inl (BStoreError ''load'')) else (t1, Inr (bt_rows t1 name)))"

definition pg_Save :: "breaker_table \<Rightarrow> BRecord \<Rightarrow> breaker_table \<times> breaker_error option" where
  "pg_Save t rec =
     (case bt_faulty t of (bad, t1) \<Rightarrow>
        if bad then (t1, Some (BStoreError ''upsert''))
        else (t1\<lparr>bt_rows := (bt_rows t1)(br_Name rec \<mapsto> rec\<lparr>br_LastUpdatedAt := bt_now t1\<rparr>)\<rparr>, None))"

definition pg_CompareAndOpen :: "breaker_table \<Rightarrow> string \<Rightarrow> instant \<Rightarrow> breaker_table \<times> (breaker_error + bool)" where
  "pg_CompareAndOpen t name now =
     (case bt_faulty t of (bad, t1) \<Rightarrow>
        if bad then (t1, Inl (BStoreError ''compare-and-open''))
        else case bt_rows t1 name of
          None \<Rightarrow>
            (t1\<lparr>bt_rows := (bt_rows t1)(name \<mapsto> (opened_record name 1 now)\<lparr>br_LastUpdatedAt := bt_now t1\<rparr>)\<rparr>, Inr True)
        | Some rec \<Rightarrow>
            if br_State rec \<noteq> StateOpen
            then (t1\<lparr>bt_rows := (bt_rows t1)(name \<mapsto>
                    (opened_record name (br_FailureCount rec + 1) now)\<lparr>br_LastUpdatedAt := bt_now t1\<rparr>)\<rparr>, Inr True)
            else (t1, Inr False))"

definition BreakerStore :: "breaker_table bstore" where
  "BreakerStore = \<lparr>bs_load = pg_Load, bs_save = pg_Save, bs_compareAndOpen = Some pg_CompareAndOpen\<rparr>"

section \<open>The mutation breaker\<close>

text \<open>
  The forcer and the trip recorder act on a world of their own; \<^const>\<open>None\<close> for the breaker is the
  nil receiver, for the recorder an absent one.
\<close>

record ('st, 'm) MutationBreaker =
  mb_b :: "'st Breaker"
  mb_forcer :: "'m \<Rightarrow> string \<Rightarrow> 'm"
  mb_rec :: "('m \<Rightarrow> string \<Rightarrow> 'm) option"

record ('st, 'm) mb_world =
  mw_store :: 'st
  mw_mode :: 'm
  mw_deviations :: int

definition NewMutationBreaker ::
    "('m \<Rightarrow> string \<Rightarrow> 'm) option \<Rightarrow> 'st bstore option \<Rightarrow> int \<Rightarrow> ('m \<Rightarrow> string \<Rightarrow> 'm) option
     \<Rightarrow> (breaker_error option) + ('st, 'm) MutationBreaker" where
  "NewMutationBreaker forcer store threshold rec =
     (case forcer of
        None \<Rightarrow> Inl None
      | Some f \<Rightarrow>
          (let threshold = (if threshold < 1 then 1 else threshold) in
           case New_breaker ''mutation'' store [WithThreshold threshold] of
             Inl e \<Rightarrow> Inl (Some e)
           | Inr b \<Rightarrow> Inr \<lparr>mb_b = b, mb_forcer = f, mb_rec = rec\<rparr>))"

definition recordTrip :: "('st, 'm) MutationBreaker \<Rightarrow> string \<Rightarrow> 'm \<Rightarrow> 'm" where
  "recordTrip mb reason m = (case mb_rec mb of None \<Rightarrow> m | Some r \<Rightarrow> r m reason)"

definition kill :: "('st, 'm) MutationBreaker \<Rightarrow> string \<Rightarrow> 'm \<Rightarrow> 'm" where
  "kill mb reason m = recordTrip mb reason (mb_forcer mb m reason)"

definition Trip ::
    "('st, 'm) MutationBreaker option \<Rightarrow> (nat \<Rightarrow> instant) \<Rightarrow> string \<Rightarrow> ('st, 'm) mb_world
     \<Rightarrow> ('st, 'm) mb_world \<times> bool \<times> breaker_error option" where
  "Trip mbo clock reason w =
     (case mbo of
        None \<Rightarrow> (w, False, None)
      | Some mb \<Rightarrow>
          (let w = w\<lparr>mw_deviations := mw_deviations w + 1\<rparr> in
           case RecordFailure (mb_b mb) clock (mw_store w) of
             (st, Some ferr) \<Rightarrow>
               (w\<lparr>mw_store := st, mw_mode := kill mb (reason @ '' (breaker store error)'') (mw_mode w)\<rparr>, True, Some ferr)
           | (st, None) \<Rightarrow>
               (case Snapshot (mb_b mb) st of
                  (st', Inl serr) \<Rightarrow> (w\<lparr>mw_store := st', mw_mode := kill mb reason (mw_mode w)\<rparr>, True, Some serr)
                | (st', Inr snap) \<Rightarrow>
                    if br_State snap = StateOpen
                    then (w\<lparr>mw_store := st', mw_mode := kill mb reason (mw_mode w)\<rparr>, True, None)
                    else (w\<lparr>mw_store := st'\<rparr>, False, None))))"

definition Rearm ::
    "('st, 'm) MutationBreaker option \<Rightarrow> (nat \<Rightarrow> instant) \<Rightarrow> ('st, 'm) mb_world
     \<Rightarrow> ('st, 'm) mb_world \<times> breaker_error option" where
  "Rearm mbo clock w =
     (case mbo of
        None \<Rightarrow> (w, None)
      | Some mb \<Rightarrow>
          (case Reset (mb_b mb) clock (mw_store w) of
             (st, Some e) \<Rightarrow> (w\<lparr>mw_store := st\<rparr>, Some e)
           | (st, None) \<Rightarrow> (w\<lparr>mw_store := st, mw_deviations := 0\<rparr>, None)))"

definition mb_State :: "('st, 'm) MutationBreaker option \<Rightarrow> 'st \<Rightarrow> 'st \<times> bstate" where
  "mb_State mbo st =
     (case mbo of
        None \<Rightarrow> (st, StateClosed)
      | Some mb \<Rightarrow>
          (case Snapshot (mb_b mb) st of
             (st', Inl _) \<Rightarrow> (st', StateOpen)
           | (st', Inr snap) \<Rightarrow> (st', br_State snap)))"

definition Tripped :: "('st, 'm) MutationBreaker option \<Rightarrow> 'st \<Rightarrow> 'st \<times> bool" where
  "Tripped mbo st =
     (case mbo of
        None \<Rightarrow> (st, False)
      | Some mb \<Rightarrow> (case mb_State (Some mb) st of (st', s) \<Rightarrow> (st', s = StateOpen)))"

definition mb_StateValue :: "('st, 'm) MutationBreaker option \<Rightarrow> 'st \<Rightarrow> 'st \<times> int" where
  "mb_StateValue mbo st = (case mb_State mbo st of (st', s) \<Rightarrow> (st', StateValue s))"

definition Deviations :: "('st, 'm) MutationBreaker option \<Rightarrow> ('st, 'm) mb_world \<Rightarrow> int" where
  "Deviations mbo w = (case mbo of None \<Rightarrow> 0 | Some _ \<Rightarrow> mw_deviations w)"

section \<open>The abstract breaker\<close>

text \<open>
  What a breaker promises, without stores and records: consecutive failures counted while closed,
  the time it opened, successful probes counted while half open. \<open>Odd\<close> stands for a row whose
  state is none of the three.
\<close>

datatype phase = Closed int | Open instant | HalfOpen int | Odd

datatype bop = DoFail instant | DoSuccess instant | DoAllow instant instant | DoReset instant | DoTrip instant

fun a_step :: "int \<Rightarrow> int \<Rightarrow> duration \<Rightarrow> bop \<Rightarrow> phase \<Rightarrow> phase" where
  "a_step th need cd (DoFail now) (Closed n) = (if n + 1 \<ge> th then Open now else Closed (n + 1))"
| "a_step th need cd (DoFail now) (HalfOpen k) = Open now"
| "a_step th need cd (DoFail now) p = p"
| "a_step th need cd (DoSuccess now) (Closed n) = Closed 0"
| "a_step th need cd (DoSuccess now) (HalfOpen k) = (if k + 1 \<ge> need then Closed 0 else HalfOpen (k + 1))"
| "a_step th need cd (DoSuccess now) p = p"
| "a_step th need cd (DoAllow now now') (Open t) = (if t = 0 \<or> time_sub now t > cd then HalfOpen 0 else Open t)"
| "a_step th need cd (DoAllow now now') p = p"
| "a_step th need cd (DoReset now) p = Closed 0"
| "a_step th need cd (DoTrip now) (Open t) = Open t"
| "a_step th need cd (DoTrip now) p = Open now"

definition phase_of :: "BRecord \<Rightarrow> phase" where
  "phase_of r =
     (if br_State r = StateClosed then Closed (br_FailureCount r)
      else if br_State r = StateOpen then Open (br_OpenedAt r)
      else if br_State r = StateHalfOpen then HalfOpen (br_HalfOpenSuccesses r)
      else Odd)"

text \<open>The record a breaker sees, and well-formed tables: rows filed under their name, no negative counts.\<close>

definition seen :: "string \<Rightarrow> (string \<rightharpoonup> BRecord) \<Rightarrow> BRecord" where
  "seen n rows =
     (case rows n of
        None \<Rightarrow> fresh_record n StateClosed
      | Some r \<Rightarrow> if br_State r = [] then r\<lparr>br_State := StateClosed\<rparr> else r)"

definition keyed :: "(string \<rightharpoonup> BRecord) \<Rightarrow> bool" where
  "keyed rows \<longleftrightarrow> (\<forall>n r. rows n = Some r \<longrightarrow> br_Name r = n \<and> 0 \<le> br_FailureCount r)"

lemma bstate_distinct [simp]:
  "StateClosed \<noteq> StateOpen" "StateClosed \<noteq> StateHalfOpen" "StateOpen \<noteq> StateHalfOpen"
  "StateOpen \<noteq> StateClosed" "StateHalfOpen \<noteq> StateClosed" "StateHalfOpen \<noteq> StateOpen"
  "StateClosed \<noteq> []" "StateOpen \<noteq> []" "StateHalfOpen \<noteq> []"
  "[] \<noteq> StateClosed" "[] \<noteq> StateOpen" "[] \<noteq> StateHalfOpen"
  by (simp_all add: tg_consts)

lemma transition_sel [simp]:
  "br_State (transition now s r) = s" "br_Name (transition now s r) = br_Name r"
  "br_FailureCount (transition now s r) = (if s = StateClosed then 0 else br_FailureCount r)"
  by (simp_all add: transition_def Let_def)

lemma transition_open [simp]: "br_OpenedAt (transition now StateOpen r) = now"
  by (simp add: transition_def Let_def)

lemma transition_half [simp]: "br_HalfOpenSuccesses (transition now StateHalfOpen r) = 0"
  by (simp add: transition_def Let_def)

lemma phase_of_stamp [simp]: "phase_of (r\<lparr>br_LastUpdatedAt := t\<rparr>) = phase_of r"
  by (simp add: phase_of_def)

lemma phase_of_Open: "phase_of r = Open t \<longleftrightarrow> br_State r = StateOpen \<and> t = br_OpenedAt r"
  by (auto simp: phase_of_def)

lemma seen_put: "br_State r \<noteq> [] \<Longrightarrow> seen n (rows(n \<mapsto> r)) = r"
  by (simp add: seen_def)

lemma seen_other: "n \<noteq> m \<Longrightarrow> seen n (rows(m \<mapsto> r)) = seen n rows"
  by (simp add: seen_def)

lemma seen_state: "br_State (seen n rows) \<noteq> []"
  by (simp add: seen_def fresh_record_def split: option.split)

lemma seen_keyed: "keyed rows \<Longrightarrow> br_Name (seen n rows) = n \<and> 0 \<le> br_FailureCount (seen n rows)"
  by (auto simp: seen_def keyed_def fresh_record_def split: option.split)

lemma keyed_put: "keyed rows \<Longrightarrow> 0 \<le> br_FailureCount r \<Longrightarrow> keyed (rows(br_Name r \<mapsto> r))"
  by (simp add: keyed_def)

section \<open>The contract of a store\<close>

locale breaker_store =
  fixes store :: "'st bstore"
    and rows :: "'st \<Rightarrow> string \<rightharpoonup> BRecord"
    and cao :: "'st \<Rightarrow> string \<Rightarrow> instant \<Rightarrow> 'st \<times> (breaker_error + bool)"
  assumes load_reads: "bs_load store st n = (st', Inr r) \<Longrightarrow> rows st' = rows st \<and> r = rows st n"
    and load_fails: "bs_load store st n = (st', Inl e) \<Longrightarrow> rows st' = rows st"
    and save_writes: "bs_save store st rec = (st', None) \<Longrightarrow>
        \<exists>t. rows st' = (rows st)(br_Name rec \<mapsto> rec\<lparr>br_LastUpdatedAt := t\<rparr>)"
    and save_fails: "bs_save store st rec = (st', Some e) \<Longrightarrow> rows st' = rows st"
    and cao_present: "bs_compareAndOpen store = Some cao"
    and cao_opens: "cao st n now = (st', Inr True) \<Longrightarrow>
        br_State (seen n (rows st)) \<noteq> StateOpen
        \<and> (\<exists>t. rows st' = (rows st)(n \<mapsto> (opened_record n (br_FailureCount (seen n (rows st)) + 1) now)\<lparr>br_LastUpdatedAt := t\<rparr>))"
    and cao_already: "cao st n now = (st', Inr False) \<Longrightarrow>
        br_State (seen n (rows st)) = StateOpen \<and> rows st' = rows st"
    and cao_fails: "cao st n now = (st', Inl e) \<Longrightarrow> rows st' = rows st"
begin

lemma bload_reads:
  assumes "bk_store b = store" and "bload b st = (st', r)"
  shows "rows st' = rows st \<and> (\<forall>rec. r = Inr rec \<longrightarrow> rec = seen (bk_name b) (rows st))"
proof -
  obtain st1 x where l: "bs_load store st (bk_name b) = (st1, x)" by (metis prod.exhaust)
  then show ?thesis
    using assms load_reads [of st "bk_name b" st1] load_fails [of st "bk_name b" st1]
    by (cases x) (auto simp: bload_def seen_def split: option.splits)
qed

text \<open>What one write of a breaker does to the table.\<close>

lemma save_phase:
  assumes "bk_store b = store" and "bs_save store st rec = (st', None)"
    and "br_Name rec = bk_name b" and "br_State rec \<noteq> []" and "keyed (rows st)" and "0 \<le> br_FailureCount rec"
  shows "phase_of (seen (bk_name b) (rows st')) = phase_of rec \<and> keyed (rows st')
    \<and> (\<forall>n. n \<noteq> bk_name b \<longrightarrow> rows st' n = rows st n)"
proof -
  obtain t where "rows st' = (rows st)(br_Name rec \<mapsto> rec\<lparr>br_LastUpdatedAt := t\<rparr>)"
    using save_writes [OF assms(2)] by blast
  with assms(3-6) keyed_put [of "rows st" "rec\<lparr>br_LastUpdatedAt := t\<rparr>"] show ?thesis
    by (simp add: seen_put)
qed

text \<open>
  The simulation: a call of a breaker that reports no error is one step of the abstract machine,
  a call that reports an error leaves the phase, and other breakers' rows are never touched.
\<close>

definition simulates :: "'st Breaker \<Rightarrow> 'st \<Rightarrow> 'st \<Rightarrow> breaker_error option \<Rightarrow> bop \<Rightarrow> bool" where
  "simulates b st st' err op \<longleftrightarrow>
     keyed (rows st') \<and> (\<forall>n. n \<noteq> bk_name b \<longrightarrow> rows st' n = rows st n)
     \<and> (case err of
          Some _ \<Rightarrow> rows st' = rows st
        | None \<Rightarrow> phase_of (seen (bk_name b) (rows st'))
            = a_step (bk_failureThreshold b) (bk_halfOpenNeeded b) (bk_cooldown b) op
                (phase_of (seen (bk_name b) (rows st))))"

lemma simulates_same:
  assumes "keyed (rows st)" and "rows st' = rows st"
    and "err = None \<Longrightarrow> a_step (bk_failureThreshold b) (bk_halfOpenNeeded b) (bk_cooldown b) op
        (phase_of (seen (bk_name b) (rows st))) = phase_of (seen (bk_name b) (rows st))"
  shows "simulates b st st' err op"
  using assms by (auto simp: simulates_def split: option.split)

lemma simulates_save:
  assumes "bk_store b = store" and "bs_save store st1 rec = (st', err)"
    and "rows st1 = rows st" and "keyed (rows st)" and "br_Name rec = bk_name b"
    and "br_State rec \<noteq> []" and "0 \<le> br_FailureCount rec"
    and "a_step (bk_failureThreshold b) (bk_halfOpenNeeded b) (bk_cooldown b) op
        (phase_of (seen (bk_name b) (rows st))) = phase_of rec"
  shows "simulates b st st' err op"
proof (cases err)
  case None
  with assms save_phase [of b st1 rec st'] show ?thesis by (simp add: simulates_def)
next
  case (Some e)
  with assms save_fails [of st1 rec st' e] show ?thesis by (simp add: simulates_def)
qed

lemma RecordFailure_sim:
  assumes "bk_store b = store" and "keyed (rows st)" and "RecordFailure b clock st = (st', err)"
  shows "simulates b st st' err (DoFail (clock 0))"
proof -
  obtain st1 r where l: "bload b st = (st1, r)" by (metis prod.exhaust)
  have r1: "rows st1 = rows st" using bload_reads [OF assms(1) l] by blast
  show ?thesis
  proof (cases r)
    case (Inl e)
    then show ?thesis using assms(2,3) l r1 by (intro simulates_same) (auto simp: RecordFailure_def)
  next
    case (Inr rec)
    then have rec: "rec = seen (bk_name b) (rows st)" using bload_reads [OF assms(1) l] by blast
    note k = seen_keyed [OF assms(2), of "bk_name b", folded rec]
    consider "br_State rec = StateHalfOpen" | "br_State rec = StateClosed"
      | "br_State rec \<noteq> StateHalfOpen" "br_State rec \<noteq> StateClosed" by blast
    then show ?thesis
    proof cases
      case 1
      then show ?thesis
        using assms l Inr r1 k
        by (intro simulates_save [of b st1 "transition (clock 0) StateOpen rec"])
          (auto simp: RecordFailure_def phase_of_def rec [symmetric])
    next
      case 2
      let ?r = "rec\<lparr>br_FailureCount := br_FailureCount rec + 1\<rparr>"
      show ?thesis
        using assms l Inr r1 k 2
        by (intro simulates_save [of b st1 "if br_FailureCount rec + 1 \<ge> bk_failureThreshold b
              then transition (clock 0) StateOpen ?r else ?r"])
          (auto simp: RecordFailure_def phase_of_def rec [symmetric] Let_def)
    next
      case 3
      then show ?thesis
        using assms(2,3) l Inr r1
        by (intro simulates_same) (auto simp: RecordFailure_def phase_of_def rec [symmetric])
    qed
  qed
qed

lemma RecordSuccess_sim:
  assumes "bk_store b = store" and "keyed (rows st)" and "RecordSuccess b clock st = (st', err)"
  shows "simulates b st st' err (DoSuccess (clock 0))"
proof -
  obtain st1 r where l: "bload b st = (st1, r)" by (metis prod.exhaust)
  have r1: "rows st1 = rows st" using bload_reads [OF assms(1) l] by blast
  show ?thesis
  proof (cases r)
    case (Inl e)
    then show ?thesis using assms(2,3) l r1 by (intro simulates_same) (auto simp: RecordSuccess_def)
  next
    case (Inr rec)
    then have rec: "rec = seen (bk_name b) (rows st)" using bload_reads [OF assms(1) l] by blast
    note k = seen_keyed [OF assms(2), of "bk_name b", folded rec]
    let ?h = "rec\<lparr>br_HalfOpenSuccesses := br_HalfOpenSuccesses rec + 1\<rparr>"
    consider "br_State rec = StateHalfOpen" | "br_State rec = StateClosed" "br_FailureCount rec > 0"
      | "br_State rec = StateClosed" "br_FailureCount rec = 0"
      | "br_State rec \<noteq> StateHalfOpen" "br_State rec \<noteq> StateClosed" using k by force
    then show ?thesis
    proof cases
      case 1
      then show ?thesis
        using assms l Inr r1 k
        by (intro simulates_save [of b st1 "if br_HalfOpenSuccesses rec + 1 \<ge> bk_halfOpenNeeded b
              then transition (clock 0) StateClosed ?h else ?h"])
          (auto simp: RecordSuccess_def phase_of_def rec [symmetric] Let_def)
    next
      case 2
      then show ?thesis
        using assms l Inr r1 k
        by (intro simulates_save [of b st1 "rec\<lparr>br_FailureCount := 0\<rparr>"])
          (auto simp: RecordSuccess_def phase_of_def rec [symmetric])
    qed (use assms(2,3) l Inr r1 in
        \<open>intro simulates_same; auto simp: RecordSuccess_def phase_of_def rec [symmetric]\<close>)+
  qed
qed

lemma Allow_sim:
  assumes "bk_store b = store" and "keyed (rows st)" and "Allow b clock st = (st', ok, err)"
  shows "simulates b st st' err (DoAllow (clock 0) (clock 1))
    \<and> (err = None \<longrightarrow> (ok \<longleftrightarrow> (\<forall>t. phase_of (seen (bk_name b) (rows st)) = Open t
          \<longrightarrow> t = 0 \<or> time_sub (clock 0) t > bk_cooldown b)))
    \<and> (err \<noteq> None \<longrightarrow> ok)"
proof -
  obtain st1 r where l: "bload b st = (st1, r)" by (metis prod.exhaust)
  have r1: "rows st1 = rows st" using bload_reads [OF assms(1) l] by blast
  show ?thesis
  proof (cases r)
    case (Inl e)
    then show ?thesis
      using assms(2,3) l r1 simulates_same [of st st' err b] by (auto simp: Allow_def)
  next
    case (Inr rec)
    then have rec: "rec = seen (bk_name b) (rows st)" using bload_reads [OF assms(1) l] by blast
    note k = seen_keyed [OF assms(2), of "bk_name b", folded rec]
    let ?go = "br_OpenedAt rec = 0 \<or> time_sub (clock 0) (br_OpenedAt rec) > bk_cooldown b"
    show ?thesis
    proof (cases "br_State rec = StateOpen \<and> ?go")
      case True
      then have "bs_save store st1 (transition (clock 1) StateHalfOpen rec) = (st', err)" and "ok"
        using assms(1,3) l Inr by (auto simp: Allow_def split: prod.splits)
      with True assms(1,2) r1 k show ?thesis
        using simulates_save [of b st1 "transition (clock 1) StateHalfOpen rec" st' err st]
        by (simp add: phase_of_def rec [symmetric])
    next
      case False
      then have "st' = st1" "err = None" "ok \<longleftrightarrow> br_State rec \<noteq> StateOpen"
        using assms(3) l Inr by (auto simp: Allow_def split: if_splits)
      with False assms(2) r1 simulates_same [of st st' err b] show ?thesis
        by (auto simp: phase_of_def rec [symmetric])
    qed
  qed
qed

lemma Reset_sim:
  assumes "bk_store b = store" and "keyed (rows st)" and "Reset b clock st = (st', err)"
  shows "simulates b st st' err (DoReset (clock 0))"
proof -
  obtain st1 r where l: "bload b st = (st1, r)" by (metis prod.exhaust)
  have r1: "rows st1 = rows st" using bload_reads [OF assms(1) l] by blast
  show ?thesis
  proof (cases r)
    case (Inl e)
    then show ?thesis using assms(2,3) l r1 by (intro simulates_same) (auto simp: Reset_def)
  next
    case (Inr rec)
    then have rec: "rec = seen (bk_name b) (rows st)" using bload_reads [OF assms(1) l] by blast
    note k = seen_keyed [OF assms(2), of "bk_name b", folded rec]
    show ?thesis
    proof (cases "br_State rec = StateClosed \<and> br_FailureCount rec = 0")
      case True
      then show ?thesis
        using assms(2,3) l Inr r1
        by (intro simulates_same) (auto simp: Reset_def phase_of_def rec [symmetric])
    next
      case False
      then show ?thesis
        using assms l Inr r1 k
        by (intro simulates_save [of b st1 "transition (clock 0) StateClosed rec"])
          (auto simp: Reset_def phase_of_def)
    qed
  qed
qed

lemma TripOpen_sim:
  assumes "bk_store b = store" and "keyed (rows st)" and "TripOpen b clock st = (st', r)"
  shows "simulates b st st' (case r of Inl e \<Rightarrow> Some e | Inr _ \<Rightarrow> None) (DoTrip (clock 0))
    \<and> (\<forall>now. r = Inr now \<longrightarrow> (now \<longleftrightarrow> br_State (seen (bk_name b) (rows st)) \<noteq> StateOpen))"
proof -
  have c: "cao st (bk_name b) (clock 0) = (st', r)"
    using assms(1,3) cao_present by (simp add: TripOpen_def)
  consider e where "r = Inl e" | "r = Inr True" | "r = Inr False" by (cases r) auto
  then show ?thesis
  proof cases
    case 1
    then have "rows st' = rows st" using c cao_fails by blast
    from simulates_same [OF assms(2) this, of "Some e" b] 1 show ?thesis by simp
  next
    case 2
    then obtain t where o: "br_State (seen (bk_name b) (rows st)) \<noteq> StateOpen"
      and w: "rows st' = (rows st)(bk_name b \<mapsto> (opened_record (bk_name b)
          (br_FailureCount (seen (bk_name b) (rows st)) + 1) (clock 0))\<lparr>br_LastUpdatedAt := t\<rparr>)"
      using c cao_opens by blast
    let ?r = "(opened_record (bk_name b) (br_FailureCount (seen (bk_name b) (rows st)) + 1) (clock 0))\<lparr>br_LastUpdatedAt := t\<rparr>"
    have "keyed (rows st')"
      unfolding w using keyed_put [OF assms(2), of ?r] seen_keyed [OF assms(2), of "bk_name b"]
      by (simp add: opened_record_def)
    moreover have "a_step x y z (DoTrip (clock 0)) (phase_of (seen (bk_name b) (rows st))) = Open (clock 0)" for x y z
      using o by (simp add: phase_of_def)
    ultimately show ?thesis
      using 2 o by (simp add: simulates_def w seen_put opened_record_def phase_of_def)
  next
    case 3
    with c cao_already [of st "bk_name b" "clock 0" st'] assms(2) simulates_same [of st st' None b]
    show ?thesis by (auto simp: phase_of_def)
  qed
qed

end

interpretation mem_store: breaker_store MemStore "\<lambda>m. m" mem_CompareAndOpen
proof unfold_locales
  show "\<exists>t. st' = st(br_Name rec \<mapsto> rec\<lparr>br_LastUpdatedAt := t\<rparr>)"
    if "bs_save MemStore st rec = (st', None)" for st rec st'
    using that by (intro exI [of _ "br_LastUpdatedAt rec"]) (auto simp: MemStore_def mem_Save_def)
  show "br_State (seen n st) \<noteq> StateOpen
      \<and> (\<exists>t. st' = st(n \<mapsto> (opened_record n (br_FailureCount (seen n st) + 1) now)\<lparr>br_LastUpdatedAt := t\<rparr>))"
    if "mem_CompareAndOpen st n now = (st', Inr True)" for st n now st'
    using that
    by (auto simp: mem_CompareAndOpen_def seen_def fresh_record_def opened_record_def Let_def
        split: option.splits if_splits intro!: exI [of _ now])
qed (auto simp: MemStore_def mem_Load_def mem_Save_def mem_CompareAndOpen_def seen_def Let_def
    split: option.splits if_splits)

interpretation pg_store: breaker_store BreakerStore bt_rows pg_CompareAndOpen
  by unfold_locales
    (auto simp: BreakerStore_def pg_Load_def pg_Save_def pg_CompareAndOpen_def bt_faulty_def seen_def
      fresh_record_def split: option.splits if_splits list.splits prod.splits)

section \<open>Properties of the breaker\<close>

text \<open>One call of a breaker on the in-memory store.\<close>

fun exec :: "memstore Breaker \<Rightarrow> bop \<Rightarrow> memstore \<Rightarrow> memstore" where
  "exec b (DoFail t) st = fst (RecordFailure b (\<lambda>_. t) st)"
| "exec b (DoSuccess t) st = fst (RecordSuccess b (\<lambda>_. t) st)"
| "exec b (DoAllow t t') st = fst (Allow b (\<lambda>k. if k = 0 then t else t') st)"
| "exec b (DoReset t) st = fst (Reset b (\<lambda>_. t) st)"
| "exec b (DoTrip t) st = fst (TripOpen b (\<lambda>_. t) st)"

lemmas mem_defs = MemStore_def mem_Load_def mem_Save_def mem_CompareAndOpen_def

lemma mem_no_error:
  assumes "bk_store b = MemStore"
  shows "snd (RecordFailure b c st) = None" "snd (RecordSuccess b c st) = None"
    "snd (snd (Allow b c st)) = None" "snd (Reset b c st) = None" "\<exists>x. snd (TripOpen b c st) = Inr x"
  using assms
  by (auto simp: RecordFailure_def RecordSuccess_def Allow_def Reset_def TripOpen_def bload_def mem_defs Let_def
      split: option.split)

lemma exec_sim:
  assumes "bk_store b = MemStore" and "keyed st"
  shows "mem_store.simulates b st (exec b op st) None op"
proof (cases op)
  case (DoFail t)
  then show ?thesis
    using mem_store.RecordFailure_sim [OF assms, of "\<lambda>_. t" "fst (RecordFailure b (\<lambda>_. t) st)" None] mem_no_error [OF assms(1)]
    by (simp add: prod_eq_iff)
next
  case (DoSuccess t)
  then show ?thesis
    using mem_store.RecordSuccess_sim [OF assms, of "\<lambda>_. t" "fst (RecordSuccess b (\<lambda>_. t) st)" None] mem_no_error [OF assms(1)]
    by (simp add: prod_eq_iff)
next
  case (DoAllow t t')
  let ?c = "\<lambda>k :: nat. if k = 0 then t else t'"
  obtain st' ok where "Allow b ?c st = (st', ok, None)"
    using mem_no_error(3) [OF assms(1), of ?c st] by (metis prod.collapse)
  with DoAllow mem_store.Allow_sim [OF assms this] show ?thesis by simp
next
  case (DoReset t)
  then show ?thesis
    using mem_store.Reset_sim [OF assms, of "\<lambda>_. t" "fst (Reset b (\<lambda>_. t) st)" None] mem_no_error [OF assms(1)]
    by (simp add: prod_eq_iff)
next
  case (DoTrip t)
  obtain x where "snd (TripOpen b (\<lambda>_. t) st) = Inr x" using mem_no_error(5) [OF assms(1)] by blast
  then show ?thesis
    using DoTrip mem_store.TripOpen_sim [OF assms, of "\<lambda>_. t" "fst (TripOpen b (\<lambda>_. t) st)" "Inr x"]
    by (simp add: prod_eq_iff)
qed

lemma breaker_run:
  assumes "bk_store b = MemStore" and "keyed st"
  shows "phase_of (seen (bk_name b) (fold (exec b) ops st)) =
    fold (a_step (bk_failureThreshold b) (bk_halfOpenNeeded b) (bk_cooldown b)) ops
      (phase_of (seen (bk_name b) st))"
  using assms(2)
proof (induction ops arbitrary: st)
  case Nil
  then show ?case by simp
next
  case (Cons op ops)
  note s = exec_sim [OF assms(1) Cons.prems, of op]
  then have "keyed (exec b op st)" by (simp add: mem_store.simulates_def)
  from Cons.IH [OF this] s show ?case by (simp add: mem_store.simulates_def)
qed

lemma a_step_fails_open: "fold (a_step th need cd) (map DoFail ts) (Open t) = Open t"
  by (induction ts) auto

lemma a_step_count:
  assumes "int k < th"
  shows "fold (a_step th need cd) (map DoFail ts) (Closed (int k)) =
    (if int (k + length ts) < th then Closed (int (k + length ts)) else Open (ts ! (nat th - k - 1)))"
  using assms
proof (induction ts arbitrary: k)
  case Nil
  then show ?case by simp
next
  case (Cons t ts)
  show ?case
  proof (cases "int k + 1 \<ge> th")
    case True
    then have "nat th - k - 1 = 0" using Cons.prems by linarith
    with True Cons.prems show ?thesis by (simp add: a_step_fails_open)
  next
    case False
    then have "int (Suc k) < th" and "nat th - k - 1 = Suc (nat th - Suc k - 1)" using Cons.prems by linarith+
    with Cons.IH [of "Suc k"] False show ?thesis by (simp add: add.commute)
  qed
qed

text \<open>
  C8. The breaker implements its abstract machine: after any sequence of failures, successes,
  admissions, resets and forced trips, the stored row is in exactly the phase that the three-state
  machine (closed with a count, open since a time, half open with a count) reaches on the same
  sequence.
\<close>

theorem breaker_refines:
  assumes "bk_store b = MemStore" and "keyed st"
  shows "phase_of (seen (bk_name b) (fold (exec b) ops st)) =
    fold (a_step (bk_failureThreshold b) (bk_halfOpenNeeded b) (bk_cooldown b)) ops
      (phase_of (seen (bk_name b) st))"
  by (rule breaker_run [OF assms])

text \<open>
  A breaker opens on exactly the configured number of consecutive failures: fewer leave it
  closed with their count, and from that number on it is open since the failure that reached it.
\<close>

theorem opens_at_threshold:
  assumes "bk_store b = MemStore" and "keyed st" and "phase_of (seen (bk_name b) st) = Closed 0"
    and "0 < bk_failureThreshold b"
  shows "phase_of (seen (bk_name b) (fold (exec b) (map DoFail ts) st)) =
    (if int (length ts) < bk_failureThreshold b then Closed (int (length ts))
     else Open (ts ! (nat (bk_failureThreshold b) - 1)))"
proof -
  have "phase_of (seen (bk_name b) (fold (exec b) (map DoFail ts) st)) =
      fold (a_step (bk_failureThreshold b) (bk_halfOpenNeeded b) (bk_cooldown b)) (map DoFail ts) (Closed (int 0))"
    using breaker_run [OF assms(1,2)] assms(3) by simp
  then show ?thesis using a_step_count [of 0] assms(4) by simp
qed

text \<open>
  On the shared table, with statements that may fail, a call is admitted unless the breaker is
  open and its cool-down has not passed; a store failure admits the call and reports the error.
\<close>

theorem admission:
  assumes "bk_store b = BreakerStore" and "keyed (bt_rows st)" and "Allow b clock st = (st', ok, err)"
  shows "(err = None \<longrightarrow> (ok \<longleftrightarrow>
        (\<forall>t. phase_of (seen (bk_name b) (bt_rows st)) = Open t \<longrightarrow> t = 0 \<or> time_sub (clock 0) t > bk_cooldown b)))
    \<and> (err \<noteq> None \<longrightarrow> ok \<and> bt_rows st' = bt_rows st)"
  using pg_store.Allow_sim [OF assms] by (auto simp: pg_store.simulates_def)

text \<open>Forced trips of one breaker by any number of processes, in the order the database serialises them.\<close>

fun trip_all :: "(breaker_table Breaker \<times> instant) list \<Rightarrow> breaker_table
    \<Rightarrow> (breaker_error + bool) list \<times> breaker_table" where
  "trip_all [] st = ([], st)"
| "trip_all ((b, t) # xs) st =
     (case TripOpen b (\<lambda>_. t) st of (st', r) \<Rightarrow> (case trip_all xs st' of (rs, st'') \<Rightarrow> (r # rs, st'')))"

lemma trip_all_once:
  assumes "list_all (\<lambda>(b, t). bk_store b = BreakerStore \<and> bk_name b = n) xs" and "keyed (bt_rows st)"
    and "trip_all xs st = (rs, st')"
  shows "length (filter (\<lambda>r. r = Inr True) rs) =
    (if br_State (seen n (bt_rows st)) = StateOpen \<or> list_all isl rs then 0 else 1)"
  using assms
proof (induction xs arbitrary: st rs)
  case Nil
  then show ?case by simp
next
  case (Cons x xs)
  obtain b t where x: "x = (b, t)" by fastforce
  have b: "bk_store b = BreakerStore" "bk_name b = n" using Cons.prems(1) x by auto
  obtain st1 r where tr: "TripOpen b (\<lambda>_. t) st = (st1, r)" by (metis prod.exhaust)
  obtain qs where q: "trip_all xs st1 = (qs, st')" and rs: "rs = r # qs"
    using Cons.prems(3) x tr by (auto split: prod.splits)
  note sim = pg_store.TripOpen_sim [OF b(1) Cons.prems(2) tr]
  have k1: "keyed (bt_rows st1)" using sim by (simp add: pg_store.simulates_def)
  have IH: "length (filter (\<lambda>r. r = Inr True) qs) =
      (if br_State (seen n (bt_rows st1)) = StateOpen \<or> list_all isl qs then 0 else 1)"
    using Cons.IH [of st1 qs] Cons.prems(1) k1 q by simp
  show ?case
  proof (cases r)
    case (Inl e)
    then have "bt_rows st1 = bt_rows st" using sim by (simp add: pg_store.simulates_def)
    with IH Inl rs show ?thesis by simp
  next
    case (Inr now)
    then have "now \<longleftrightarrow> br_State (seen n (bt_rows st)) \<noteq> StateOpen"
      and "phase_of (seen n (bt_rows st1)) = a_step (bk_failureThreshold b) (bk_halfOpenNeeded b) (bk_cooldown b)
          (DoTrip t) (phase_of (seen n (bt_rows st)))"
      using sim b(2) by (simp_all add: pg_store.simulates_def)
    moreover from this(2) have "br_State (seen n (bt_rows st1)) = StateOpen"
      by (cases "phase_of (seen n (bt_rows st))") (auto simp: phase_of_def split: if_splits)
    ultimately show ?thesis using IH Inr rs by simp
  qed
qed

text \<open>
  Exactly one process opens a breaker: of any number of forced trips of the same breaker,
  however they interleave and whichever of their statements fail, exactly one reports that it
  opened it, or none when it was open already or every one of them failed.
\<close>

theorem one_opener:
  assumes "list_all (\<lambda>(b, t). bk_store b = BreakerStore \<and> bk_name b = n) xs" and "keyed (bt_rows st)"
  shows "length (filter (\<lambda>r. r = Inr True) (fst (trip_all xs st))) =
    (if br_State (seen n (bt_rows st)) = StateOpen \<or> list_all isl (fst (trip_all xs st)) then 0 else 1)"
  using trip_all_once [OF assms, of "fst (trip_all xs st)" "snd (trip_all xs st)"] by simp

section \<open>Properties of the mutation breaker\<close>


text \<open>
  A trip is sticky: once the stored breaker is open, every further trip finds it open, whatever
  statements fail, disables mutation again and leaves it open; and any process that asks whether
  the breaker is tripped is told so, also when its read fails.
\<close>

theorem trip_sticky:
  assumes "bk_store (mb_b mb) = BreakerStore" and "keyed (bt_rows (mw_store w))"
    and "br_State (seen (bk_name (mb_b mb)) (bt_rows (mw_store w))) = StateOpen"
    and "Trip (Some mb) clock reason w = (w', disabled, err)"
  shows "disabled \<and> br_State (seen (bk_name (mb_b mb)) (bt_rows (mw_store w'))) = StateOpen
    \<and> snd (Tripped (Some mb) (mw_store w'))"
proof -
  let ?n = "bk_name (mb_b mb)"
  obtain st f where rf: "RecordFailure (mb_b mb) clock (mw_store w) = (st, f)" by (metis prod.exhaust)
  have sim: "pg_store.simulates (mb_b mb) (mw_store w) st f (DoFail (clock 0))"
    using pg_store.RecordFailure_sim [OF assms(1,2) rf] .
  have "phase_of (seen ?n (bt_rows (mw_store w))) = Open (br_OpenedAt (seen ?n (bt_rows (mw_store w))))"
    using assms(3) by (simp add: phase_of_Open)
  with sim have op: "br_State (seen ?n (bt_rows st)) = StateOpen"
    using assms(3) by (cases f) (simp_all add: pg_store.simulates_def phase_of_Open)
  obtain st' sn where s: "bload (mb_b mb) st = (st', sn)" by (metis prod.exhaust)
  have rd: "bt_rows st' = bt_rows st" "\<And>rec. sn = Inr rec \<Longrightarrow> rec = seen ?n (bt_rows st)"
    using pg_store.bload_reads [OF assms(1) s] by auto
  have w': "bt_rows (mw_store w') = bt_rows st" and d: "disabled"
    using assms(4) rf s rd op
    by (auto simp: Trip_def Snapshot_def Let_def split: option.splits sum.splits if_splits)
  obtain st2 sn2 where s2: "bload (mb_b mb) (mw_store w') = (st2, sn2)" by (metis prod.exhaust)
  have "\<And>rec. sn2 = Inr rec \<Longrightarrow> br_State rec = StateOpen"
    using pg_store.bload_reads [OF assms(1) s2] w' op by simp
  then have "snd (Tripped (Some mb) (mw_store w'))"
    using s2 by (cases sn2) (auto simp: Tripped_def mb_State_def Snapshot_def)
  with w' d op show ?thesis by simp
qed

section \<open>Concrete runs\<close>

definition demo_breaker :: "'st bstore \<Rightarrow> 'st Breaker" where
  "demo_breaker store = \<lparr>bk_name = ''mutation'', bk_failureThreshold = 2, bk_cooldown = 60 * 1000000000,
     bk_halfOpenNeeded = 1, bk_store = store\<rparr>"

lemma demo_breaker_New: "New_breaker ''mutation'' (Some store) [WithThreshold 2] = Inr (demo_breaker store)"
proof -
  have "validName ''mutation''" by code_simp
  then show ?thesis by (simp add: New_breaker_def demo_breaker_def)
qed

definition demo_table :: "bool list \<Rightarrow> breaker_table" where
  "demo_table fs = \<lparr>bt_rows = [''mutation'' \<mapsto> opened_record ''mutation'' 2 5], bt_faults = fs, bt_now = 7\<rparr>"

lemma keyed_empty: "keyed Map.empty" and keyed_demo: "keyed (bt_rows (demo_table fs))"
  by (simp_all add: keyed_def demo_table_def opened_record_def)

lemma demo_open: "br_State (seen ''mutation'' (bt_rows (demo_table fs))) = StateOpen"
  by (simp add: seen_def demo_table_def opened_record_def)

theorem breaker_refines_witness:
  "phase_of (seen ''mutation'' (fold (exec (demo_breaker MemStore))
      [DoFail 10, DoFail 20, DoAllow 30 30, DoAllow 70000000000 70000000001, DoFail 70000000005] Map.empty))
     = Open 70000000005"
  using breaker_refines [of "demo_breaker MemStore" Map.empty
      "[DoFail 10, DoFail 20, DoAllow 30 30, DoAllow 70000000000 70000000001, DoFail 70000000005]"]
  by (simp add: keyed_empty demo_breaker_def phase_of_def seen_def fresh_record_def time_sub_def)

theorem opens_at_threshold_witness:
  "phase_of (seen ''mutation'' (fold (exec (demo_breaker MemStore)) (map DoFail [10, 20, 30]) Map.empty)) = Open 20"
  using opens_at_threshold [of "demo_breaker MemStore" Map.empty "[10, 20, 30]"]
  by (simp add: keyed_empty demo_breaker_def phase_of_def seen_def fresh_record_def)

theorem admission_witness:
  "\<exists>st' ok. Allow (demo_breaker BreakerStore) (\<lambda>_. 9) (demo_table []) = (st', ok, None) \<and> \<not> ok"
proof -
  have "snd (snd (Allow (demo_breaker BreakerStore) (\<lambda>_. 9) (demo_table []))) = None"
    by (simp add: Allow_def bload_def demo_breaker_def BreakerStore_def pg_Load_def bt_faulty_def demo_table_def
        opened_record_def time_sub_def)
  then obtain st' ok where a: "Allow (demo_breaker BreakerStore) (\<lambda>_. 9) (demo_table []) = (st', ok, None)"
    by (metis prod.collapse)
  have "phase_of (seen ''mutation'' (bt_rows (demo_table []))) = Open 5"
    by (simp add: phase_of_def seen_def demo_table_def opened_record_def)
  then have "\<not> ok" using admission [OF _ keyed_demo a] by (simp add: demo_breaker_def time_sub_def)
  with a show ?thesis by blast
qed

theorem one_opener_witness:
  "length (filter (\<lambda>r. r = Inr True) (fst (trip_all
      [(demo_breaker BreakerStore, 3), (demo_breaker BreakerStore, 4), (demo_breaker BreakerStore, 5)]
      \<lparr>bt_rows = Map.empty, bt_faults = [True], bt_now = 7\<rparr>))) = 1"
proof -
  let ?xs = "[(demo_breaker BreakerStore, 3), (demo_breaker BreakerStore, 4), (demo_breaker BreakerStore, 5)]"
    and ?st = "\<lparr>bt_rows = Map.empty, bt_faults = [True], bt_now = 7\<rparr>"
  have "list_all (\<lambda>(b, t). bk_store b = BreakerStore \<and> bk_name b = ''mutation'') ?xs"
    by (simp add: demo_breaker_def)
  moreover have "\<not> list_all isl (fst (trip_all ?xs ?st))"
    by (simp add: TripOpen_def demo_breaker_def BreakerStore_def pg_CompareAndOpen_def bt_faulty_def opened_record_def)
  moreover have "br_State (seen ''mutation'' (bt_rows ?st)) \<noteq> StateOpen"
    by (simp add: seen_def fresh_record_def)
  ultimately show ?thesis using one_opener [of "''mutation''" ?xs ?st] by (simp add: keyed_empty del: trip_all.simps)
qed

definition demo_mb :: "(breaker_table, string list) MutationBreaker" where
  "demo_mb = \<lparr>mb_b = demo_breaker BreakerStore, mb_forcer = (\<lambda>m r. m @ [''shadow'']), mb_rec = Some (\<lambda>m r. m @ [r])\<rparr>"

definition demo_world :: "bool list \<Rightarrow> (breaker_table, string list) mb_world" where
  "demo_world fs = \<lparr>mw_store = demo_table fs, mw_mode = [], mw_deviations = 0\<rparr>"


theorem trip_sticky_witness:
  "\<exists>w' err. Trip (Some demo_mb) (\<lambda>_. 9) ''deviation'' (demo_world [False, True, True]) = (w', True, err)
     \<and> snd (Tripped (Some demo_mb) (mw_store w'))"
proof -
  obtain w' d err where t: "Trip (Some demo_mb) (\<lambda>_. 9) ''deviation'' (demo_world [False, True, True]) = (w', d, err)"
    by (metis prod.exhaust)
  have "bk_store (mb_b demo_mb) = BreakerStore" "bk_name (mb_b demo_mb) = ''mutation''"
    by (simp_all add: demo_mb_def demo_breaker_def)
  with t trip_sticky [OF _ _ _ t] keyed_demo demo_open show ?thesis by (auto simp: demo_world_def)
qed

end
