(* ===== verification/Mode.thy ===== *)
theory Mode
  imports Policy_Rules Ledger Breaker
begin

text \<open>
  The autonomy mode: \<^verbatim>\<open>core/policy/mode.go\<close> (the controller), \<^verbatim>\<open>core/policy/mode_authority.go\<close>
  (who may change it), \<^verbatim>\<open>core/db/policy_mode_store.go\<close> (where it is kept) and
  \<^verbatim>\<open>core/safety/mutation_chokepoint.go\<close> (the single question ``may this process actuate?'').

  The controller's methods are written as the segments between its lock operations, and composed
  from them. The same segments are the steps of the transition system at the end, where a safety
  kill, the resync loop, operator transitions and other processes run interleaved. The generation
  counter is a \<^verbatim>\<open>uint64\<close> of which each write takes one value; it is a natural number here.
\<close>

section \<open>Modes\<close>

definition ModeShadow :: mode where [tg_consts]: "ModeShadow = 0"
definition ModeHITL :: mode where [tg_consts]: "ModeHITL = 1"
definition ModeSemiAuto :: mode where [tg_consts]: "ModeSemiAuto = 2"
definition ModeFullAuto :: mode where [tg_consts]: "ModeFullAuto = 3"

definition mode_String :: "mode \<Rightarrow> string" where
  "mode_String m =
     (if m = ModeHITL then ''HITL''
      else if m = ModeSemiAuto then ''Semi-auto''
      else if m = ModeFullAuto then ''Full-auto''
      else ''Shadow'')"

definition mode_valid :: "mode \<Rightarrow> bool" where
  "mode_valid m \<longleftrightarrow> m = ModeShadow \<or> m = ModeHITL \<or> m = ModeSemiAuto \<or> m = ModeFullAuto"

datatype mode_error =
    ErrUnknownMode string
  | ErrModeAbsent
  | ErrUnauthorizedModeChange "mode_error option"
  | ErrPreflightNotGreen "mode_error option"
  | ErrStaleMode mode mode
  | ErrEmptyModeChangeActor
  | NotFlipAuthorized string
  | NilLedgerTransition
  | AuditFailed audit_error
  | PersistFailed mode_error
  | ModeStoreError string
  | CorruptSpelling mode_error
  | ErrMutationDisabled
  | SafetyErrPreflightNotGreen
  | ChokepointError string

definition ParseMode :: "string \<Rightarrow> mode_error + mode" where
  "ParseMode s =
     (if s = ''Shadow'' then Inr ModeShadow
      else if s = ''HITL'' then Inr ModeHITL
      else if s = ''Semi-auto'' then Inr ModeSemiAuto
      else if s = ''Full-auto'' then Inr ModeFullAuto
      else Inl (ErrUnknownMode s))"

definition MayAutoActuate :: "mode \<Rightarrow> bool" where
  "MayAutoActuate m \<longleftrightarrow> m = ModeSemiAuto \<or> m = ModeFullAuto"

definition RequiresHumanVote :: "mode \<Rightarrow> bool" where
  "RequiresHumanVote m \<longleftrightarrow> m = ModeHITL"

section \<open>Stores\<close>

record 'db mstore =
  ms_load :: "'db \<Rightarrow> 'db \<times> (mode_error + mode)"
  ms_save :: "'db \<Rightarrow> mode \<Rightarrow> 'db \<times> mode_error option"

record mem_mode =
  mm_mode :: mode
  mm_set :: bool
  mm_loadErr :: "mode_error option"

definition NewMemModeStore :: mem_mode where
  "NewMemModeStore = \<lparr>mm_mode = ModeShadow, mm_set = False, mm_loadErr = None\<rparr>"

definition WithLoadError :: "mode_error \<Rightarrow> mem_mode \<Rightarrow> mem_mode" where
  "WithLoadError e s = s\<lparr>mm_loadErr := Some e\<rparr>"

definition mem_mode_Load :: "mem_mode \<Rightarrow> mem_mode \<times> (mode_error + mode)" where
  "mem_mode_Load s =
     (s, case mm_loadErr s of
           Some e \<Rightarrow> Inl e
         | None \<Rightarrow> if \<not> mm_set s then Inl ErrModeAbsent else Inr (mm_mode s))"

definition mem_mode_Save :: "mem_mode \<Rightarrow> mode \<Rightarrow> mem_mode \<times> mode_error option" where
  "mem_mode_Save s m = (s\<lparr>mm_mode := m, mm_set := True\<rparr>, None)"

definition MemModeStore :: "mem_mode mstore" where
  "MemModeStore = \<lparr>ms_load = mem_mode_Load, ms_save = mem_mode_Save\<rparr>"

text \<open>
  The table \<^verbatim>\<open>policy_mode\<close> has at most one row, the spelling of the mode. Each statement meets the
  next fault of the list: none, an error, or an error reported for a statement that did commit.
\<close>

datatype db_fault = Works | Fails | FailsAfterCommit

record mode_table =
  pm_row :: "string option"
  pm_faults :: "db_fault list"

definition pm_fault :: "mode_table \<Rightarrow> db_fault \<times> mode_table" where
  "pm_fault t = (case pm_faults t of [] \<Rightarrow> (Works, t) | f # fs \<Rightarrow> (f, t\<lparr>pm_faults := fs\<rparr>))"

definition pg_mode_Load :: "mode_table \<Rightarrow> mode_table \<times> (mode_error + mode)" where
  "pg_mode_Load t =
     (case pm_fault t of (f, t1) \<Rightarrow>
        (t1, if f \<noteq> Works then Inl (ModeStoreError ''db: policy_mode load'')
             else case pm_row t1 of
               None \<Rightarrow> Inl ErrModeAbsent
             | Some name \<Rightarrow>
                 (case ParseMode name of
                    Inl e \<Rightarrow> Inl (CorruptSpelling e)
                  | Inr m \<Rightarrow> Inr m)))"

definition pg_mode_Save :: "mode_table \<Rightarrow> mode \<Rightarrow> mode_table \<times> mode_error option" where
  "pg_mode_Save t m =
     (case pm_fault t of (f, t1) \<Rightarrow>
        (if f = Fails then t1 else t1\<lparr>pm_row := Some (mode_String m)\<rparr>,
         if f = Works then None else Some (ModeStoreError ''db: policy_mode save'')))"

definition PolicyModeStore :: "mode_table mstore" where
  "PolicyModeStore = \<lparr>ms_load = pg_mode_Load, ms_save = pg_mode_Save\<rparr>"

section \<open>The controller\<close>

text \<open>
  Its collaborators (\<^const>\<open>None\<close> is nil): the store, the ledger's \<^verbatim>\<open>Append\<close>, the authority checker (its
  first argument says whether the request's context carries the admin mark), the preflight answer
  and the breaker's \<^verbatim>\<open>Rearm\<close>.
\<close>

record ('db, 'l, 'b) ModeController =
  mc_store :: "'db mstore option"
  mc_ledger :: "('l \<Rightarrow> GovDecision \<Rightarrow> (audit_error + LedgerEntry) \<times> 'l) option"
  mc_authz :: "(bool \<Rightarrow> string \<Rightarrow> mode_error option) option"
  mc_preflight :: "mode_error option option"
  mc_rearmer :: "('b \<Rightarrow> 'b \<times> breaker_error option) option"

record ('db, 'l, 'b) mode_world =
  md_current :: mode
  md_gen :: nat
  md_killLatched :: bool
  md_db :: 'db
  md_ledger :: 'l
  md_breaker :: 'b

definition resolveFromStore :: "('db, 'l, 'b) ModeController \<Rightarrow> 'db \<Rightarrow> 'db \<times> mode" where
  "resolveFromStore c db =
     (case mc_store c of
        None \<Rightarrow> (db, ModeShadow)
      | Some s \<Rightarrow>
          (case ms_load s db of
             (db', Inl _) \<Rightarrow> (db', ModeShadow)
           | (db', Inr m) \<Rightarrow> if \<not> mode_valid m then (db', ModeShadow) else (db', m)))"

definition NewModeController :: "('db, 'l, 'b) ModeController \<Rightarrow> 'db \<Rightarrow> 'l \<Rightarrow> 'b \<Rightarrow> ('db, 'l, 'b) mode_world" where
  "NewModeController c db led brk =
     (case resolveFromStore c db of (db', m) \<Rightarrow>
        \<lparr>md_current = m, md_gen = 0, md_killLatched = False, md_db = db', md_ledger = led, md_breaker = brk\<rparr>)"

subsection \<open>The resync tick\<close>

definition persistLatchedKill :: "'db mstore \<Rightarrow> ('db, 'l, 'b) mode_world \<Rightarrow> ('db, 'l, 'b) mode_world" where
  "persistLatchedKill s w =
     (if \<not> md_killLatched w then w
      else case ms_save s (md_db w) ModeShadow of
        (db', Some _) \<Rightarrow> w\<lparr>md_db := db'\<rparr>
      | (db', None) \<Rightarrow> w\<lparr>md_db := db', md_killLatched := False, md_gen := md_gen w + 1\<rparr>)"

definition resync_load :: "'db mstore \<Rightarrow> ('db, 'l, 'b) mode_world \<Rightarrow> (mode_error + mode) \<times> ('db, 'l, 'b) mode_world" where
  "resync_load s w = (case ms_load s (md_db w) of (db', r) \<Rightarrow> (r, w\<lparr>md_db := db'\<rparr>))"

definition resync_publish :: "nat \<Rightarrow> mode_error + mode \<Rightarrow> ('db, 'l, 'b) mode_world \<Rightarrow> mode \<times> ('db, 'l, 'b) mode_world" where
  "resync_publish gen r w =
     (if md_gen w \<noteq> gen then (md_current w, w)
      else case r of
        Inl _ \<Rightarrow> (ModeShadow, w\<lparr>md_current := ModeShadow\<rparr>)
      | Inr stored \<Rightarrow>
          if \<not> mode_valid stored then (ModeShadow, w\<lparr>md_current := ModeShadow\<rparr>)
          else if \<not> MayAutoActuate stored then (stored, w\<lparr>md_current := stored, md_killLatched := False\<rparr>)
          else if md_killLatched w then (ModeShadow, w\<lparr>md_current := ModeShadow\<rparr>)
          else (stored, w\<lparr>md_current := stored\<rparr>))"

definition Resync :: "('db, 'l, 'b) ModeController \<Rightarrow> ('db, 'l, 'b) mode_world \<Rightarrow> mode \<times> ('db, 'l, 'b) mode_world" where
  "Resync c w =
     (case mc_store c of
        None \<Rightarrow> (md_current w, w)
      | Some s \<Rightarrow>
          (let w1 = persistLatchedKill s w; gen = md_gen w1 in
           case resync_load s w1 of (r, w2) \<Rightarrow> resync_publish gen r w2))"

subsection \<open>Operator transitions\<close>

definition transition_record :: "mode \<Rightarrow> mode \<Rightarrow> string \<Rightarrow> string \<Rightarrow> GovDecision" where
  "transition_record f t actor reason =
     \<lparr>gd_Decision = ''mode-transition:'' @ mode_String f @ ''->'' @ mode_String t,
      gd_Reason = ''actor='' @ actor @ '' reason='' @ reason,
      gd_ActionID = ''mode-transition:'' @ mode_String f @ ''->'' @ mode_String t @ '':'' @ actor,
      gd_Withheld = (\<not> MayAutoActuate t)\<rparr>"

definition preflight_refusal :: "('db, 'l, 'b) ModeController \<Rightarrow> mode \<Rightarrow> mode_error option" where
  "preflight_refusal c t =
     (if MayAutoActuate t then
        (case mc_preflight c of
           None \<Rightarrow> Some (ErrPreflightNotGreen None)
         | Some None \<Rightarrow> None
         | Some (Some e) \<Rightarrow> Some (ErrPreflightNotGreen (Some e)))
      else None)"

definition rearm_on_escalation ::
    "('db, 'l, 'b) ModeController \<Rightarrow> mode \<Rightarrow> ('db, 'l, 'b) mode_world \<Rightarrow> ('db, 'l, 'b) mode_world" where
  "rearm_on_escalation c t w =
     (if MayAutoActuate t then
        (case mc_rearmer c of None \<Rightarrow> w | Some r \<Rightarrow> w\<lparr>md_breaker := fst (r (md_breaker w))\<rparr>)
      else w)"

definition save_mode :: "'db mstore option \<Rightarrow> 'db \<Rightarrow> mode \<Rightarrow> 'db \<times> mode_error option" where
  "save_mode so db m = (case so of None \<Rightarrow> (db, None) | Some s \<Rightarrow> ms_save s db m)"

definition Transition ::
    "('db, 'l, 'b) ModeController \<Rightarrow> bool \<Rightarrow> mode \<Rightarrow> mode \<Rightarrow> string \<Rightarrow> string
     \<Rightarrow> ('db, 'l, 'b) mode_world \<Rightarrow> mode_error option \<times> ('db, 'l, 'b) mode_world" where
  "Transition c admin f t actor reason w =
     (if \<not> mode_valid t then (Some (ErrUnknownMode (itoa t)), w)
      else case mc_authz c of
        None \<Rightarrow> (Some (ErrUnauthorizedModeChange None), w)
      | Some authz \<Rightarrow>
        (case authz admin actor of
           Some e \<Rightarrow> (Some (ErrUnauthorizedModeChange (Some e)), w)
         | None \<Rightarrow>
           if md_current w \<noteq> f then (Some (ErrStaleMode f (md_current w)), w)
           else (case preflight_refusal c t of
             Some e \<Rightarrow> (Some e, w)
           | None \<Rightarrow>
             (case mc_ledger c of
                None \<Rightarrow> (Some NilLedgerTransition, w)
              | Some app \<Rightarrow>
                (case app (md_ledger w) (transition_record f t actor reason) of
                   (Inl e, led) \<Rightarrow> (Some (AuditFailed e), w\<lparr>md_ledger := led\<rparr>)
                 | (Inr _, led) \<Rightarrow>
                   (case save_mode (mc_store c) (md_db w) t of
                      (db, Some e) \<Rightarrow> (Some (PersistFailed e), w\<lparr>md_ledger := led, md_db := db\<rparr>)
                    | (db, None) \<Rightarrow>
                        (None, rearm_on_escalation c t
                           (w\<lparr>md_ledger := led, md_db := db, md_current := t, md_gen := md_gen w + 1,
                              md_killLatched := False\<rparr>))))))))"

definition seed_record :: "mode \<Rightarrow> string \<Rightarrow> GovDecision" where
  "seed_record m reason =
     \<lparr>gd_Decision = ''mode-seed:'' @ mode_String ModeShadow @ ''->'' @ mode_String m,
      gd_Reason = ''deploy-time initial mode; reason='' @ reason,
      gd_ActionID = ''mode-seed:'' @ mode_String ModeShadow @ ''->'' @ mode_String m @ '':deploy-config'',
      gd_Withheld = (\<not> MayAutoActuate m)\<rparr>"

definition SeedInitialMode ::
    "('db, 'l, 'b) ModeController \<Rightarrow> mode \<Rightarrow> string
     \<Rightarrow> ('db, 'l, 'b) mode_world \<Rightarrow> mode_error option \<times> ('db, 'l, 'b) mode_world" where
  "SeedInitialMode c configured reason w =
     (case mc_store c of
        None \<Rightarrow> (None, w)
      | Some s \<Rightarrow>
        (case ms_load s (md_db w) of (db1, r1) \<Rightarrow>
          let w1 = w\<lparr>md_db := db1\<rparr> in
          if r1 \<noteq> Inl ErrModeAbsent then (None, w1)
          else if \<not> mode_valid configured \<or> configured = ModeShadow then (None, w1)
          else (case ms_load s (md_db w1) of (db2, r2) \<Rightarrow>
            let w2 = w1\<lparr>md_db := db2\<rparr> in
            if r2 \<noteq> Inl ErrModeAbsent then (None, w2)
            else case preflight_refusal c configured of
              Some e \<Rightarrow> (Some e, w2)
            | None \<Rightarrow>
              (case mc_ledger c of
                 None \<Rightarrow> (Some NilLedgerTransition, w2)
               | Some app \<Rightarrow>
                 (case app (md_ledger w2) (seed_record configured reason) of
                    (Inl e, led) \<Rightarrow> (Some (AuditFailed e), w2\<lparr>md_ledger := led\<rparr>)
                  | (Inr _, led) \<Rightarrow>
                    (case ms_save s (md_db w2) configured of
                       (db3, Some e) \<Rightarrow> (Some (PersistFailed e), w2\<lparr>md_ledger := led, md_db := db3\<rparr>)
                     | (db3, None) \<Rightarrow>
                         (None, w2\<lparr>md_ledger := led, md_db := db3, md_current := configured,
                                   md_gen := md_gen w2 + 1\<rparr>)))))))"

subsection \<open>The safety kill\<close>

definition force_begin :: "('db, 'l, 'b) ModeController \<Rightarrow> ('db, 'l, 'b) mode_world \<Rightarrow> nat \<times> ('db, 'l, 'b) mode_world" where
  "force_begin c w =
     (md_gen w + 1, w\<lparr>md_current := ModeShadow, md_gen := md_gen w + 1, md_killLatched := (mc_store c \<noteq> None)\<rparr>)"

definition force_save :: "'db mstore \<Rightarrow> ('db, 'l, 'b) mode_world \<Rightarrow> bool \<times> ('db, 'l, 'b) mode_world" where
  "force_save s w = (case ms_save s (md_db w) ModeShadow of (db', e) \<Rightarrow> (e = None, w\<lparr>md_db := db'\<rparr>))"

definition force_end :: "nat \<Rightarrow> ('db, 'l, 'b) mode_world \<Rightarrow> ('db, 'l, 'b) mode_world" where
  "force_end myGen w =
     (if md_gen w = myGen then w\<lparr>md_killLatched := False, md_gen := md_gen w + 1\<rparr> else w)"

definition ForceShadow :: "('db, 'l, 'b) ModeController \<Rightarrow> ('db, 'l, 'b) mode_world \<Rightarrow> ('db, 'l, 'b) mode_world" where
  "ForceShadow c w =
     (case force_begin c w of (myGen, w1) \<Rightarrow>
        case mc_store c of
          None \<Rightarrow> w1
        | Some s \<Rightarrow> (case force_save s w1 of (ok, w2) \<Rightarrow> if ok then force_end myGen w2 else w2))"

section \<open>Who may change the mode\<close>

definition normalizeModeOperator :: "string \<Rightarrow> string" where
  "normalizeModeOperator actor = norm_key (trim_prefix (trim_space actor) ''operator:'')"

record ModeTransitionAuthority =
  mt_allow :: "string set"

definition NewModeTransitionAuthority :: "string list \<Rightarrow> ModeTransitionAuthority" where
  "NewModeTransitionAuthority operators =
     \<lparr>mt_allow = set (filter (\<lambda>n. n \<noteq> []) (map normalizeModeOperator operators))\<rparr>"

text \<open>\<^verbatim>\<open>strings.Split\<close> at a single byte.\<close>

fun split_at :: "char \<Rightarrow> string \<Rightarrow> string list" where
  "split_at d [] = [[]]"
| "split_at d (c # cs) =
     (if c = d then [] # split_at d cs
      else (case split_at d cs of [] \<Rightarrow> [[c]] | p # ps \<Rightarrow> (c # p) # ps))"

definition ParseOperatorAllowlist :: "string \<Rightarrow> string list" where
  "ParseOperatorAllowlist csv =
     (if trim_space csv = [] then []
      else filter (\<lambda>s. s \<noteq> []) (map trim_space (split_at CHR '','' csv)))"

definition HasModeChangeAuthority :: "ModeTransitionAuthority \<Rightarrow> bool \<Rightarrow> string \<Rightarrow> mode_error option" where
  "HasModeChangeAuthority a admin actor =
     (let op = normalizeModeOperator actor in
      if op = [] then Some ErrEmptyModeChangeActor
      else if op \<in> mt_allow a then None
      else if mt_allow a = {} \<and> admin then None
      else Some (NotFlipAuthorized op))"

text \<open>
  The operator's entry point: a refused transition leaves its own row, whose append is allowed to
  fail. \<open>errText\<close> renders an error for the row's reason.
\<close>

definition refused_record :: "(mode_error \<Rightarrow> string) \<Rightarrow> mode \<Rightarrow> mode \<Rightarrow> string \<Rightarrow> string \<Rightarrow> mode_error \<Rightarrow> GovDecision" where
  "refused_record errText f t actor reason e =
     \<lparr>gd_Decision = ''mode-transition-refused:'' @ mode_String f @ ''->'' @ mode_String t,
      gd_Reason = ''actor='' @ actor @ '' reason='' @ reason @ '' refused='' @ errText e,
      gd_ActionID = ''mode-transition-refused:'' @ mode_String f @ ''->'' @ mode_String t @ '':'' @ actor,
      gd_Withheld = True\<rparr>"

definition AuditedModeTransition ::
    "(mode_error \<Rightarrow> string) \<Rightarrow> ('db, 'l, 'b) ModeController \<Rightarrow> bool \<Rightarrow> mode \<Rightarrow> mode \<Rightarrow> string \<Rightarrow> string
     \<Rightarrow> ('db, 'l, 'b) mode_world \<Rightarrow> (mode \<times> mode_error option) \<times> ('db, 'l, 'b) mode_world" where
  "AuditedModeTransition errText c admin f t actor reason w =
     (case Transition c admin f t actor reason w of
        (Some e, w1) \<Rightarrow>
          (let w2 = (case mc_ledger c of
                       None \<Rightarrow> w1
                     | Some app \<Rightarrow>
                         w1\<lparr>md_ledger := snd (app (md_ledger w1) (refused_record errText f t actor reason e))\<rparr>)
           in ((md_current w2, Some e), w2))
      | (None, w1) \<Rightarrow> ((md_current w1, None), w1))"

section \<open>The mutation chokepoint\<close>

text \<open>
  A mode authority answers with its current mode, of which only \<^verbatim>\<open>MayAutoActuate\<close> is asked, and can
  be forced to Shadow.
\<close>

record 'm ModeAuthority =
  au_actuates :: "'m \<Rightarrow> bool option"
  au_forceShadow :: "'m \<Rightarrow> 'm"

record 'm Chokepoint =
  ck_mode :: "'m ModeAuthority option"
  ck_preflight :: bool

definition MayActuate :: "bool option \<Rightarrow> bool \<Rightarrow> bool" where
  "MayActuate m preflightGreen \<longleftrightarrow> (case m of None \<Rightarrow> False | Some acts \<Rightarrow> acts) \<and> preflightGreen"

definition NewChokepoint :: "'m ModeAuthority option \<Rightarrow> 'm Chokepoint" where
  "NewChokepoint m = \<lparr>ck_mode = m, ck_preflight = False\<rparr>"

definition NewReadOnlyChokepoint :: "'m Chokepoint" where
  "NewReadOnlyChokepoint = NewChokepoint None"

definition BindMode :: "'m Chokepoint option \<Rightarrow> 'm ModeAuthority option \<Rightarrow> mode_error option \<times> 'm Chokepoint option" where
  "BindMode co m =
     (case co of
        None \<Rightarrow> (Some (ChokepointError ''nil chokepoint''), None)
      | Some c \<Rightarrow>
          if ck_mode c \<noteq> None then (Some (ChokepointError ''already bound''), Some c)
          else (None, Some (c\<lparr>ck_mode := m\<rparr>)))"

definition cp_MayActuate :: "'m Chokepoint option \<Rightarrow> 'm \<Rightarrow> bool" where
  "cp_MayActuate co m =
     (case co of
        None \<Rightarrow> False
      | Some c \<Rightarrow> (case ck_mode c of None \<Rightarrow> False | Some a \<Rightarrow> MayActuate (au_actuates a m) (ck_preflight c)))"

definition GuardMutation :: "'m Chokepoint option \<Rightarrow> 'm \<Rightarrow> mode_error option" where
  "GuardMutation co m = (if \<not> cp_MayActuate co m then Some ErrMutationDisabled else None)"

definition cp_ForceShadow :: "'m Chokepoint option \<Rightarrow> 'm \<Rightarrow> 'm" where
  "cp_ForceShadow co m =
     (case co of
        None \<Rightarrow> m
      | Some c \<Rightarrow> (case ck_mode c of None \<Rightarrow> m | Some a \<Rightarrow> au_forceShadow a m))"

text \<open>The prover's self test is given by its answer; \<^const>\<open>None\<close> is a nil prover.\<close>

definition ProvePreflight :: "'m Chokepoint option \<Rightarrow> string option option \<Rightarrow> mode_error option \<times> 'm Chokepoint option" where
  "ProvePreflight co p =
     (case co of
        None \<Rightarrow> (Some (ChokepointError ''nil chokepoint''), None)
      | Some c \<Rightarrow>
          (case p of
             None \<Rightarrow> (Some (ChokepointError ''nil preflight prover''), Some c)
           | Some (Some e) \<Rightarrow> (Some (ChokepointError e), Some c)
           | Some None \<Rightarrow> (None, Some (c\<lparr>ck_preflight := True\<rparr>))))"

definition IsPreflightGreen :: "'m Chokepoint option \<Rightarrow> bool" where
  "IsPreflightGreen co = (case co of None \<Rightarrow> False | Some c \<Rightarrow> ck_preflight c)"

definition PreflightGreen :: "'m Chokepoint option \<Rightarrow> mode_error option" where
  "PreflightGreen co = (if IsPreflightGreen co then None else Some SafetyErrPreflightNotGreen)"

definition FixedModeAuthority :: "bool ModeAuthority" where
  "FixedModeAuthority = \<lparr>au_actuates = (\<lambda>b. Some b), au_forceShadow = (\<lambda>_. False)\<rparr>"

definition ControllerAuthority :: "('db, 'l, 'b) ModeController \<Rightarrow> ('db, 'l, 'b) mode_world ModeAuthority" where
  "ControllerAuthority c = \<lparr>au_actuates = (\<lambda>w. Some (MayAutoActuate (md_current w))), au_forceShadow = ForceShadow c\<rparr>"

definition NewActuatingChokepoint :: "bool Chokepoint" where
  "NewActuatingChokepoint = (NewChokepoint (Some FixedModeAuthority))\<lparr>ck_preflight := True\<rparr>"


section \<open>Facts about single operations\<close>

lemma ParseMode_String: "mode_valid m \<Longrightarrow> ParseMode (mode_String m) = Inr m"
  by (auto simp: mode_valid_def ParseMode_def mode_String_def tg_consts)

lemma ParseMode_valid: "ParseMode s = Inr m \<Longrightarrow> mode_valid m \<and> mode_String m = s"
  by (auto simp: mode_valid_def ParseMode_def mode_String_def tg_consts split: if_splits)

lemma Shadow_idle [simp]: "\<not> MayAutoActuate ModeShadow" "mode_valid ModeShadow"
  by (simp_all add: MayAutoActuate_def mode_valid_def tg_consts)

lemma actuating_valid: "MayAutoActuate m \<Longrightarrow> mode_valid m"
  by (auto simp: MayAutoActuate_def mode_valid_def)

lemma persistLatchedKill_current [simp]: "md_current (persistLatchedKill s w) = md_current w"
  by (simp add: persistLatchedKill_def split: prod.split option.split)

lemma force_begin_current [simp]: "md_current (snd (force_begin c w)) = ModeShadow"
  by (simp add: force_begin_def)

lemma force_save_keeps [simp]:
  "md_current (snd (force_save s w)) = md_current w" "md_gen (snd (force_save s w)) = md_gen w"
  "md_killLatched (snd (force_save s w)) = md_killLatched w"
  by (simp_all add: force_save_def split: prod.split)

lemma resync_load_keeps [simp]:
  "md_current (snd (resync_load s w)) = md_current w" "md_gen (snd (resync_load s w)) = md_gen w"
  "md_killLatched (snd (resync_load s w)) = md_killLatched w"
  by (simp_all add: resync_load_def split: prod.split)

lemma force_end_current [simp]: "md_current (force_end g w) = md_current w"
  by (simp add: force_end_def)

lemma force_end_db [simp]: "md_db (force_end g w) = md_db w"
  by (simp add: force_end_def)

lemma rearm_keeps [simp]:
  "md_current (rearm_on_escalation c t w) = md_current w" "md_gen (rearm_on_escalation c t w) = md_gen w"
  "md_killLatched (rearm_on_escalation c t w) = md_killLatched w" "md_db (rearm_on_escalation c t w) = md_db w"
  "md_ledger (rearm_on_escalation c t w) = md_ledger w"
  by (simp_all add: rearm_on_escalation_def split: option.split)

lemma ForceShadow_current [simp]: "md_current (ForceShadow c w) = ModeShadow"
  by (auto simp: ForceShadow_def force_begin_def force_save_def split: prod.splits option.splits)

text \<open>Every branch of a transition: refused before, at the ledger, at the store, or done.\<close>

lemma Transition_cases:
  assumes "Transition c admin f t actor reason w = (r, w')"
  obtains (refused) e where "r = Some e" and "w' = w"
  | (unaudited) app e led where "r = Some (AuditFailed e)" and "w' = w\<lparr>md_ledger := led\<rparr>"
      and "mc_ledger c = Some app" and "app (md_ledger w) (transition_record f t actor reason) = (Inl e, led)"
  | (unsaved) app x led e db where "r = Some (PersistFailed e)" and "w' = w\<lparr>md_ledger := led, md_db := db\<rparr>"
      and "mc_ledger c = Some app" and "app (md_ledger w) (transition_record f t actor reason) = (Inr x, led)"
      and "save_mode (mc_store c) (md_db w) t = (db, Some e)"
  | (moved) authz app x led db where "r = None" and "mode_valid t" and "mc_authz c = Some authz" and "authz admin actor = None"
      and "md_current w = f" and "preflight_refusal c t = None"
      and "mc_ledger c = Some app" and "app (md_ledger w) (transition_record f t actor reason) = (Inr x, led)"
      and "save_mode (mc_store c) (md_db w) t = (db, None)"
      and "w' = rearm_on_escalation c t (w\<lparr>md_ledger := led, md_db := db, md_current := t, md_gen := md_gen w + 1,
              md_killLatched := False\<rparr>)"
proof (cases "\<exists>e. r = Some e \<and> w' = w")
  case True
  then show ?thesis using refused by blast
next
  case False
  then obtain authz app where g: "mode_valid t" "mc_authz c = Some authz" "authz admin actor = None"
      "md_current w = f" "preflight_refusal c t = None" "mc_ledger c = Some app"
    using assms by (simp add: Transition_def split: if_splits option.splits)
  obtain x led where a: "app (md_ledger w) (transition_record f t actor reason) = (x, led)" by (metis prod.exhaust)
  obtain db so where sv: "save_mode (mc_store c) (md_db w) t = (db, so)" by (metis prod.exhaust)
  show ?thesis
  proof (cases x)
    case (Inl e)
    with assms g a show ?thesis by (intro unaudited [where app = app and e = e and led = led]) (simp_all add: Transition_def)
  next
    case (Inr y)
    show ?thesis
    proof (cases so)
      case None
      with assms g a sv Inr show ?thesis by (intro moved [where authz = authz and app = app and x = y and led = led and db = db]) (simp_all add: Transition_def)
    next
      case (Some e)
      with assms g a sv Inr show ?thesis by (intro unsaved [where app = app and x = y and led = led and e = e and db = db]) (simp_all add: Transition_def)
    qed
  qed
qed

lemma Transition_gen: "md_gen w \<le> md_gen (snd (Transition c admin f t actor reason w))"
proof -
  obtain r w' where t: "Transition c admin f t actor reason w = (r, w')" by (metis prod.exhaust)
  from t have "md_gen w \<le> md_gen w'" by (cases rule: Transition_cases) simp_all
  with t show ?thesis by simp
qed

lemma SeedInitialMode_gen: "md_gen w \<le> md_gen (snd (SeedInitialMode c m reason w))"
  by (auto simp: SeedInitialMode_def Let_def split: option.split prod.split sum.split)


section \<open>Interfaces\<close>

text \<open>
  What the controller relies on of a store: \<open>row\<close> is the mode a working read returns (\<^const>\<open>None\<close> when
  there is none to return). A read changes nothing and never invents a mode; a save that reports
  success is on record, and one that reports an error may or may not be.
\<close>

locale mode_store =
  fixes st :: "'db mstore" and row :: "'db \<Rightarrow> mode option"
  assumes load_pure: "ms_load st db = (db', r) \<Longrightarrow> row db' = row db"
    and load_row: "ms_load st db = (db', Inr m) \<Longrightarrow> row db = Some m"
    and save_ok: "ms_save st db m = (db', None) \<Longrightarrow> mode_valid m \<Longrightarrow> row db' = Some m"
    and save_err: "ms_save st db m = (db', Some e) \<Longrightarrow> mode_valid m \<Longrightarrow> row db' = row db \<or> row db' = Some m"
begin

definition armed :: "'db \<Rightarrow> bool" where
  "armed db \<longleftrightarrow> (\<exists>m. row db = Some m \<and> MayAutoActuate m)"

lemma load_armed: "ms_load st db = (db', r) \<Longrightarrow> armed db' = armed db"
  using load_pure by (simp add: armed_def)

lemma load_actuating: "ms_load st db = (db', Inr m) \<Longrightarrow> armed db = MayAutoActuate m"
  using load_row by (simp add: armed_def)

lemma save_shadow_ok: "ms_save st db ModeShadow = (db', None) \<Longrightarrow> \<not> armed db'"
  using save_ok by (fastforce simp: armed_def)

lemma save_shadow: "ms_save st db ModeShadow = (db', r) \<Longrightarrow> armed db' \<Longrightarrow> armed db"
  using save_ok save_err by (cases r) (fastforce simp: armed_def)+

end

lemma pm_fault_row: "pm_fault t = (f, t1) \<Longrightarrow> pm_row t1 = pm_row t"
  by (auto simp: pm_fault_def split: list.splits)

definition pg_mode_row :: "mode_table \<Rightarrow> mode option" where
  "pg_mode_row t =
     (case pm_row t of None \<Rightarrow> None | Some s \<Rightarrow> (case ParseMode s of Inl _ \<Rightarrow> None | Inr m \<Rightarrow> Some m))"

interpretation pg_mode: mode_store PolicyModeStore pg_mode_row
proof unfold_locales
  fix db db' :: mode_table and r m e
  show "ms_load PolicyModeStore db = (db', r) \<Longrightarrow> pg_mode_row db' = pg_mode_row db"
    by (auto simp: PolicyModeStore_def pg_mode_Load_def pg_mode_row_def pm_fault_row split: prod.splits)
  show "ms_load PolicyModeStore db = (db', Inr m) \<Longrightarrow> pg_mode_row db = Some m"
    by (auto simp: PolicyModeStore_def pg_mode_Load_def pg_mode_row_def pm_fault_row
             split: prod.splits if_splits option.splits sum.splits)
  show "ms_save PolicyModeStore db m = (db', None) \<Longrightarrow> mode_valid m \<Longrightarrow> pg_mode_row db' = Some m"
    by (auto simp: PolicyModeStore_def pg_mode_Save_def pg_mode_row_def ParseMode_String split: prod.splits if_splits)
  show "ms_save PolicyModeStore db m = (db', Some e) \<Longrightarrow> mode_valid m
          \<Longrightarrow> pg_mode_row db' = pg_mode_row db \<or> pg_mode_row db' = Some m"
    by (auto simp: PolicyModeStore_def pg_mode_Save_def pg_mode_row_def ParseMode_String pm_fault_row
             split: prod.splits if_splits)
qed

interpretation mem_mode: mode_store MemModeStore "\<lambda>s. if mm_set s then Some (mm_mode s) else None"
  by unfold_locales
     (auto simp: MemModeStore_def mem_mode_Load_def mem_mode_Save_def split: option.splits if_splits)

text \<open>What the chokepoint relies on of a mode authority: once forced to Shadow, it does not actuate.\<close>

locale mode_authority =
  fixes au :: "'m ModeAuthority"
  assumes forced: "au_actuates au (au_forceShadow au m) \<noteq> Some True"
begin

lemma killed_refuses:
  assumes "ck_mode ck = Some au"
  shows "GuardMutation (Some ck) (cp_ForceShadow (Some ck) m) = Some ErrMutationDisabled"
  using assms forced [of m]
  by (auto simp: GuardMutation_def cp_MayActuate_def cp_ForceShadow_def MayActuate_def split: option.splits)

end

interpretation fixed_authority: mode_authority FixedModeAuthority
  by unfold_locales (simp add: FixedModeAuthority_def)

interpretation controller_authority: mode_authority "ControllerAuthority c" for c
  by unfold_locales (simp add: ControllerAuthority_def)

section \<open>Interleaved execution\<close>

text \<open>
  One process: the controller, its single resync loop, any number of safety kills in flight, operator
  transitions, and other processes that write the table and make statements fail at any time.
  A transition holds the lock from its comparison to its publication and is one step.

  \<open>sy_quiet\<close> is a ghost: a kill was ordered, and since then nobody (no transition or seed in this
  process, no other process) has tried to write an actuating mode.
\<close>

datatype resync_pc = RIdle | RPersisted | RGen nat | RRead nat "mode_error + mode"

record ('db, 'l, 'b) mode_sys =
  sy_w :: "('db, 'l, 'b) mode_world"
  sy_resync :: resync_pc
  sy_begun :: "nat set"
  sy_saved :: "nat set"
  sy_quiet :: bool

inductive sys_step ::
    "('db, 'l, 'b) ModeController \<Rightarrow> 'db mstore \<Rightarrow> ('db \<Rightarrow> mode option)
     \<Rightarrow> ('db, 'l, 'b) mode_sys \<Rightarrow> ('db, 'l, 'b) mode_sys \<Rightarrow> bool"
  for c st row where
  kill_begin: "force_begin c (sy_w s) = (g, w') \<Longrightarrow>
    sys_step c st row s (s\<lparr>sy_w := w', sy_begun := insert g (sy_begun s), sy_quiet := True\<rparr>)"
| kill_saved: "g \<in> sy_begun s \<Longrightarrow> force_save st (sy_w s) = (True, w') \<Longrightarrow>
    sys_step c st row s (s\<lparr>sy_w := w', sy_begun := sy_begun s - {g}, sy_saved := insert g (sy_saved s)\<rparr>)"
| kill_unsaved: "g \<in> sy_begun s \<Longrightarrow> force_save st (sy_w s) = (False, w') \<Longrightarrow>
    sys_step c st row s (s\<lparr>sy_w := w', sy_begun := sy_begun s - {g}\<rparr>)"
| kill_end: "g \<in> sy_saved s \<Longrightarrow>
    sys_step c st row s (s\<lparr>sy_w := force_end g (sy_w s), sy_saved := sy_saved s - {g}\<rparr>)"
| tick_persist: "sy_resync s = RIdle \<Longrightarrow>
    sys_step c st row s (s\<lparr>sy_w := persistLatchedKill st (sy_w s), sy_resync := RPersisted\<rparr>)"
| tick_gen: "sy_resync s = RPersisted \<Longrightarrow>
    sys_step c st row s (s\<lparr>sy_resync := RGen (md_gen (sy_w s))\<rparr>)"
| tick_load: "sy_resync s = RGen g \<Longrightarrow> resync_load st (sy_w s) = (r, w') \<Longrightarrow>
    sys_step c st row s (s\<lparr>sy_w := w', sy_resync := RRead g r\<rparr>)"
| tick_publish: "sy_resync s = RRead g r \<Longrightarrow>
    sys_step c st row s (s\<lparr>sy_w := snd (resync_publish g r (sy_w s)), sy_resync := RIdle\<rparr>)"
| operator: "sys_step c st row s
    (s\<lparr>sy_w := snd (Transition c admin f t actor reason (sy_w s)), sy_quiet := False\<rparr>)"
| seed: "sys_step c st row s
    (s\<lparr>sy_w := snd (SeedInitialMode c m reason (sy_w s)), sy_quiet := False\<rparr>)"
| others: "sys_step c st row s
    (s\<lparr>sy_w := (sy_w s)\<lparr>md_db := db\<rparr>,
       sy_quiet := (sy_quiet s \<and> (row db = row (md_db (sy_w s)) \<or> (\<forall>m. row db = Some m \<longrightarrow> \<not> MayAutoActuate m)))\<rparr>)"

definition sys_init :: "('db, 'l, 'b) mode_world \<Rightarrow> ('db, 'l, 'b) mode_sys" where
  "sys_init w = \<lparr>sy_w = w, sy_resync = RIdle, sy_begun = {}, sy_saved = {}, sy_quiet = False\<rparr>"

context mode_store
begin

text \<open>Bookkeeping that always holds: every generation somebody remembers is past or present.\<close>

definition gens_ok :: "('db, 'l, 'b) mode_sys \<Rightarrow> bool" where
  "gens_ok s \<longleftrightarrow>
     (\<forall>g \<in> sy_begun s \<union> sy_saved s. g \<le> md_gen (sy_w s))
     \<and> (case sy_resync s of RGen g \<Rightarrow> g \<le> md_gen (sy_w s) | RRead g _ \<Rightarrow> g \<le> md_gen (sy_w s) | _ \<Rightarrow> True)"

text \<open>What a kill establishes and everything but a fresh decision to actuate preserves.\<close>

definition read_ok :: "('db, 'l, 'b) mode_world \<Rightarrow> resync_pc \<Rightarrow> bool" where
  "read_ok w p \<longleftrightarrow>
     (case p of
        RRead g (Inr m) \<Rightarrow> g = md_gen w \<longrightarrow> (if MayAutoActuate m then md_killLatched w else \<not> armed (md_db w))
      | _ \<Rightarrow> True)"

definition held :: "('db, 'l, 'b) mode_sys \<Rightarrow> bool" where
  "held s \<longleftrightarrow>
     (let w = sy_w s in
      \<not> MayAutoActuate (md_current w)
      \<and> (\<not> md_killLatched w \<longrightarrow> \<not> armed (md_db w))
      \<and> (md_gen w \<in> sy_saved s \<longrightarrow> \<not> armed (md_db w))
      \<and> read_ok w (sy_resync s))"

lemma persist_gen: "md_gen w \<le> md_gen (persistLatchedKill st w)"
  by (simp add: persistLatchedKill_def split: prod.split option.split)

lemma force_end_gen: "md_gen w \<le> md_gen (force_end g w)"
  by (simp add: force_end_def)

lemma publish_gen: "md_gen (snd (resync_publish g r w)) = md_gen w"
  by (simp add: resync_publish_def split: sum.split)

lemma gens_ok_mono:
  assumes "gens_ok s" and "md_gen (sy_w s) \<le> md_gen (sy_w s')"
    and "sy_begun s' \<union> sy_saved s' \<subseteq> insert (md_gen (sy_w s')) (sy_begun s \<union> sy_saved s)"
    and "sy_resync s' = sy_resync s \<or> sy_resync s' \<in> {RIdle, RPersisted, RGen (md_gen (sy_w s'))}
         \<or> (\<exists>g r. sy_resync s = RGen g \<and> sy_resync s' = RRead g r)"
  shows "gens_ok s'"
proof -
  have "\<forall>g \<in> sy_begun s' \<union> sy_saved s'. g \<le> md_gen (sy_w s')"
  proof
    fix g
    assume "g \<in> sy_begun s' \<union> sy_saved s'"
    then have "g = md_gen (sy_w s') \<or> g \<in> sy_begun s \<union> sy_saved s" using assms(3) by blast
    then show "g \<le> md_gen (sy_w s')" using assms(1,2) unfolding gens_ok_def by (meson order.trans order_refl)
  qed
  moreover have "case sy_resync s' of RGen g \<Rightarrow> g \<le> md_gen (sy_w s') | RRead g _ \<Rightarrow> g \<le> md_gen (sy_w s') | _ \<Rightarrow> True"
    using assms(1,2,4) by (auto simp: gens_ok_def split: resync_pc.splits)
  ultimately show ?thesis by (simp add: gens_ok_def)
qed

lemma gens_ok_step:
  assumes "sys_step c st row s s'" and "gens_ok s"
  shows "gens_ok s'"
  using assms(1)
proof cases
  case (kill_begin g w')
  then show ?thesis by (intro gens_ok_mono [OF assms(2)]) (auto simp: force_begin_def)
next
  case (kill_saved g w')
  then show ?thesis using force_save_keeps(2) [of st "sy_w s"]
    by (intro gens_ok_mono [OF assms(2)]) auto
next
  case (kill_unsaved g w')
  then show ?thesis using force_save_keeps(2) [of st "sy_w s"]
    by (intro gens_ok_mono [OF assms(2)]) auto
next
  case (tick_load g r w')
  then show ?thesis using resync_load_keeps(2) [of st "sy_w s"]
    by (intro gens_ok_mono [OF assms(2)]) auto
qed (intro gens_ok_mono [OF assms(2)];
     auto simp: Transition_gen SeedInitialMode_gen persist_gen force_end_gen publish_gen)+

text \<open>The invariant of a kill, step by step.\<close>

lemma saved_fresh: "gens_ok s \<Longrightarrow> Suc (md_gen (sy_w s)) \<notin> sy_saved s"
  unfolding gens_ok_def by (meson UnI2 not_less_eq_eq order_refl)

lemma read_fresh:
  assumes "gens_ok s" and "md_gen w = Suc (md_gen (sy_w s))"
  shows "read_ok w (sy_resync s)"
  using assms by (auto simp: gens_ok_def read_ok_def split: resync_pc.splits sum.splits)

lemma held_kill_begin:
  assumes "gens_ok s" and "force_begin c (sy_w s) = (g, w')" and "mc_store c \<noteq> None"
  shows "held (s\<lparr>sy_w := w', sy_begun := insert g (sy_begun s), sy_quiet := q\<rparr>)"
  using assms(2,3) saved_fresh [OF assms(1)] read_fresh [OF assms(1), of w']
  by (auto simp: held_def force_begin_def Let_def)

lemma held_save_shadow:
  assumes "held s" and "force_save st (sy_w s) = (ok, w')" and "ok \<or> sv = sy_saved s" and "sv \<subseteq> insert g (sy_saved s)"
  shows "held (s\<lparr>sy_w := w', sy_begun := bg, sy_saved := sv\<rparr>)"
proof -
  obtain db' e where e: "ms_save st (md_db (sy_w s)) ModeShadow = (db', e)" by (metis prod.exhaust)
  then have w': "w' = (sy_w s)\<lparr>md_db := db'\<rparr>" and ok: "ok \<longleftrightarrow> e = None" using assms(2) by (auto simp: force_save_def)
  have keep: "armed db' \<Longrightarrow> armed (md_db (sy_w s))" using save_shadow [OF e] .
  have "ok \<Longrightarrow> \<not> armed db'" using ok e save_shadow_ok by blast
  with assms(1,3) keep show ?thesis
    unfolding held_def read_ok_def w' by (fastforce simp: Let_def split: resync_pc.splits sum.splits if_splits)
qed

lemma held_kill_end:
  assumes "gens_ok s" and "held s" and "g \<in> sy_saved s"
  shows "held (s\<lparr>sy_w := force_end g (sy_w s), sy_saved := sy_saved s - {g}\<rparr>)"
proof (cases "md_gen (sy_w s) = g")
  case True
  then have "read_ok (force_end g (sy_w s)) (sy_resync s)"
    by (intro read_fresh [OF assms(1)]) (simp add: force_end_def)
  then show ?thesis using assms True saved_fresh [OF assms(1)] by (auto simp: held_def force_end_def Let_def)
next
  case False
  then show ?thesis using assms by (auto simp: held_def force_end_def Let_def)
qed

lemma held_persist:
  assumes "gens_ok s" and "held s"
  shows "held (s\<lparr>sy_w := persistLatchedKill st (sy_w s), sy_resync := RPersisted\<rparr>)"
proof -
  obtain db' e where e: "ms_save st (md_db (sy_w s)) ModeShadow = (db', e)" by (metis prod.exhaust)
  have keep: "armed db' \<Longrightarrow> armed (md_db (sy_w s))" using save_shadow [OF e] .
  have "e = None \<Longrightarrow> \<not> armed db'" using e save_shadow_ok by blast
  then show ?thesis using assms(2) e keep saved_fresh [OF assms(1)]
    by (auto simp: held_def read_ok_def persistLatchedKill_def Let_def split: option.splits)
qed

lemma held_load:
  assumes "held s" and "resync_load st (sy_w s) = (r, w')"
  shows "held (s\<lparr>sy_w := w', sy_resync := RRead g r\<rparr>)"
proof -
  obtain db' where l: "ms_load st (md_db (sy_w s)) = (db', r)" and w': "w' = (sy_w s)\<lparr>md_db := db'\<rparr>"
    using assms(2) by (auto simp: resync_load_def split: prod.splits)
  have "armed db' = armed (md_db (sy_w s))" using load_armed [OF l] .
  moreover have "r = Inr m \<Longrightarrow> armed (md_db (sy_w s)) = MayAutoActuate m" for m using l load_actuating by blast
  ultimately show ?thesis using assms(1) by (auto simp: held_def read_ok_def w' Let_def split: sum.splits)
qed

lemma held_publish:
  assumes "held s" and "sy_resync s = RRead g r"
  shows "held (s\<lparr>sy_w := snd (resync_publish g r (sy_w s)), sy_resync := RIdle\<rparr>)"
  using assms by (auto simp: held_def read_ok_def resync_publish_def Let_def split: sum.splits if_splits)

lemma held_step:
  assumes "sys_step c st row s s'" and "mc_store c = Some st" and "gens_ok s"
    and "sy_quiet s \<Longrightarrow> held s" and "sy_quiet s'"
  shows "held s'"
  using assms(1)
proof cases
  case (kill_begin g w')
  then show ?thesis using held_kill_begin [OF assms(3)] assms(2) by simp
next
  case (kill_saved g w')
  then show ?thesis using held_save_shadow [of s True w' _ g] assms(4,5) by simp
next
  case (kill_unsaved g w')
  then show ?thesis using held_save_shadow [of s False w' "sy_saved s" g "sy_begun s - {g}"] assms(4,5) by auto
next
  case (kill_end g)
  then show ?thesis using held_kill_end [OF assms(3)] assms(4,5) by simp
next
  case tick_persist
  then show ?thesis using held_persist [OF assms(3)] assms(4,5) by simp
next
  case tick_gen
  then show ?thesis using assms(4,5) by (simp add: held_def read_ok_def)
next
  case (tick_load g r w')
  then show ?thesis using held_load assms(4,5) by simp
next
  case (tick_publish g r)
  then show ?thesis using held_publish assms(4,5) by simp
next
  case (others db)
  then have "sy_quiet s" and "armed db \<longrightarrow> armed (md_db (sy_w s))" using assms(5) by (auto simp: armed_def)
  then show ?thesis using assms(4) others(1)
    by (auto simp: held_def read_ok_def Let_def split: resync_pc.splits sum.splits if_splits)
qed (use assms(5) in simp_all)

lemma kill_invariant:
  assumes "(sys_step c st row)\<^sup>*\<^sup>* (sys_init w) s" and "mc_store c = Some st"
  shows "gens_ok s \<and> (sy_quiet s \<longrightarrow> held s)"
  using assms(1)
proof induction
  case base
  then show ?case by (simp add: gens_ok_def sys_init_def)
next
  case (step s s')
  then show ?case using gens_ok_step held_step [OF _ assms(2)] by blast
qed

end


lemma resolve_pg:
  assumes "mc_store c = Some PolicyModeStore" and "resolveFromStore c db = (db', m)" and "MayAutoActuate m"
  shows "pg_mode_row db = Some m"
  using assms pg_mode.load_row [of db] by (auto simp: resolveFromStore_def split: prod.splits sum.splits if_splits)

lemma pg_row_spelling: "pg_mode_row t = Some m \<Longrightarrow> pm_row t = Some (mode_String m)"
  by (auto simp: pg_mode_row_def dest: ParseMode_valid split: option.splits sum.splits)

lemma unlatched_on_record:
  assumes "mc_store c = Some PolicyModeStore" and "\<not> md_killLatched (ForceShadow c w)"
  shows "pg_mode_row (md_db (ForceShadow c w)) = Some ModeShadow"
proof -
  obtain ok w2 where s: "force_save PolicyModeStore (snd (force_begin c w)) = (ok, w2)" by (metis prod.exhaust)
  then have "md_killLatched w2" using assms(1) force_save_keeps(3) [of PolicyModeStore "snd (force_begin c w)"]
    by (simp add: force_begin_def)
  then have ok: "ok" using assms s by (auto simp: ForceShadow_def split: prod.splits if_splits)
  then have "ms_save PolicyModeStore (md_db w) ModeShadow = (md_db w2, None)"
    using s by (auto simp: force_save_def force_begin_def split: prod.splits)
  then have "pg_mode_row (md_db w2) = Some ModeShadow" using pg_mode.save_ok by simp
  then show ?thesis using assms(1) s ok by (auto simp: ForceShadow_def split: prod.splits)
qed

section \<open>Properties\<close>


text \<open>
  C30. A transition that succeeds was asked for by an authorised actor, from the mode that was really
  active, to a known mode, with a green preflight if the new mode actuates; its row went to the ledger
  and the mode to the store before it was published. A transition that fails, at whatever point,
  leaves the active mode, the generation and a pending kill as they were.
\<close>

theorem transition_guarded:
  assumes "Transition c admin f t actor reason w = (r, w')"
  shows "(r = None \<longrightarrow>
            md_current w = f \<and> md_current w' = t \<and> mode_valid t
            \<and> (\<exists>authz. mc_authz c = Some authz \<and> authz admin actor = None)
            \<and> (MayAutoActuate t \<longrightarrow> mc_preflight c = Some None)
            \<and> (\<exists>app e. mc_ledger c = Some app
                 \<and> app (md_ledger w) (transition_record f t actor reason) = (Inr e, md_ledger w'))
            \<and> save_mode (mc_store c) (md_db w) t = (md_db w', None))
       \<and> (r \<noteq> None \<longrightarrow>
            md_current w' = md_current w \<and> md_gen w' = md_gen w \<and> md_killLatched w' = md_killLatched w
            \<and> md_breaker w' = md_breaker w)"
  using assms
  by (cases rule: Transition_cases) (auto simp: preflight_refusal_def split: if_splits option.splits)

text \<open>
  C39. Booting fails closed: whatever the table holds and whichever statement fails, a process comes up
  in an actuating mode only when the table spells exactly that mode. A kill whose latch is off is on
  record, so a restart, with any faults, comes up in Shadow.
\<close>

theorem boot_fails_closed:
  assumes "mc_store c = Some PolicyModeStore"
  shows "(MayAutoActuate (md_current (NewModeController c db led brk)) \<longrightarrow>
            pm_row db = Some (mode_String (md_current (NewModeController c db led brk))))
       \<and> (\<not> md_killLatched (ForceShadow c w) \<longrightarrow>
            \<not> MayAutoActuate (md_current (NewModeController c ((md_db (ForceShadow c w))\<lparr>pm_faults := fs\<rparr>) led brk)))"
proof -
  have boot: "MayAutoActuate (md_current (NewModeController c t led brk)) \<Longrightarrow>
      pg_mode_row t = Some (md_current (NewModeController c t led brk))" for t
    using resolve_pg [OF assms] by (auto simp: NewModeController_def split: prod.splits)
  let ?t = "(md_db (ForceShadow c w))\<lparr>pm_faults := fs\<rparr>"
  have "\<not> MayAutoActuate (md_current (NewModeController c ?t led brk))" if "\<not> md_killLatched (ForceShadow c w)"
  proof
    assume "MayAutoActuate (md_current (NewModeController c ?t led brk))"
    moreover have "pg_mode_row ?t = Some ModeShadow"
      using unlatched_on_record [OF assms that] by (simp add: pg_mode_row_def)
    ultimately show False using boot [of ?t] by simp
  qed
  with boot [of db] pg_row_spelling [of db] show ?thesis by blast
qed

text \<open>
  The authority of a list of operators: an actor may change the mode exactly when his name,
  stripped of blanks, of one \<^verbatim>\<open>operator:\<close> prefix and of case, is not empty and either names an operator
  of the list or the list names nobody and the request carries the admin mark.
\<close>

theorem authority_exact:
  "HasModeChangeAuthority (NewModeTransitionAuthority ops) admin actor = None \<longleftrightarrow>
     normalizeModeOperator actor \<noteq> []
     \<and> (normalizeModeOperator actor \<in> normalizeModeOperator ` set ops
        \<or> admin \<and> normalizeModeOperator ` set ops \<subseteq> {[]})"
  by (auto simp: HasModeChangeAuthority_def NewModeTransitionAuthority_def Let_def filter_empty_conv)

section \<open>Concrete controllers\<close>

definition demo_controller :: "(mode_table, Ledger, unit) ModeController" where
  "demo_controller =
     \<lparr>mc_store = Some PolicyModeStore, mc_ledger = Some (\<lambda>l d. append_mem (\<lambda>_. ''h'') d l),
      mc_authz = Some (HasModeChangeAuthority (NewModeTransitionAuthority [''alice''])),
      mc_preflight = Some None, mc_rearmer = None\<rparr>"

definition demo_mode_table :: "db_fault list \<Rightarrow> mode_table" where
  "demo_mode_table fs = \<lparr>pm_row = Some ''Full-auto'', pm_faults = fs\<rparr>"

definition demo_mode_world :: "db_fault list \<Rightarrow> (mode_table, Ledger, unit) mode_world" where
  "demo_mode_world fs = NewModeController demo_controller (demo_mode_table fs) NewLedger ()"

definition demo_chokepoint :: "(mode_table, Ledger, unit) mode_world Chokepoint" where
  "demo_chokepoint = \<lparr>ck_mode = Some (ControllerAuthority demo_controller), ck_preflight = True\<rparr>"

lemma run_of_six:
  assumes "R a b" and "R b c" and "R c d" and "R d e" and "R e f" and "R f g"
  shows "R\<^sup>*\<^sup>* a g"
  using assms by (meson converse_rtranclp_into_rtranclp rtranclp.rtrancl_refl)


theorem transition_guarded_witness:
  "fst (Transition demo_controller False ModeFullAuto ModeHITL ''operator:Alice'' ''calm'' (demo_mode_world [])) = None
   \<and> md_current (snd (Transition demo_controller False ModeFullAuto ModeHITL ''operator:Alice'' ''calm'' (demo_mode_world []))) = ModeHITL"
proof -
  let ?t = "Transition demo_controller False ModeFullAuto ModeHITL ''operator:Alice'' ''calm'' (demo_mode_world [])"
  have "fst ?t = None" by code_simp
  moreover have "?t = (fst ?t, snd ?t)" by simp
  ultimately show ?thesis using transition_guarded by blast
qed

theorem boot_fails_closed_witness:
  "\<not> md_killLatched (ForceShadow demo_controller (demo_mode_world []))
   \<and> \<not> MayAutoActuate (md_current (NewModeController demo_controller
          ((md_db (ForceShadow demo_controller (demo_mode_world [])))\<lparr>pm_faults := []\<rparr>) NewLedger ()))"
proof -
  have "\<not> md_killLatched (ForceShadow demo_controller (demo_mode_world []))" by code_simp
  moreover have "mc_store demo_controller = Some PolicyModeStore" by (simp add: demo_controller_def)
  ultimately show ?thesis
    using boot_fails_closed [where c = demo_controller and w = "demo_mode_world []" and fs = "[]"] by blast
qed

end
