(* ===== verification/Policy_Engine.thy ===== *)
theory Policy_Engine
  imports Policy_Floor Graduation Mode
begin

text \<open>
  The policy engine, \<^verbatim>\<open>core/policy/engine.go\<close>: the ordered pipeline from the rules to the verdict on
  one action, and the identity of the rule bundle that was in force.

  The rate governor and the graduation ladder are part of the engine's state and are threaded
  through; the graduation table is the ladder's own. The Rego interpreter behind \<^verbatim>\<open>evaluate\<close> is the
  parameter \<open>opa\<close> of the evaluator; the bundle identity takes JSON encoding (\<open>enc\<close>, \<^const>\<open>None\<close> when it
  fails) and the hex digest \<open>H\<close> as parameters.
\<close>

section \<open>Decisions\<close>

record BaseDecision =
  bd_Verdict :: pverdict
  bd_MatchedRuleID :: string
  bd_Reason :: string

record MatchedRule =
  mr_ID :: string
  mr_Verdict :: pverdict

text \<open>The record of a stage that did not run is the zero value in the source and \<^const>\<open>None\<close> here.\<close>

record DecisionAudit =
  da_Base :: BaseDecision
  da_NeverAutoFloor :: bool
  da_Refine :: "RefineRecord option"
  da_Compose :: "ComposeRecord option"
  da_GraduatedVerdict :: pverdict
  da_Graduation :: "int option"
  da_Floor :: "FloorRecord option"
  da_BundleVersion :: string
  da_MatchedRules :: "MatchedRule list"
  da_ActionID :: string
  da_ExternalRef :: string
  da_Principal :: string

record PolicyDecision =
  pd_verdict :: pverdict
  pd_matchedRuleID :: string
  pd_composedBand :: band
  pd_approveBy :: "string list"
  pd_mode :: mode
  pd_reason :: string
  pd_audit :: DecisionAudit

definition NewPolicyDecision ::
    "pverdict \<Rightarrow> string \<Rightarrow> band \<Rightarrow> string list \<Rightarrow> mode \<Rightarrow> string \<Rightarrow> DecisionAudit \<Rightarrow> PolicyDecision" where
  "NewPolicyDecision v rid b approvers m reason audit =
     \<lparr>pd_verdict = v, pd_matchedRuleID = rid, pd_composedBand = b, pd_approveBy = approvers, pd_mode = m,
      pd_reason = reason, pd_audit = audit\<rparr>"

section \<open>The bundle identity\<close>

record canonMatch =
  cm_SelectorKind :: string
  cm_SelectorPattern :: string
  cm_OpClass :: string
  cm_ArgvPattern :: string
  cm_Territory :: string
  cm_Reversible :: "bool option"

record canonRule =
  cn_ID :: string
  cn_Verdict :: string
  cn_Match :: canonMatch
  cn_Params :: Params
  cn_ApproveBy :: "string list"
  cn_IsDefault :: bool

record canonSet =
  cs_Default :: Params
  cs_Rules :: "canonRule list"

definition canon_rule :: "Rule \<Rightarrow> canonRule" where
  "canon_rule r =
     (let m = ru_Match r;
          cm = \<lparr>cm_SelectorKind = [], cm_SelectorPattern = [], cm_OpClass = ma_OpClass m,
                cm_ArgvPattern = ma_ArgvPattern m, cm_Territory = ma_Territory m, cm_Reversible = ma_Reversible m\<rparr>;
          cm = (case ma_Selector m of
                  None \<Rightarrow> cm
                | Some sel \<Rightarrow> cm\<lparr>cm_SelectorKind := se_Kind sel, cm_SelectorPattern := se_Pattern sel\<rparr>)
      in \<lparr>cn_ID = ru_ID r, cn_Verdict = ru_Verdict r, cn_Match = cm, cn_Params = ru_Params r,
          cn_ApproveBy = ru_ApproveBy r, cn_IsDefault = ru_IsDefault r\<rparr>)"

definition canon_set :: "RuleSet \<Rightarrow> canonSet" where
  "canon_set rs = \<lparr>cs_Default = rs_Default rs, cs_Rules = map canon_rule (rs_Rules rs)\<rparr>"

definition bundleVersion :: "(canonSet \<Rightarrow> string option) \<Rightarrow> (string \<Rightarrow> string) \<Rightarrow> RuleSet \<Rightarrow> string" where
  "bundleVersion enc H rs =
     (case enc (canon_set rs) of
        None \<Rightarrow> ''sha256:unencodable''
      | Some b \<Rightarrow> ''sha256:'' @ take 16 (H b))"

section \<open>The engine\<close>

record Engine =
  en_ruleSet :: RuleSet
  en_bundleVersion :: string
  en_eval :: "(prepared list \<Rightarrow> eval_error + regoResult) option"
  en_rateGov :: "RateGovernor option"
  en_grad :: "Ladder option"
  en_floor :: "floor option"

text \<open>\<open>newEval\<close> is the outcome of compiling the embedded module.\<close>

definition NewEngine ::
    "(canonSet \<Rightarrow> string option) \<Rightarrow> (string \<Rightarrow> string) \<Rightarrow> eval_error + (prepared list \<Rightarrow> eval_error option)
     \<Rightarrow> RuleSet \<Rightarrow> eval_error + Engine" where
  "NewEngine enc H newEval rs =
     (case newEval of
        Inl e \<Rightarrow> Inl e
      | Inr opa \<Rightarrow>
          Inr \<lparr>en_ruleSet = rs, en_bundleVersion = bundleVersion enc H rs, en_eval = Some (evaluate opa),
               en_rateGov = None, en_grad = None, en_floor = None\<rparr>)"

definition BundleVersion :: "Engine option \<Rightarrow> string" where
  "BundleVersion eo = (case eo of None \<Rightarrow> [] | Some e \<Rightarrow> en_bundleVersion e)"

definition WithRateGovernor :: "RateGovernor option \<Rightarrow> Engine option \<Rightarrow> Engine option" where
  "WithRateGovernor g eo = map_option (\<lambda>e. e\<lparr>en_rateGov := g\<rparr>) eo"

definition WithGraduation :: "Ladder option \<Rightarrow> Engine option \<Rightarrow> Engine option" where
  "WithGraduation l eo = map_option (\<lambda>e. e\<lparr>en_grad := l\<rparr>) eo"

definition WithFloor :: "floor option \<Rightarrow> Engine option \<Rightarrow> Engine option" where
  "WithFloor f eo = map_option (\<lambda>e. e\<lparr>en_floor := f\<rparr>) eo"

definition pickRuleID :: "regoResult \<Rightarrow> string" where
  "pickRuleID res =
     (if rr_verdict res = VerdictDeny \<and> rr_denyIDs res \<noteq> [] then hd (rr_denyIDs res)
      else if rr_winningIDs res \<noteq> [] then hd (rr_winningIDs res)
      else [])"

definition reasonFor :: "regoResult \<Rightarrow> string" where
  "reasonFor res =
     (if rr_verdict res = VerdictDeny
      then ''deny-overrides: rule '' @ quoted (pickRuleID res) @ '' denied ('' @ itoa (int (length (rr_matchedIDs res)))
           @ '' matching rule(s))''
      else if rr_matchedIDs res = []
      then ''no matching rule '' @ emdash @ '' fail-closed default: route to human (approve)''
      else ''rule '' @ quoted (pickRuleID res) @ '' resolved '' @ quoted (rr_verdict res) @ '' (''
           @ itoa (int (length (rr_matchedIDs res))) @ '' matching rule(s))'')"

text \<open>The rules that take part: the defaults contribute parameters, not verdicts.\<close>

definition active_rules :: "RuleSet \<Rightarrow> Rule list" where
  "active_rules rs = filter (\<lambda>r. \<not> ru_IsDefault r) (rs_Rules rs)"

definition prepare :: "EvalInput \<Rightarrow> Rule \<Rightarrow> prepared" where
  "prepare i r = \<lparr>pp_id = ru_ID r, pp_verdict = ru_Verdict r, pp_matched = matches (ru_Match r) i\<rparr>"

text \<open>The index by id; a later rule replaces an earlier one, a missing id yields the zero rule.\<close>

definition rule_index :: "Rule list \<Rightarrow> string \<Rightarrow> Rule" where
  "rule_index rs rid = (case find (\<lambda>r. ru_ID r = rid) (rev rs) of None \<Rightarrow> zero_rule | Some r \<Rightarrow> r)"

definition evaluateBase ::
    "RuleSet \<Rightarrow> (prepared list \<Rightarrow> eval_error + regoResult) \<Rightarrow> EvalInput
     \<Rightarrow> eval_error + BaseDecision \<times> Rule \<times> MatchedRule list" where
  "evaluateBase rs ev i =
     (let rules = active_rules rs; index = rule_index rules in
      case ev (map (prepare i) rules) of
        Inl e \<Rightarrow> Inl e
      | Inr res \<Rightarrow>
          (let rid = pickRuleID res in
           Inr (\<lparr>bd_Verdict = rr_verdict res, bd_MatchedRuleID = rid, bd_Reason = reasonFor res\<rparr>,
                index rid,
                map (\<lambda>m. \<lparr>mr_ID = m, mr_Verdict = ru_Verdict (index m)\<rparr>) (rr_matchedIDs res))))"

definition start_audit :: "BaseDecision \<Rightarrow> pverdict \<Rightarrow> string \<Rightarrow> EvalInput \<Rightarrow> DecisionAudit" where
  "start_audit base gv ver i =
     \<lparr>da_Base = base, da_NeverAutoFloor = NeverAutoApplies i, da_Refine = None, da_Compose = None,
      da_GraduatedVerdict = gv, da_Graduation = None, da_Floor = None, da_BundleVersion = ver, da_MatchedRules = [],
      da_ActionID = ei_ActionID i, da_ExternalRef = ei_ExternalRef i, da_Principal = ei_Principal i\<rparr>"

definition failClosedDecision :: "EvalInput \<Rightarrow> string \<Rightarrow> string \<Rightarrow> PolicyDecision" where
  "failClosedDecision i bundleVer reason =
     (let base = \<lparr>bd_Verdict = VerdictApprove, bd_MatchedRuleID = [], bd_Reason = reason\<rparr> in
      NewPolicyDecision VerdictApprove [] (ei_Band i) [] (ei_Mode i) reason (start_audit base VerdictApprove bundleVer i))"

definition failClosedDenyDecision :: "EvalInput \<Rightarrow> string \<Rightarrow> string \<Rightarrow> PolicyDecision" where
  "failClosedDenyDecision i bundleVer reason =
     (let base = \<lparr>bd_Verdict = VerdictDeny, bd_MatchedRuleID = [], bd_Reason = reason\<rparr> in
      NewPolicyDecision VerdictDeny [] (ei_Band i) [] (ei_Mode i) reason (start_audit base VerdictDeny bundleVer i))"

definition decideReason :: "pverdict \<Rightarrow> DecisionAudit \<Rightarrow> string" where
  "decideReason final a =
     ''composed verdict '' @ quoted final @ '' '' @ emdash @ '' base '' @ quoted (bd_Verdict (da_Base a))
     @ ''; never-auto-floor='' @ btoa (da_NeverAutoFloor a)
     @ ''; confidence/rate'' @ rarrow @ quoted (case da_Refine a of None \<Rightarrow> [] | Some r \<Rightarrow> re_VerdictOut r)
     @ ''; band'' @ rarrow @ quoted (case da_Compose a of None \<Rightarrow> [] | Some r \<Rightarrow> cr_Composed r)
     @ ''; graduation'' @ rarrow @ quoted (da_GraduatedVerdict a)
     @ ''; floor'' @ rarrow @ quoted (case da_Floor a of None \<Rightarrow> [] | Some r \<Rightarrow> fr_ExecutionVerdict r)"

text \<open>Step 5, with the margin that is read right after.\<close>

definition graduation_hook ::
    "opregistry \<Rightarrow> 'st gstore option \<Rightarrow> string \<Rightarrow> pverdict \<Rightarrow> Ladder option \<Rightarrow> 'st
     \<Rightarrow> pverdict \<times> int option \<times> Ladder option \<times> 'st" where
  "graduation_hook reg store opClass v lo db =
     (case lo of
        None \<Rightarrow> (v, None, None, db)
      | Some l \<Rightarrow>
          (case GraduatedVerdict reg store opClass v l db of (v', l1, db1) \<Rightarrow>
             (case GraduationMargin reg store opClass l1 db1 of (m, l2, db2) \<Rightarrow> (v', m, Some l2, db2))))"

definition Decide ::
    "opregistry \<Rightarrow> 'st gstore option \<Rightarrow> instant \<Rightarrow> EvalInput \<Rightarrow> Engine option \<Rightarrow> 'st
     \<Rightarrow> (PolicyDecision \<times> eval_error option) \<times> Engine option \<times> 'st" where
  "Decide reg store now i eo db =
     (case eo of
        None \<Rightarrow> ((failClosedDecision i [] (''uninitialised engine '' @ emdash @ '' fail-closed to approve''), None), None, db)
      | Some e \<Rightarrow>
        (case en_eval e of
           None \<Rightarrow> ((failClosedDecision i [] (''uninitialised engine '' @ emdash @ '' fail-closed to approve''), None), Some e, db)
         | Some ev \<Rightarrow>
           (let neverAuto = NeverAutoApplies i in
            case evaluateBase (en_ruleSet e) ev i of
              Inl err \<Rightarrow>
                ((failClosedDenyDecision i (en_bundleVersion e)
                    (''rego evaluation error '' @ emdash @ '' fail-closed to DENY (refuse)''), Some err), Some e, db)
            | Inr (base, matched, matchedRules) \<Rightarrow>
                (let audit = (start_audit base [] (en_bundleVersion e) i)\<lparr>da_MatchedRules := matchedRules\<rparr> in
                 if bd_Verdict base = VerdictDeny then
                   ((NewPolicyDecision VerdictDeny (bd_MatchedRuleID base) (ei_Band i) [] (ei_Mode i)
                       (''deny short-circuits: '' @ bd_Reason base) (audit\<lparr>da_GraduatedVerdict := VerdictDeny\<rparr>), None), Some e, db)
                 else
                   (let params = EffectiveParams (en_ruleSet e) matched in
                    case Refine now (en_rateGov e) (bd_Verdict base) (ei_Confidence i) params (ei_OpClass i) of
                      ((v1, rr), g') \<Rightarrow>
                    (case ComposeBand v1 (ei_Band i) (pa_BandMode params) neverAuto of (v2, cr) \<Rightarrow>
                    (case graduation_hook reg store (ei_OpClass i) v2 (en_grad e) db of (v3, margin, grad', db') \<Rightarrow>
                    (case ApplyFloor (en_floor e) v3 i of (v4, fr) \<Rightarrow>
                       (let approvers = (if v4 = VerdictApprove then ru_ApproveBy matched else []);
                            audit = audit\<lparr>da_Refine := Some rr, da_Compose := Some cr, da_GraduatedVerdict := v3,
                                          da_Graduation := margin, da_Floor := Some fr\<rparr>
                        in ((NewPolicyDecision v4 (bd_MatchedRuleID base) (ei_Band i) approvers (ei_Mode i)
                               (decideReason v4 audit) audit, None),
                            Some (e\<lparr>en_rateGov := g', en_grad := grad'\<rparr>), db'))))))))))"


section \<open>The pipeline guard\<close>

text \<open>
  \<^verbatim>\<open>core/policy/pipeline_guard.go\<close>: the same action is decided in every mode by a decider the
  factory makes for it, and the decisions are compared. A decider is its \<^verbatim>\<open>Decide\<close> method.
\<close>

type_synonym decider = "EvalInput \<Rightarrow> PolicyDecision \<times> eval_error option"

datatype guard_error =
    NilFactory
  | BuildDecider mode string
  | NilDecider mode
  | DecidingFailed mode eval_error
  | ModeDivergence string mode mode

definition allModes :: "mode list" where
  "allModes = [ModeShadow, ModeHITL, ModeSemiAuto, ModeFullAuto]"

fun guard_loop ::
    "(mode \<Rightarrow> string + decider option) \<Rightarrow> EvalInput \<Rightarrow> (pverdict \<times> string \<times> string list \<times> mode) option
     \<Rightarrow> mode list \<Rightarrow> guard_error option" where
  "guard_loop factory i ref [] = None"
| "guard_loop factory i ref (m # ms) =
     (case factory m of
        Inl e \<Rightarrow> Some (BuildDecider m e)
      | Inr None \<Rightarrow> Some (NilDecider m)
      | Inr (Some decide) \<Rightarrow>
          (case decide (i\<lparr>ei_Mode := m\<rparr>) of
             (_, Some e) \<Rightarrow> Some (DecidingFailed m e)
           | (dec, None) \<Rightarrow>
               (let v = pd_verdict dec; b = band_string (pd_composedBand dec); a = pd_approveBy dec in
                case ref of
                  None \<Rightarrow> guard_loop factory i (Some (v, b, a, m)) ms
                | Some (rv, rb, ra, rm) \<Rightarrow>
                    if v \<noteq> rv then Some (ModeDivergence ''verdict'' rm m)
                    else if b \<noteq> rb then Some (ModeDivergence ''composed_band'' rm m)
                    else if a \<noteq> ra then Some (ModeDivergence ''approve_by'' rm m)
                    else guard_loop factory i ref ms)))"

definition AssertModeInvariant :: "(mode \<Rightarrow> string + decider option) option \<Rightarrow> EvalInput \<Rightarrow> guard_error option" where
  "AssertModeInvariant factory i =
     (case factory of None \<Rightarrow> Some NilFactory | Some f \<Rightarrow> guard_loop f i None allModes)"

definition probe_input :: "string \<Rightarrow> EvalInput" where
  "probe_input op =
     \<lparr>ei_OpClass = op, ei_Argv = [], ei_Host = [], ei_Resource = [], ei_Groups = [], ei_DeviceClass = [],
      ei_Territory = [], ei_Reversible = True, ei_InvertsForward = False, ei_Confidence = Fin 1, ei_Band = BandAuto,
      ei_Mode = ModeShadow, ei_ActionID = [], ei_ExternalRef = [], ei_Principal = []\<rparr>"

definition selfTestInputs :: "EvalInput list" where
  "selfTestInputs = map probe_input [''guard.auto'', ''guard.deny'', ''guard.approve'', ''guard.nomatch'']"

definition probe_rule :: "string \<Rightarrow> string \<Rightarrow> pverdict \<Rightarrow> string list \<Rightarrow> Rule" where
  "probe_rule rid op v approvers =
     zero_rule\<lparr>ru_ID := rid, ru_Match := no_match\<lparr>ma_OpClass := op\<rparr>, ru_Verdict := v, ru_ApproveBy := approvers\<rparr>"

definition selfTestRules :: "rule_error + RuleSet" where
  "selfTestRules =
     (case NewRule (probe_rule ''guard-auto'' ''guard.auto'' VerdictAuto []) of
        Inl e \<Rightarrow> Inl e
      | Inr auto \<Rightarrow>
          (case NewRule (probe_rule ''guard-deny'' ''guard.deny'' VerdictDeny []) of
             Inl e \<Rightarrow> Inl e
           | Inr deny \<Rightarrow>
               (case NewRule (probe_rule ''guard-approve'' ''guard.approve'' VerdictApprove [''group:sre-oncall'']) of
                  Inl e \<Rightarrow> Inl e
                | Inr approve \<Rightarrow> Inr \<lparr>rs_Default = no_params, rs_Rules = [auto, deny, approve]\<rparr>)))"

text \<open>
  The self test's engine has neither governor nor ladder nor floor, so that deciding leaves it as it
  was and one engine serves every mode.
\<close>

datatype self_test_error = BuildFailed "rule_error + eval_error" | ProbeFailed guard_error

fun first_failure :: "('a \<Rightarrow> 'e option) \<Rightarrow> 'a list \<Rightarrow> 'e option" where
  "first_failure f [] = None"
| "first_failure f (x # xs) = (case f x of Some e \<Rightarrow> Some e | None \<Rightarrow> first_failure f xs)"

definition SelfTest ::
    "(canonSet \<Rightarrow> string option) \<Rightarrow> (string \<Rightarrow> string) \<Rightarrow> eval_error + (prepared list \<Rightarrow> eval_error option)
     \<Rightarrow> opregistry \<Rightarrow> instant \<Rightarrow> self_test_error option" where
  "SelfTest enc H newEval reg now =
     (case selfTestRules of
        Inl e \<Rightarrow> Some (BuildFailed (Inl e))
      | Inr rs \<Rightarrow>
          (case NewEngine enc H newEval rs of
             Inl e \<Rightarrow> Some (BuildFailed (Inr e))
           | Inr eng \<Rightarrow>
               (let factory = (\<lambda>_. Inr (Some (\<lambda>i. fst (Decide reg None now i (Some eng) ())))) in
                map_option ProbeFailed (first_failure (AssertModeInvariant (Some factory)) selfTestInputs))))"

section \<open>Facts\<close>

lemma graduation_hook_auto_iff:
  "fst (graduation_hook reg store op v lo db) = VerdictAuto \<longleftrightarrow>
     v = VerdictAuto
     \<and> (case lo of None \<Rightarrow> True
        | Some l \<Rightarrow> autoEligibleOpClass reg op \<and> cs_Level (fst (stateLocked store op l db)) \<in> {LevelAutoNotice, LevelAuto})"
  by (auto simp: graduation_hook_def GraduatedVerdict_def graduatedVerdict_def level_Verdict_def
           split: option.splits prod.splits if_splits)

interpretation hook_step: narrowing "\<lambda>v. fst (graduation_hook reg store op v lo db)" for reg store op lo db
proof unfold_locales
  fix v
  have eq: "fst (graduation_hook reg store op v lo db)
      = (case lo of None \<Rightarrow> v | Some l \<Rightarrow> fst (GraduatedVerdict reg store op v l db))"
    by (auto simp: graduation_hook_def split: option.split prod.splits)
  show "verdictRank v \<le> verdictRank (fst (graduation_hook reg store op v lo db))"
    using ladder_step.tightens by (auto simp: eq split: option.split)
  show "validVerdict v \<Longrightarrow> validVerdict (fst (graduation_hook reg store op v lo db))"
    using ladder_step.keeps_valid by (auto simp: eq split: option.split)
qed

text \<open>The verdict of a decision as the composition of the narrowing steps.\<close>

definition pipeline ::
    "opregistry \<Rightarrow> 'st gstore option \<Rightarrow> instant \<Rightarrow> EvalInput \<Rightarrow> Engine \<Rightarrow> 'st \<Rightarrow> Rule \<Rightarrow> pverdict \<Rightarrow> pverdict" where
  "pipeline reg store now i e db r v =
     (let p = EffectiveParams (en_ruleSet e) r;
          v1 = fst (fst (Refine now (en_rateGov e) v (ei_Confidence i) p (ei_OpClass i)));
          v2 = fst (ComposeBand v1 (ei_Band i) (pa_BandMode p) (NeverAutoApplies i));
          v3 = fst (graduation_hook reg store (ei_OpClass i) v2 (en_grad e) db)
      in fst (ApplyFloor (en_floor e) v3 i))"

lemma Decide_verdict:
  assumes "en_eval e = Some ev" and "Decide reg store now i (Some e) db = ((dec, err), eo', db')"
  shows "(case evaluateBase (en_ruleSet e) ev i of
            Inl er \<Rightarrow> pd_verdict dec = VerdictDeny \<and> err = Some er \<and> eo' = Some e \<and> db' = db
          | Inr (base, r, ms) \<Rightarrow>
              err = None \<and> pd_matchedRuleID dec = bd_MatchedRuleID base
              \<and> (if bd_Verdict base = VerdictDeny then pd_verdict dec = VerdictDeny \<and> eo' = Some e \<and> db' = db
                 else pd_verdict dec = pipeline reg store now i e db r (bd_Verdict base)))"
  using assms
  by (auto simp: Decide_def Let_def pipeline_def failClosedDenyDecision_def NewPolicyDecision_def
           split: sum.splits prod.splits if_splits)

lemma pipeline_narrows:
  "verdictRank v \<le> verdictRank (pipeline reg store now i e db r v)"
  "validVerdict v \<Longrightarrow> validVerdict (pipeline reg store now i e db r v)"
  unfolding pipeline_def Let_def
  by (meson refine_step.tightens band_step.tightens hook_step.tightens floor_step.tightens order_trans)
     (intro refine_step.keeps_valid band_step.keeps_valid hook_step.keeps_valid floor_step.keeps_valid)

lemma pipeline_auto_iff:
  "pipeline reg store now i e db r v = VerdictAuto \<longleftrightarrow>
     v = VerdictAuto
     \<and> (let p = EffectiveParams (en_ruleSet e) r in
        confident p (ei_Confidence i) \<and> rate_room now (en_rateGov e) p (ei_OpClass i)
        \<and> (pa_BandMode p = BandForce \<or> bandFloorVerdict (ei_Band i) = VerdictAuto))
     \<and> \<not> NeverAutoApplies i
     \<and> (case en_grad e of None \<Rightarrow> True
        | Some l \<Rightarrow> autoEligibleOpClass reg (ei_OpClass i)
            \<and> cs_Level (fst (stateLocked store (ei_OpClass i) l db)) \<in> {LevelAutoNotice, LevelAuto})
     \<and> \<not> AppliesTo (en_floor e) i"
  unfolding pipeline_def Let_def ApplyFloor_eq
  by (auto simp: graduation_hook_auto_iff ComposeBand_auto_iff Refine_auto_iff split: if_splits)

definition matching :: "RuleSet \<Rightarrow> EvalInput \<Rightarrow> Rule list" where
  "matching rs i = filter (\<lambda>r. matches (ru_Match r) i) (active_rules rs)"

definition wf_rules :: "RuleSet \<Rightarrow> bool" where
  "wf_rules rs \<longleftrightarrow> list_all wf_rule (rs_Rules rs) \<and> distinct (map ru_ID (rs_Rules rs))"

lemma rule_index_self:
  assumes "distinct (map ru_ID rs)" and "r \<in> set rs"
  shows "rule_index rs (ru_ID r) = r"
proof -
  have "find (\<lambda>r'. ru_ID r' = ru_ID r) (rev rs) = Some r"
    using assms by (intro find_unique) (auto simp: distinct_map inj_on_def)
  then show ?thesis by (simp add: rule_index_def)
qed

lemma active_distinct: "wf_rules rs \<Longrightarrow> distinct (map ru_ID (active_rules rs))"
  by (auto simp: wf_rules_def active_rules_def distinct_map inj_on_def)

lemma prepared_matching:
  "filter pp_matched (map (prepare i) (active_rules rs)) = map (prepare i) (matching rs i)"
  by (simp add: filter_map matching_def prepare_def comp_def)

lemma base_verdict:
  assumes "evaluateBase rs (evaluate opa) i = Inr (base, r, ms)"
  shows "bd_Verdict base = rego_verdict (map (prepare i) (active_rules rs))"
    and "r = rule_index (active_rules rs) (bd_MatchedRuleID base)"
    and "opa (map (prepare i) (active_rules rs)) = None"
  using assms by (auto simp: evaluateBase_def evaluate_def Let_def rego_result_def split: sum.splits option.splits if_splits)

lemma base_error:
  "(\<exists>er. evaluateBase rs (evaluate opa) i = Inl er) \<longleftrightarrow> opa (map (prepare i) (active_rules rs)) \<noteq> None"
  by (auto simp: evaluateBase_def evaluate_def Let_def rego_result_def rego_valid split: sum.splits option.splits if_splits)

lemma base_auto_iff:
  assumes "wf_rules rs"
  shows "rego_verdict (map (prepare i) (active_rules rs)) = VerdictAuto \<longleftrightarrow>
    matching rs i \<noteq> [] \<and> (\<forall>r \<in> set (matching rs i). ru_Verdict r = VerdictAuto)"
proof -
  have "list_all (\<lambda>r. validVerdict (pp_verdict r)) (map (prepare i) (active_rules rs))"
    using assms by (auto simp: wf_rules_def active_rules_def wf_rule_def list_all_iff prepare_def)
  from rego_auto_iff [OF this] show ?thesis
    by (auto simp: matching_def prepare_def filter_empty_conv)
qed

text \<open>The rule whose parameters govern an automatic verdict is the first that matches.\<close>

lemma base_auto_rule:
  assumes "evaluateBase rs (evaluate opa) i = Inr (base, r, ms)" and "bd_Verdict base = VerdictAuto" and "wf_rules rs"
  shows "r = hd (matching rs i)"
proof -
  let ?ps = "map (prepare i) (active_rules rs)"
  note b = base_verdict [OF assms(1)]
  have m: "matching rs i \<noteq> []" and au: "\<forall>r \<in> set (matching rs i). ru_Verdict r = VerdictAuto"
    using base_auto_iff [OF assms(3), of i] b(1) assms(2) by simp_all
  have "rr_winningIDs (rego_result ?ps) = map pp_id (filter (\<lambda>p. pp_verdict p = rego_verdict ?ps) (filter pp_matched ?ps))"
    by (simp add: rego_result_def conj_commute)
  also have "\<dots> = map ru_ID (filter (\<lambda>r. ru_Verdict r = VerdictAuto) (matching rs i))"
    using b(1) assms(2) unfolding prepared_matching by (simp add: filter_map prepare_def comp_def)
  also have "\<dots> = map ru_ID (matching rs i)" using au by simp
  finally have w: "rr_winningIDs (rego_result ?ps) = map ru_ID (matching rs i)" .
  have "bd_MatchedRuleID base = pickRuleID (rego_result ?ps)"
    using assms(1) by (auto simp: evaluateBase_def evaluate_def Let_def split: sum.splits option.splits if_splits)
  also have "\<dots> = ru_ID (hd (matching rs i))"
    using w m b(1) assms(2) by (simp add: pickRuleID_def hd_map) (simp add: rego_result_def)
  finally have "bd_MatchedRuleID base = ru_ID (hd (matching rs i))" .
  moreover have "hd (matching rs i) \<in> set (active_rules rs)" using m by (metis filter_is_subset hd_in_set matching_def subsetD)
  ultimately show ?thesis using b(2) rule_index_self [OF active_distinct [OF assms(3)]] by simp
qed


definition auto_conditions :: "opregistry \<Rightarrow> 'st gstore option \<Rightarrow> instant \<Rightarrow> EvalInput \<Rightarrow> Engine \<Rightarrow> 'st \<Rightarrow> bool" where
  "auto_conditions reg store now i e db \<longleftrightarrow>
    matching (en_ruleSet e) i \<noteq> []
    \<and> (\<forall>r \<in> set (matching (en_ruleSet e) i). ru_Verdict r = VerdictAuto)
    \<and> (let p = EffectiveParams (en_ruleSet e) (hd (matching (en_ruleSet e) i)) in
       confident p (ei_Confidence i) \<and> rate_room now (en_rateGov e) p (ei_OpClass i)
       \<and> (pa_BandMode p = BandForce \<or> bandFloorVerdict (ei_Band i) = VerdictAuto))
    \<and> \<not> NeverAutoApplies i
    \<and> (case en_grad e of None \<Rightarrow> True
       | Some l \<Rightarrow> autoEligibleOpClass reg (ei_OpClass i)
           \<and> cs_Level (fst (stateLocked store (ei_OpClass i) l db)) \<in> {LevelAutoNotice, LevelAuto})
    \<and> \<not> AppliesTo (en_floor e) i"

lemma Decide_auto:
  assumes "wf_rules (en_ruleSet e)" and "en_eval e = Some (evaluate opa)"
    and "Decide reg store now i (Some e) db = ((dec, err), eo', db')"
  shows "pd_verdict dec = VerdictAuto \<longleftrightarrow>
    opa (map (prepare i) (active_rules (en_ruleSet e))) = None \<and> auto_conditions reg store now i e db"
proof (cases "evaluateBase (en_ruleSet e) (evaluate opa) i")
  case (Inl er)
  then have "opa (map (prepare i) (active_rules (en_ruleSet e))) \<noteq> None" using base_error by blast
  moreover have "pd_verdict dec = VerdictDeny" using Decide_verdict [OF assms(2,3)] Inl by simp
  ultimately show ?thesis by simp
next
  case (Inr x)
  then obtain base r ms where x: "evaluateBase (en_ruleSet e) (evaluate opa) i = Inr (base, r, ms)" by (cases x) auto
  note b = base_verdict [OF x]
  have v: "pd_verdict dec = VerdictAuto \<longleftrightarrow> pipeline reg store now i e db r (bd_Verdict base) = VerdictAuto"
    using Decide_verdict [OF assms(2,3)] x pipeline_auto_iff [of reg store now i e db r "bd_Verdict base"]
    by (auto split: if_splits)
  show ?thesis
  proof (cases "bd_Verdict base = VerdictAuto")
    case True
    have "r = hd (matching (en_ruleSet e) i)" using base_auto_rule [OF x True assms(1)] .
    moreover have "matching (en_ruleSet e) i \<noteq> [] \<and> (\<forall>r \<in> set (matching (en_ruleSet e) i). ru_Verdict r = VerdictAuto)"
      using base_auto_iff [OF assms(1)] True b(1) by metis
    ultimately show ?thesis unfolding v pipeline_auto_iff auto_conditions_def using True b(3) by simp
  next
    case False
    then have "\<not> (matching (en_ruleSet e) i \<noteq> [] \<and> (\<forall>r \<in> set (matching (en_ruleSet e) i). ru_Verdict r = VerdictAuto))"
      using base_auto_iff [OF assms(1)] b(1) by metis
    then show ?thesis unfolding v pipeline_auto_iff auto_conditions_def using False by blast
  qed
qed

section \<open>Properties\<close>

text \<open>
  C2. What it takes to act without a human. On a well-formed rule set the engine's verdict is auto
  exactly when the evaluation succeeds, at least one active rule matches and every matching rule says
  auto, the bound confidence reaches the threshold in force for the first matching rule and the rate
  governor has room under its limit, the risk band is automatic (or that rule forces the band), the
  action is not in the never-auto class, the operation class has been graduated, and no entry of the
  deny-floor applies.
\<close>

theorem Decide_auto_iff:
  assumes "wf_rules (en_ruleSet e)" and "en_eval e = Some (evaluate opa)"
    and "Decide reg store now i (Some e) db = ((dec, err), eo', db')"
  shows "pd_verdict dec = VerdictAuto \<longleftrightarrow>
    opa (map (prepare i) (active_rules (en_ruleSet e))) = None
    \<and> matching (en_ruleSet e) i \<noteq> []
    \<and> (\<forall>r \<in> set (matching (en_ruleSet e) i). ru_Verdict r = VerdictAuto)
    \<and> (let p = EffectiveParams (en_ruleSet e) (hd (matching (en_ruleSet e) i)) in
       confident p (ei_Confidence i) \<and> rate_room now (en_rateGov e) p (ei_OpClass i)
       \<and> (pa_BandMode p = BandForce \<or> bandFloorVerdict (ei_Band i) = VerdictAuto))
    \<and> \<not> NeverAutoApplies i
    \<and> (case en_grad e of None \<Rightarrow> True
       | Some l \<Rightarrow> autoEligibleOpClass reg (ei_OpClass i)
           \<and> cs_Level (fst (stateLocked store (ei_OpClass i) l db)) \<in> {LevelAutoNotice, LevelAuto})
    \<and> \<not> AppliesTo (en_floor e) i"
  using Decide_auto [OF assms] unfolding auto_conditions_def .

text \<open>
  C32. Denial is final and free. When some active rule that matches denies, or the evaluation fails,
  the verdict is deny, nothing is charged to the rate governor, the ladder and its table are not
  touched, and a failed evaluation is reported. In every case the verdict is one of the three.
\<close>

theorem Decide_denies:
  assumes "en_eval e = Some (evaluate opa)" and "Decide reg store now i (Some e) db = ((dec, err), eo', db')"
  shows "((\<exists>r \<in> set (matching (en_ruleSet e) i). ru_Verdict r = VerdictDeny)
            \<or> opa (map (prepare i) (active_rules (en_ruleSet e))) \<noteq> None
          \<longrightarrow> pd_verdict dec = VerdictDeny \<and> eo' = Some e \<and> db' = db)
    \<and> (err \<noteq> None \<longleftrightarrow> opa (map (prepare i) (active_rules (en_ruleSet e))) \<noteq> None)
    \<and> validVerdict (pd_verdict dec)"
proof (cases "evaluateBase (en_ruleSet e) (evaluate opa) i")
  case (Inl er)
  then show ?thesis using Decide_verdict [OF assms] base_error [of "en_ruleSet e" opa i] by simp
next
  case (Inr x)
  then obtain base r ms where x: "evaluateBase (en_ruleSet e) (evaluate opa) i = Inr (base, r, ms)" by (cases x) auto
  note b = base_verdict [OF x]
  have "(\<exists>r \<in> set (matching (en_ruleSet e) i). ru_Verdict r = VerdictDeny) \<longleftrightarrow> bd_Verdict base = VerdictDeny"
    unfolding b(1) rego_deny_iff by (auto simp: matching_def prepare_def)
  moreover have "validVerdict (bd_Verdict base)" using b(1) rego_valid by metis
  ultimately show ?thesis
    using Decide_verdict [OF assms] x b(3) pipeline_narrows(2) [of "bd_Verdict base" reg store now i e db r]
    by (auto split: if_splits)
qed

text \<open>The mode is carried into the decision and touches nothing else.\<close>

lemma input_mode [simp]:
  "matches m (i\<lparr>ei_Mode := x\<rparr>) = matches m i"
  "NeverAutoApplies (i\<lparr>ei_Mode := x\<rparr>) = NeverAutoApplies i"
  "ApplyFloor f v (i\<lparr>ei_Mode := x\<rparr>) = ApplyFloor f v i"
  "prepare (i\<lparr>ei_Mode := x\<rparr>) = prepare i"
  "start_audit b g s (i\<lparr>ei_Mode := x\<rparr>) = start_audit b g s i"
proof -
  show m: "matches m (i\<lparr>ei_Mode := x\<rparr>) = matches m i" for m
    by (simp add: matches_iff dims_agree_def)
  show na: "NeverAutoApplies (i\<lparr>ei_Mode := x\<rparr>) = NeverAutoApplies i" by (simp add: NeverAutoApplies_def)
  show "ApplyFloor f v (i\<lparr>ei_Mode := x\<rparr>) = ApplyFloor f v i"
  proof -
    have "matchActiveLocked f (i\<lparr>ei_Mode := x\<rparr>) = matchActiveLocked f i" for f
      by (simp add: matchActiveLocked_def matchesAction_def m)
    then show ?thesis by (simp only: ApplyFloor_def)
  qed
  show "prepare (i\<lparr>ei_Mode := x\<rparr>) = prepare i" by (simp add: prepare_def m fun_eq_iff)
  show "start_audit b g s (i\<lparr>ei_Mode := x\<rparr>) = start_audit b g s i" by (simp add: start_audit_def na)
qed

lemma evaluateBase_mode [simp]: "evaluateBase rs ev (i\<lparr>ei_Mode := x\<rparr>) = evaluateBase rs ev i"
  by (simp add: evaluateBase_def)

lemma Decide_mode:
  assumes "Decide reg store now i eo db = ((dec, err), eo', db')"
  shows "Decide reg store now (i\<lparr>ei_Mode := m\<rparr>) eo db = ((dec\<lparr>pd_mode := m\<rparr>, err), eo', db')"
  using assms
  by (auto simp: Decide_def Let_def failClosedDecision_def failClosedDenyDecision_def NewPolicyDecision_def
           split: option.splits sum.splits prod.splits if_splits)

lemma guard_loop_ok:
  assumes "\<And>m. m \<in> set ms \<Longrightarrow> \<exists>decide dec. factory m = Inr (Some decide) \<and> decide (i\<lparr>ei_Mode := m\<rparr>) = (dec, None)
      \<and> pd_verdict dec = v \<and> pd_composedBand dec = b \<and> pd_approveBy dec = a"
    and "ref = None \<or> (\<exists>m. ref = Some (v, band_string b, a, m))"
  shows "guard_loop factory i ref ms = None"
  using assms
proof (induction ms arbitrary: ref)
  case (Cons m ms)
  obtain decide dec where "factory m = Inr (Some decide)" "decide (i\<lparr>ei_Mode := m\<rparr>) = (dec, None)"
      "pd_verdict dec = v" "pd_composedBand dec = b" "pd_approveBy dec = a"
    using Cons.prems(1) [of m] by auto
  moreover have "guard_loop factory i (Some (v, band_string b, a, m')) ms = None" for m'
    using Cons.prems(1) by (intro Cons.IH) auto
  ultimately show ?case using Cons.prems(2) by auto
qed simp

text \<open>
  C33. One pipeline for all modes. Asking for the same action in another mode yields the same verdict,
  rule, approvers, band, reason, audit record and follow-up state; only the recorded mode differs. So
  the guard that compares the four modes passes for every action whose evaluation succeeds, when each
  mode's decider is an engine in the same state.
\<close>

theorem pipeline_mode_invariant:
  assumes "Decide reg store now i eo db = ((dec, err), eo', db')"
  shows "Decide reg store now (i\<lparr>ei_Mode := m\<rparr>) eo db = ((dec\<lparr>pd_mode := m\<rparr>, err), eo', db')
    \<and> (err = None \<longrightarrow>
         AssertModeInvariant (Some (\<lambda>_. Inr (Some (\<lambda>i. fst (Decide reg store now i eo db))))) i = None)"
proof (intro conjI impI)
  assume "err = None"
  then have "fst (Decide reg store now (i\<lparr>ei_Mode := m\<rparr>) eo db) = (dec\<lparr>pd_mode := m\<rparr>, None)" for m
    using Decide_mode [OF assms] by simp
  then show "AssertModeInvariant (Some (\<lambda>_. Inr (Some (\<lambda>i. fst (Decide reg store now i eo db))))) i = None"
    unfolding AssertModeInvariant_def option.case
    by (intro guard_loop_ok [where v = "pd_verdict dec" and b = "pd_composedBand dec" and a = "pd_approveBy dec"]) simp_all
qed (rule Decide_mode [OF assms])

section \<open>A concrete engine\<close>

definition demo_rules :: "bool option \<Rightarrow> RuleSet" where
  "demo_rules only =
     \<lparr>rs_Default = no_params,
      rs_Rules = [zero_rule\<lparr>ru_ID := ''restart'', ru_Verdict := VerdictAuto,
                    ru_Match := no_match\<lparr>ma_OpClass := ''restart-service'', ma_InverseOnly := only\<rparr>\<rparr>,
                  zero_rule\<lparr>ru_ID := ''db'', ru_Verdict := VerdictDeny,
                    ru_Match := no_match\<lparr>ma_Territory := ''database''\<rparr>\<rparr>]\<rparr>"

definition demo_engine :: "bool option \<Rightarrow> Engine" where
  "demo_engine only =
     \<lparr>en_ruleSet = demo_rules only, en_bundleVersion = ''sha256:demo'', en_eval = Some (evaluate (\<lambda>_. None)),
      en_rateGov = Some NewRateGovernor, en_grad = Some (NewLadder 5), en_floor = Some demo_floor\<rparr>"

definition demo_input :: EvalInput where
  "demo_input = (probe_input ''restart-service'')\<lparr>ei_Host := ''web01''\<rparr>"

abbreviation demo_decide :: "EvalInput \<Rightarrow> (PolicyDecision \<times> eval_error option) \<times> Engine option \<times> grad_table" where
  "demo_decide i \<equiv> Decide demo_reg (Some PolicyGraduationStore) 7 i (Some (demo_engine None)) (demo_grad_table [])"

lemma demo_wf: "wf_rules (demo_rules only)"
  by (cases only) (code_simp, code_simp)

lemma demo_runs:
  "demo_decide i = ((fst (fst (demo_decide i)), snd (fst (demo_decide i))), fst (snd (demo_decide i)), snd (snd (demo_decide i)))"
  by simp

lemma demo_conditions: "auto_conditions demo_reg (Some PolicyGraduationStore) 7 demo_input (demo_engine None) (demo_grad_table [])"
  by code_simp

theorem Decide_auto_iff_witness: "pd_verdict (fst (fst (demo_decide demo_input))) = VerdictAuto"
proof -
  have "wf_rules (en_ruleSet (demo_engine None))" using demo_wf by (simp add: demo_engine_def)
  moreover have "en_eval (demo_engine None) = Some (evaluate (\<lambda>_. None))" by (simp add: demo_engine_def)
  ultimately show ?thesis
    using Decide_auto_iff [OF _ _ demo_runs] demo_conditions [unfolded auto_conditions_def] by blast
qed

theorem Decide_denies_witness:
  "pd_verdict (fst (fst (demo_decide (demo_input\<lparr>ei_Territory := ''database''\<rparr>)))) = VerdictDeny"
proof -
  let ?i = "demo_input\<lparr>ei_Territory := ''database''\<rparr>"
  have "list_ex (\<lambda>r. ru_Verdict r = VerdictDeny) (matching (en_ruleSet (demo_engine None)) ?i)" by code_simp
  then have m: "\<exists>r \<in> set (matching (en_ruleSet (demo_engine None)) ?i). ru_Verdict r = VerdictDeny"
    by (simp add: list_ex_iff)
  have ev: "en_eval (demo_engine None) = Some (evaluate (\<lambda>_. None))" by (simp add: demo_engine_def)
  from Decide_denies [OF ev demo_runs] m show ?thesis by blast
qed

theorem pipeline_mode_invariant_witness:
  "pd_verdict (fst (fst (demo_decide (demo_input\<lparr>ei_Mode := ModeFullAuto\<rparr>)))) = pd_verdict (fst (fst (demo_decide demo_input)))"
  using pipeline_mode_invariant [OF demo_runs, of ModeFullAuto demo_input] by (simp del: prod.collapse)

section \<open>The bundle identity is blind to one dimension\<close>

text \<open>
  The identity of a rule bundle leaves out the dimension \<^verbatim>\<open>inverse_only\<close>: two rule sets that differ
  in it alone have the same identity under every encoding and hash, although one of them lets an
  action through that the other one holds for a human.
\<close>

theorem bundle_blind_to_inverse_only:
  "(\<forall>enc H. bundleVersion enc H (demo_rules None) = bundleVersion enc H (demo_rules (Some True)))
   \<and> pd_verdict (fst (fst (Decide demo_reg (Some PolicyGraduationStore) 7 demo_input (Some (demo_engine None)) (demo_grad_table [])))) = VerdictAuto
   \<and> pd_verdict (fst (fst (Decide demo_reg (Some PolicyGraduationStore) 7 demo_input (Some (demo_engine (Some True))) (demo_grad_table [])))) \<noteq> VerdictAuto"
proof (intro conjI allI)
  show "bundleVersion enc H (demo_rules None) = bundleVersion enc H (demo_rules (Some True))" for enc H
    by (simp add: bundleVersion_def canon_set_def canon_rule_def demo_rules_def Let_def zero_rule_def no_match_def)
  let ?D = "\<lambda>x. Decide demo_reg (Some PolicyGraduationStore) 7 demo_input (Some (demo_engine x)) (demo_grad_table [])"
  have d: "?D x = ((fst (fst (?D x)), snd (fst (?D x))), fst (snd (?D x)), snd (snd (?D x)))" for x by simp
  have iff: "pd_verdict (fst (fst (?D x))) = VerdictAuto \<longleftrightarrow>
      auto_conditions demo_reg (Some PolicyGraduationStore) 7 demo_input (demo_engine x) (demo_grad_table [])" for x
    using Decide_auto [OF _ _ d, of x "\<lambda>_. None"] demo_wf by (simp add: demo_engine_def)
  show "pd_verdict (fst (fst (?D None))) = VerdictAuto" using iff demo_conditions by blast
  have "matching (demo_rules (Some True)) demo_input = []" by code_simp
  then show "pd_verdict (fst (fst (?D (Some True)))) \<noteq> VerdictAuto"
    unfolding iff by (simp add: auto_conditions_def demo_engine_def)
qed

end
