(* ===== verification/Policy_Audit.thy ===== *)
theory Policy_Audit
  imports Policy_Engine
begin

text \<open>
  What surrounds the engine: the recorded decision and its sinks, \<^verbatim>\<open>core/policy/audit.go\<close>, the
  operator's switch for the engine and the standing warnings, \<^verbatim>\<open>core/policy/warn.go\<close>, and the active
  rule set in memory, \<^verbatim>\<open>core/policy/ruleset_store.go\<close>.

  A sink acts on a state of its own and may report an error. The text of a ledger error is rendered
  by a parameter.
\<close>

section \<open>Sinks\<close>

type_synonym 'k audit_sink = "PolicyDecision \<Rightarrow> 'k \<Rightarrow> string option \<times> 'k"

record mem_audit =
  ms_records :: "PolicyDecision list"
  ms_appendErr :: "string option"

definition NewMemAuditSink :: mem_audit where
  "NewMemAuditSink = \<lparr>ms_records = [], ms_appendErr = None\<rparr>"

definition WithAppendError :: "string \<Rightarrow> mem_audit \<Rightarrow> mem_audit" where
  "WithAppendError e s = s\<lparr>ms_appendErr := Some e\<rparr>"

definition MemAuditSink :: "mem_audit audit_sink" where
  "MemAuditSink d s = (ms_appendErr s, s\<lparr>ms_records := ms_records s @ [d]\<rparr>)"

definition matchedRulesString :: "MatchedRule list \<Rightarrow> string" where
  "matchedRulesString ms =
     (if ms = [] then ''[]''
      else ''['' @ join '','' (map (\<lambda>m. mr_ID m @ '':'' @ mr_Verdict m) ms) @ '']'')"

definition decisionDetail :: "PolicyDecision \<Rightarrow> string" where
  "decisionDetail d =
     (let bundle = da_BundleVersion (pd_audit d); bundle = (if bundle = [] then ''none'' else bundle) in
      ''bundle='' @ bundle @ ''; '' @ pd_reason d @ ''; matched='' @ matchedRulesString (da_MatchedRules (pd_audit d)))"

definition govDecisionFor :: "PolicyDecision \<Rightarrow> GovDecision" where
  "govDecisionFor d =
     (let rule = (if pd_matchedRuleID d = [] then ''no-rule'' else pd_matchedRuleID d);
          actionID = (if da_ActionID (pd_audit d) = [] then ''policy-decision:'' @ rule @ '':'' @ pd_verdict d
                      else da_ActionID (pd_audit d))
      in \<lparr>gd_Decision = ''policy:'' @ pd_verdict d, gd_Reason = decisionDetail d, gd_ActionID = actionID,
          gd_Withheld = (pd_verdict d \<noteq> VerdictAuto)\<rparr>)"

definition LedgerAuditSink ::
    "(audit_error \<Rightarrow> string) \<Rightarrow> ('l \<Rightarrow> GovDecision \<Rightarrow> (audit_error + LedgerEntry) \<times> 'l) option \<Rightarrow> 'l audit_sink" where
  "LedgerAuditSink errText ledger d l =
     (case ledger of
        None \<Rightarrow> (None, l)
      | Some app \<Rightarrow> (case app l (govDecisionFor d) of (Inl e, l') \<Rightarrow> (Some (errText e), l') | (Inr _, l') \<Rightarrow> (None, l')))"

text \<open>The tee calls every live sink, whatever the others report, and joins their errors.\<close>

fun tee_run :: "'k audit_sink list \<Rightarrow> PolicyDecision \<Rightarrow> 'k \<Rightarrow> string list \<times> 'k" where
  "tee_run [] d k = ([], k)"
| "tee_run (s # ss) d k =
     (case s d k of (e, k1) \<Rightarrow> (case tee_run ss d k1 of (es, k2) \<Rightarrow> ((case e of None \<Rightarrow> es | Some x \<Rightarrow> x # es), k2)))"

definition newline :: string where
  "newline = [CHR 0x0A]"

definition NewTeeAuditSink :: "'k audit_sink option list \<Rightarrow> 'k audit_sink" where
  "NewTeeAuditSink sinks d k =
     (case tee_run (List.map_filter id sinks) d k of
        (es, k') \<Rightarrow> (if es = [] then None else Some (join newline es), k'))"

section \<open>The engine switch\<close>

definition EngineDefaultForMode :: "mode \<Rightarrow> bool" where
  "EngineDefaultForMode m \<longleftrightarrow> m = ModeSemiAuto \<or> m = ModeFullAuto"

definition WarnAllowAllRule :: string where [tg_consts]: "WarnAllowAllRule = ''allow-all-rule''"
definition WarnFloorRemoved :: string where [tg_consts]: "WarnFloorRemoved = ''floor-entry-removed''"
definition WarnFullAuto :: string where [tg_consts]: "WarnFullAuto = ''full-auto-mode''"
definition WarnEngineForcedOn :: string where [tg_consts]: "WarnEngineForcedOn = ''engine-forced-on''"
definition WarnEngineDisabled :: string where [tg_consts]: "WarnEngineDisabled = ''engine-disabled''"

record PolicyWarning =
  pw_Code :: string
  pw_Message :: string

record ToggleRecord =
  tr_Enabled :: bool
  tr_Mode :: mode
  tr_Actor :: string
  tr_WarningText :: string
  tr_DoubleConfirm :: bool
  tr_ForcedOn :: bool
  tr_Disabled :: bool
  tr_Warning :: PolicyWarning
  tr_Reason :: string
  tr_Timestamp :: instant

datatype toggle_error =
    ErrUnauthorizedEngineToggle "mode_error option"
  | ErrEngineToggleNotConfirmed
  | NilLedgerToggle
  | ToggleAuditFailed audit_error
  | ToggleSaveFailed string
  | ToggleLoadFailed string

record 'db tstore =
  ts_load :: "'db \<Rightarrow> 'db \<times> (string + bool option)"
  ts_save :: "'db \<Rightarrow> bool option \<Rightarrow> string \<Rightarrow> 'db \<times> string option"

record mem_toggle =
  mt_override :: "bool option"
  mt_loadErr :: "string option"

definition mem_toggle_Load :: "mem_toggle \<Rightarrow> mem_toggle \<times> (string + bool option)" where
  "mem_toggle_Load s = (s, case mt_loadErr s of Some e \<Rightarrow> Inl e | None \<Rightarrow> Inr (mt_override s))"

definition mem_toggle_Save :: "mem_toggle \<Rightarrow> bool option \<Rightarrow> string \<Rightarrow> mem_toggle \<times> string option" where
  "mem_toggle_Save s ov actor = (s\<lparr>mt_override := ov\<rparr>, None)"

definition MemToggleStore :: "mem_toggle tstore" where
  "MemToggleStore = \<lparr>ts_load = mem_toggle_Load, ts_save = mem_toggle_Save\<rparr>"

record ('db, 'l) EngineToggle =
  et_authz :: "(bool \<Rightarrow> string \<Rightarrow> mode_error option) option"
  et_ledger :: "('l \<Rightarrow> GovDecision \<Rightarrow> (audit_error + LedgerEntry) \<times> 'l) option"
  et_store :: "'db tstore option"

record ('db, 'l) toggle_world =
  tw_override :: "bool option"
  tw_db :: 'db
  tw_ledger :: 'l

definition toggle_Load :: "('db, 'l) EngineToggle \<Rightarrow> ('db, 'l) toggle_world \<Rightarrow> toggle_error option \<times> ('db, 'l) toggle_world" where
  "toggle_Load t w =
     (case et_store t of
        None \<Rightarrow> (None, w)
      | Some s \<Rightarrow>
          (case ts_load s (tw_db w) of
             (db', Inl e) \<Rightarrow> (Some (ToggleLoadFailed e), w\<lparr>tw_db := db'\<rparr>)
           | (db', Inr ov) \<Rightarrow> (None, w\<lparr>tw_db := db', tw_override := ov\<rparr>)))"

text \<open>\<^verbatim>\<open>Effective\<close>, with \<^const>\<open>None\<close> for the nil switch and the override otherwise.\<close>

definition Effective :: "bool option option \<Rightarrow> mode \<Rightarrow> bool" where
  "Effective t m =
     (case t of
        None \<Rightarrow> EngineDefaultForMode m
      | Some None \<Rightarrow> EngineDefaultForMode m
      | Some (Some b) \<Rightarrow> b)"

definition enabledWord :: "bool \<Rightarrow> string" where
  "enabledWord enable = (if enable then ''enabled'' else ''disabled'')"

definition disabledMessage :: "string \<Rightarrow> mode \<Rightarrow> string" where
  "disabledMessage actor m =
     ''admin '' @ actor @ '' DISABLED the policy engine in '' @ mode_String m @ '' (double-confirmed) '' @ emdash
     @ '' actions now defer to the mechanical floors: verdict `approve` (route to a human), never `auto`; the constitutional never-auto floor (INV-09) still clamps beneath''"

definition forcedOnMessage :: "string \<Rightarrow> mode \<Rightarrow> string" where
  "forcedOnMessage actor m =
     ''admin '' @ actor @ '' forced the policy engine ON in '' @ mode_String m @ '' (a read-only mode) '' @ emdash
     @ '' the engine now decides per action; the constitutional never-auto floor (INV-09) is unaffected''"

text \<open>
  The decision part of \<^verbatim>\<open>Override\<close>: which confirmation the change needs and the record it yields.
\<close>

definition toggle_record :: "instant \<Rightarrow> string \<Rightarrow> bool \<Rightarrow> mode \<Rightarrow> Warning \<Rightarrow> toggle_error + ToggleRecord" where
  "toggle_record now actor enable m ack =
     (let def = EngineDefaultForMode m; forcedOn = (enable \<and> \<not> def); disabled = (\<not> enable \<and> def);
          rec = \<lparr>tr_Enabled = enable, tr_Mode = m, tr_Actor = actor, tr_WarningText = wa_Text ack,
                 tr_DoubleConfirm = wa_DoubleConfirm ack, tr_ForcedOn = forcedOn, tr_Disabled = disabled,
                 tr_Warning = \<lparr>pw_Code = [], pw_Message = []\<rparr>, tr_Reason = [], tr_Timestamp = now\<rparr>
      in
      if disabled then
        (if \<not> redConfirmed ack then Inl ErrEngineToggleNotConfirmed
         else Inr (rec\<lparr>tr_DoubleConfirm := True,
                       tr_Warning := \<lparr>pw_Code = WarnEngineDisabled, pw_Message = disabledMessage actor m\<rparr>,
                       tr_Reason := disabledMessage actor m\<rparr>))
      else if forcedOn then
        (if \<not> acknowledged ack then Inl ErrEngineToggleNotConfirmed
         else Inr (rec\<lparr>tr_Warning := \<lparr>pw_Code = WarnEngineForcedOn, pw_Message = forcedOnMessage actor m\<rparr>,
                       tr_Reason := forcedOnMessage actor m\<rparr>))
      else Inr (rec\<lparr>tr_Reason := ''admin '' @ actor @ '' set the policy engine '' @ enabledWord enable @ '' in '' @ mode_String m
                      @ '' (the mode default direction '' @ emdash @ '' no confirmation required)''\<rparr>))"

definition toggle_row :: "ToggleRecord \<Rightarrow> GovDecision" where
  "toggle_row rec =
     \<lparr>gd_Decision = ''engine-toggle:'' @ enabledWord (tr_Enabled rec),
      gd_Reason = ''actor='' @ tr_Actor rec @ '' mode='' @ mode_String (tr_Mode rec) @ '' forcedOn='' @ btoa (tr_ForcedOn rec)
        @ '' disabled='' @ btoa (tr_Disabled rec) @ '' doubleConfirm='' @ btoa (tr_DoubleConfirm rec) @ '': '' @ tr_Reason rec,
      gd_ActionID = ''engine-toggle:'' @ mode_String (tr_Mode rec) @ '':'' @ enabledWord (tr_Enabled rec) @ '':'' @ tr_Actor rec,
      gd_Withheld = (\<not> tr_Enabled rec)\<rparr>"

definition Override ::
    "('db, 'l) EngineToggle option \<Rightarrow> instant \<Rightarrow> bool \<Rightarrow> string \<Rightarrow> bool \<Rightarrow> mode \<Rightarrow> Warning
     \<Rightarrow> ('db, 'l) toggle_world \<Rightarrow> (toggle_error + ToggleRecord) \<times> ('db, 'l) toggle_world" where
  "Override topt now admin actor enable m ack w =
     (case topt of
        None \<Rightarrow> (Inl (ErrUnauthorizedEngineToggle None), w)
      | Some t \<Rightarrow>
        (case et_authz t of
           None \<Rightarrow> (Inl (ErrUnauthorizedEngineToggle None), w)
         | Some authz \<Rightarrow>
           (case authz admin actor of
              Some e \<Rightarrow> (Inl (ErrUnauthorizedEngineToggle (Some e)), w)
            | None \<Rightarrow>
              (case toggle_record now actor enable m ack of
                 Inl e \<Rightarrow> (Inl e, w)
               | Inr rec \<Rightarrow>
                 (case et_ledger t of
                    None \<Rightarrow> (Inl NilLedgerToggle, w)
                  | Some app \<Rightarrow>
                    (case app (tw_ledger w) (toggle_row rec) of
                       (Inl e, led) \<Rightarrow> (Inl (ToggleAuditFailed e), w\<lparr>tw_ledger := led\<rparr>)
                     | (Inr _, led) \<Rightarrow>
                       (let w1 = w\<lparr>tw_ledger := led\<rparr> in
                        case et_store t of
                          None \<Rightarrow> (Inr rec, w1\<lparr>tw_override := Some enable\<rparr>)
                        | Some s \<Rightarrow>
                            (case ts_save s (tw_db w) (Some enable) actor of
                               (db', Some e) \<Rightarrow> (Inl (ToggleSaveFailed e), w1\<lparr>tw_db := db'\<rparr>)
                             | (db', None) \<Rightarrow> (Inr rec, w1\<lparr>tw_db := db', tw_override := Some enable\<rparr>)))))))))"

section \<open>Standing warnings\<close>

definition isAllowAllMatch :: "Match \<Rightarrow> bool" where
  "isAllowAllMatch m \<longleftrightarrow>
     (if ma_OpClass m \<noteq> [] \<or> ma_ArgvPattern m \<noteq> [] \<or> ma_Territory m \<noteq> [] \<or> ma_Reversible m \<noteq> None then False
      else case ma_Selector m of None \<Rightarrow> False | Some sel \<Rightarrow> se_Kind sel = KindHostGlob \<and> se_Pattern sel = ''*'')"

definition allowAllWarning :: "Rule \<Rightarrow> PolicyWarning" where
  "allowAllWarning r =
     \<lparr>pw_Code = WarnAllowAllRule,
      pw_Message = ''rule '' @ quoted (ru_ID r) @ '' is an allow-all ('' @ ru_Verdict r @ '' verdict, wildcard host-glob) '' @ emdash
        @ '' it matches every action; permitted (the operator owns the dial) but the constitutional never-auto floor (INV-09) still clamps beneath it''\<rparr>"

definition floorRemovedWarning :: "FloorEntrySnapshot \<Rightarrow> PolicyWarning" where
  "floorRemovedWarning e =
     \<lparr>pw_Code = WarnFloorRemoved,
      pw_Message = ''execution deny-floor entry '' @ quoted (fs_ID e) @ '' has been removed-with-warning '' @ emdash
        @ '' the operator lowered the dial; the constitutional never-auto floor (INV-09) still clamps floor-class ops''\<rparr>"

definition fullAutoWarning :: PolicyWarning where
  "fullAutoWarning =
     \<lparr>pw_Code = WarnFullAuto,
      pw_Message = ''the active mode is Full-auto '' @ emdash
        @ '' any allow/auto verdict actuates except the constitutional never-auto floor (INV-09), which still clamps beneath''\<rparr>"

definition WarnFor :: "RuleSet \<Rightarrow> floor option \<Rightarrow> mode \<Rightarrow> PolicyWarning list" where
  "WarnFor rs fl m =
     map allowAllWarning
       (filter (\<lambda>r. \<not> (ru_IsDefault r \<or> ru_Verdict r = VerdictDeny) \<and> isAllowAllMatch (ru_Match r)) (rs_Rules rs))
     @ (case fl of None \<Rightarrow> [] | Some f \<Rightarrow> map floorRemovedWarning (filter fs_Removed (Entries f)))
     @ (if m = ModeFullAuto then [fullAutoWarning] else [])"

section \<open>The audited engine\<close>

text \<open>
  The engine, its optional sink and its optional switch. A decision is returned whether or not the
  sink took it.
\<close>

record 'k AuditedEngine =
  ae_engine :: "Engine option"
  ae_sink :: "'k audit_sink option"
  ae_toggle :: "bool option option"

definition emit :: "'k AuditedEngine \<Rightarrow> PolicyDecision \<Rightarrow> 'k \<Rightarrow> 'k" where
  "emit a d k = (case ae_sink a of None \<Rightarrow> k | Some s \<Rightarrow> snd (s d k))"

definition engineOffDecision :: "EvalInput \<Rightarrow> string \<Rightarrow> PolicyDecision" where
  "engineOffDecision i ver =
     failClosedDecision i ver
       (''policy engine DISABLED by admin toggle '' @ emdash
        @ '' deferring to the mechanical floors: verdict `approve` (route to a human); the constitutional never-auto floor (INV-09) still clamps beneath, so a never-auto action cannot resolve to `auto`'')"

definition audited_Decide ::
    "opregistry \<Rightarrow> 'st gstore option \<Rightarrow> instant \<Rightarrow> EvalInput \<Rightarrow> 'k AuditedEngine option \<Rightarrow> 'st \<Rightarrow> 'k
     \<Rightarrow> (PolicyDecision \<times> eval_error option) \<times> 'k AuditedEngine option \<times> 'st \<times> 'k" where
  "audited_Decide reg store now i ao db k =
     (let off = failClosedDecision i [] (''uninitialised audited engine '' @ emdash @ '' fail-closed to approve'') in
      case ao of
        None \<Rightarrow> ((off, None), None, db, k)
      | Some a \<Rightarrow>
          (case ae_engine a of
             None \<Rightarrow> ((off, None), Some a, db, emit a off k)
           | Some e \<Rightarrow>
               if ae_toggle a \<noteq> None \<and> \<not> Effective (ae_toggle a) (ei_Mode i) then
                 (let dec = engineOffDecision i (BundleVersion (Some e)) in ((dec, None), Some a, db, emit a dec k))
               else
                 (case Decide reg store now i (Some e) db of
                    ((dec, err), eo', db') \<Rightarrow> ((dec, err), Some (a\<lparr>ae_engine := eo'\<rparr>), db', emit a dec k))))"

section \<open>The active rule set\<close>

datatype ruleset_error = ErrRulesetAbsent | RulesetLoadError string | RulesetMalformed rule_error

record mem_ruleset =
  mr_document :: "ruleSetDoc option"
  mr_rs :: RuleSet
  mr_set :: bool
  mr_updatedBy :: string
  mr_loadErr :: "ruleset_error option"

definition ruleset_Load :: "mem_ruleset \<Rightarrow> ruleset_error + RuleSet \<times> ruleSetDoc option" where
  "ruleset_Load s =
     (case mr_loadErr s of
        Some e \<Rightarrow> Inl e
      | None \<Rightarrow> if \<not> mr_set s then Inl ErrRulesetAbsent else Inr (mr_rs s, mr_document s))"

text \<open>The document is given by what decoding it yields.\<close>

definition ruleset_Save :: "ruleSetDoc option \<Rightarrow> string \<Rightarrow> mem_ruleset \<Rightarrow> (ruleset_error + RuleSet) \<times> mem_ruleset" where
  "ruleset_Save doc by_whom s =
     (case ParseRuleSet doc of
        Inl e \<Rightarrow> (Inl (RulesetMalformed e), s)
      | Inr rs \<Rightarrow> (Inr rs, s\<lparr>mr_document := doc, mr_rs := rs, mr_set := True, mr_updatedBy := by_whom\<rparr>))"


section \<open>Facts\<close>

lemma failClosed_verdict [simp]: "pd_verdict (failClosedDecision i ver reason) = VerdictApprove"
  by (simp add: failClosedDecision_def NewPolicyDecision_def Let_def)

lemma engineOff_verdict [simp]: "pd_verdict (engineOffDecision i ver) = VerdictApprove"
  by (simp add: engineOffDecision_def)

text \<open>The one place a decision is produced and recorded.\<close>

lemma audited_cases:
  assumes "audited_Decide reg store now i (Some a) db k = ((dec, err), ao', db', k')"
  shows "k' = emit a dec k"
    and "pd_verdict dec = VerdictAuto \<Longrightarrow>
      \<exists>e eo'. ae_engine a = Some e \<and> (ae_toggle a \<noteq> None \<longrightarrow> Effective (ae_toggle a) (ei_Mode i))
        \<and> Decide reg store now i (Some e) db = ((dec, err), eo', db')"
  using assms by (auto simp: audited_Decide_def Let_def split: option.splits if_splits prod.splits)

lemma Override_cases:
  assumes "Override (Some t) now admin actor enable m ack w = (Inr rec, w')"
  obtains authz app x led where "et_authz t = Some authz" and "authz admin actor = None"
    and "toggle_record now actor enable m ack = Inr rec" and "et_ledger t = Some app"
    and "app (tw_ledger w) (toggle_row rec) = (Inr x, led)"
    and "tw_override w' = Some enable" and "tw_ledger w' = led"
  using assms unfolding Override_def Let_def
  by (auto split: option.splits prod.splits sum.splits)

lemma toggle_record_confirmed:
  assumes "toggle_record now actor enable m ack = Inr rec"
  shows "\<not> enable \<and> EngineDefaultForMode m \<longrightarrow> redConfirmed ack"
    and "enable \<and> \<not> EngineDefaultForMode m \<longrightarrow> acknowledged ack"
    and "tr_Enabled rec = enable"
  using assms by (auto simp: toggle_record_def Let_def split: if_splits)

lemma Override_refused:
  assumes "Override topt now admin actor enable m ack w = (Inl e, w')"
  shows "tw_override w' = tw_override w"
  using assms by (auto simp: Override_def Let_def split: option.splits prod.splits sum.splits)

section \<open>Properties\<close>

text \<open>
  C20. A switched-off engine never acts alone and every decision is recorded. What the sink is given is
  exactly the decision that is returned, on every path, also when the sink fails; and an automatic
  verdict comes only from an engine that is present and, if there is a switch, in force.
\<close>

theorem audited_decision_recorded:
  assumes "audited_Decide reg store now i (Some a) db k = ((dec, err), ao', db', k')"
  shows "k' = (case ae_sink a of None \<Rightarrow> k | Some s \<Rightarrow> snd (s dec k))
    \<and> (pd_verdict dec = VerdictAuto \<longrightarrow>
         (\<exists>e. ae_engine a = Some e \<and> pd_verdict (fst (fst (Decide reg store now i (Some e) db))) = VerdictAuto)
         \<and> (case ae_toggle a of None \<Rightarrow> True | Some ov \<Rightarrow> (case ov of None \<Rightarrow> MayAutoActuate (ei_Mode i) | Some on \<Rightarrow> on)))"
  using audited_cases [OF assms]
  by (force simp: emit_def Effective_def EngineDefaultForMode_def MayAutoActuate_def split: option.splits)


text \<open>
  The active rule set is replaced only by a well-formed one: a save that fails changes nothing, and
  after any sequence of saves the rule set that is loaded back, if any, is the last document that
  parsed, with all that parsing guarantees.
\<close>

theorem ruleset_store_keeps_wf:
  assumes "ruleset_Save doc who s = (r, s')" and "mr_set s \<Longrightarrow> wf_rules (mr_rs s)"
  shows "(isl r \<longrightarrow> s' = s) \<and> (mr_set s' \<longrightarrow> wf_rules (mr_rs s'))
    \<and> (\<forall>rs. r = Inr rs \<longrightarrow> mr_loadErr s = None \<longrightarrow> ruleset_Load s' = Inr (rs, doc))"
  using assms parse_rules_wf
  by (auto simp: ruleset_Save_def ruleset_Load_def wf_rules_def ParseRuleSet_def split: sum.splits option.splits)

section \<open>Concrete runs\<close>

definition switched_off :: "mem_audit AuditedEngine" where
  "switched_off = \<lparr>ae_engine = Some (demo_engine None), ae_sink = Some MemAuditSink, ae_toggle = Some (Some False)\<rparr>"

abbreviation off_run where
  "off_run \<equiv> audited_Decide demo_reg (Some PolicyGraduationStore) 7 demo_input (Some switched_off) (demo_grad_table []) NewMemAuditSink"

theorem audited_decision_recorded_witness:
  "ms_records (snd (snd (snd off_run))) = [fst (fst off_run)] \<and> pd_verdict (fst (fst off_run)) \<noteq> VerdictAuto"
proof -
  have r: "off_run = ((fst (fst off_run), snd (fst off_run)), fst (snd off_run), fst (snd (snd off_run)), snd (snd (snd off_run)))"
    by simp
  from audited_decision_recorded [OF r] show ?thesis
    by (simp add: switched_off_def MemAuditSink_def NewMemAuditSink_def)
qed

definition demo_switch :: "(mem_toggle, Ledger) EngineToggle" where
  "demo_switch =
     \<lparr>et_authz = Some (HasModeChangeAuthority (NewModeTransitionAuthority [''alice''])),
      et_ledger = Some (\<lambda>l d. append_mem (\<lambda>_. ''h'') d l), et_store = Some MemToggleStore\<rparr>"

definition demo_toggle_world :: "(mem_toggle, Ledger) toggle_world" where
  "demo_toggle_world = \<lparr>tw_override = None, tw_db = \<lparr>mt_override = None, mt_loadErr = None\<rparr>, tw_ledger = NewLedger\<rparr>"

abbreviation demo_override :: "Warning \<Rightarrow> (toggle_error + ToggleRecord) \<times> (mem_toggle, Ledger) toggle_world" where
  "demo_override ack \<equiv> Override (Some demo_switch) 3 False ''Alice'' False ModeFullAuto ack demo_toggle_world"


definition empty_ruleset :: mem_ruleset where
  "empty_ruleset = \<lparr>mr_document = None, mr_rs = \<lparr>rs_Default = no_params, rs_Rules = []\<rparr>, mr_set = False, mr_updatedBy = [], mr_loadErr = None\<rparr>"

theorem ruleset_store_keeps_wf_witness:
  "\<not> isl (fst (ruleset_Save (Some demo_doc) ''op'' empty_ruleset)) \<and> wf_rules (mr_rs (snd (ruleset_Save (Some demo_doc) ''op'' empty_ruleset)))"
proof -
  let ?r = "ruleset_Save (Some demo_doc) ''op'' empty_ruleset"
  have "\<not> isl (fst ?r)" and "mr_set (snd ?r)" by code_simp+
  moreover have "?r = (fst ?r, snd ?r)" by simp
  moreover have "mr_set empty_ruleset \<Longrightarrow> wf_rules (mr_rs empty_ruleset)" by (simp add: empty_ruleset_def)
  ultimately show ?thesis using ruleset_store_keeps_wf by blast
qed

end
