(* ===== verification/Verify.thy ===== *)
theory Verify
  imports Safety "HOL-Library.Product_Lexorder"
begin

text \<open>
  The mechanical verdict, \<^verbatim>\<open>core/verify/verdict.go\<close>, and the alert-rule families it uses,
  \<^verbatim>\<open>core/knowledge/rulefamily.go\<close> with its data file.

  The Go sets of the prediction are lists here, read only through membership, and the sets the
  verdict collects are lists of which the sorted, duplicate-free form is returned, as the source
  returns them.
\<close>

section \<open>Rule families\<close>

text \<open>\<^verbatim>\<open>core/knowledge/rulefamily.json\<close>.\<close>

definition rule_families :: "(string \<times> string list) list" where
  "rule_families =
     [(''device-down'',
       [''Device-Down-SNMP-unreachable'', ''Device-Down-Due-to-no-ICMP-response.'',
        ''Devices-up/down'', ''HostDown'', ''Device-Down''])]"

text \<open>\<^const>\<open>None\<close> is the panic on an alias listed under two families.\<close>

fun canon_aliases :: "string \<Rightarrow> string list \<Rightarrow> (string \<rightharpoonup> string) \<Rightarrow> (string \<rightharpoonup> string) option" where
  "canon_aliases fam [] m = Some m"
| "canon_aliases fam (a # as) m =
     (let key = norm_key a in
      if key = [] then canon_aliases fam as m
      else if (case m key of Some prev \<Rightarrow> prev \<noteq> fam | None \<Rightarrow> False) then None
      else canon_aliases fam as (m(key \<mapsto> fam)))"

fun build_rule_canon :: "(string \<times> string list) list \<Rightarrow> (string \<rightharpoonup> string) \<Rightarrow> (string \<rightharpoonup> string) option" where
  "build_rule_canon [] m = Some m"
| "build_rule_canon ((family, aliases) # fs) m =
     (let fam = norm_key family in
      if fam = [] then build_rule_canon fs m
      else case canon_aliases fam aliases m of
        None \<Rightarrow> None
      | Some m' \<Rightarrow> build_rule_canon fs m')"

definition ruleCanon :: "string \<rightharpoonup> string" where
  "ruleCanon = (case build_rule_canon rule_families Map.empty of Some m \<Rightarrow> m | None \<Rightarrow> Map.empty)"

definition CanonicalRule :: "string \<Rightarrow> string" where
  "CanonicalRule rule =
     (let key = norm_key rule in case ruleCanon key of Some fam \<Rightarrow> fam | None \<Rightarrow> key)"

fun add_aliases :: "string list \<Rightarrow> string list \<Rightarrow> string list" where
  "add_aliases [] out = out"
| "add_aliases (a # as) out =
     (let s = trim_space a in
      if s = [] \<or> to_lower s \<in> set (map to_lower out) then add_aliases as out
      else add_aliases as (out @ [s]))"

definition RuleFamilyAliases :: "string \<Rightarrow> string list" where
  "RuleFamilyAliases rule =
     (let key = norm_key rule in
      if key = [] then []
      else case ruleCanon key of
        None \<Rightarrow> [trim_space rule]
      | Some fam \<Rightarrow>
          sort (add_aliases (rule # concat (map snd (filter (\<lambda>f. norm_key (fst f) = fam) rule_families))) []))"

section \<open>Predictions and alerts\<close>

record Prediction =
  pr_ActionID :: string
  pr_PlanHash :: string
  pr_TargetHost :: string
  pr_Site :: string
  pr_PredictedHosts :: "string list"
  pr_PredictedRules :: "string list"

definition NUL :: char where
  "NUL = CHR 0x00"

definition RuleKey :: "string \<Rightarrow> string \<Rightarrow> string" where
  "RuleKey host rule = host @ NUL # rule"

record ObservedAlert =
  oa_Host :: string
  oa_Rule :: string
  oa_Site :: string

record HostRule =
  hr_Host :: string
  hr_Rule :: string

record VerdictDetail =
  vd_Verdict :: verdict
  vd_SurpriseHosts :: "string list"
  vd_Mismatches :: "HostRule list"
  vd_SurpriseAlerts :: "HostRule list"

text \<open>The site authority of the estate; \<^const>\<open>None\<close> is an unknown host, no authority excludes nothing.\<close>

type_synonym site_authority = "(string \<rightharpoonup> string) option"

section \<open>The verdict\<close>

text \<open>The families that the prediction names for a host: \<^verbatim>\<open>famByHost\<close>.\<close>

definition families_of :: "string list \<Rightarrow> string \<Rightarrow> string list" where
  "families_of predicted h =
     map (\<lambda>key. CanonicalRule (tl (dropWhile (\<lambda>c. c \<noteq> NUL) key)))
       (filter (\<lambda>key. NUL \<in> set key \<and> takeWhile (\<lambda>c. c \<noteq> NUL) key = h) predicted)"

datatype alert_class = Ignored | Surprise | Mismatch

text \<open>The body of the loop over the observed alerts.\<close>

definition classify_alert ::
    "Prediction \<Rightarrow> ObservedAlert list \<Rightarrow> (string \<Rightarrow> bool) \<Rightarrow> site_authority \<Rightarrow> ObservedAlert \<Rightarrow> alert_class" where
  "classify_alert pred baseline preAnomalous siteOf a =
     (if oa_Host a = pr_TargetHost pred then Ignored
      else if RuleKey (oa_Host a) (oa_Rule a) \<in> set (map (\<lambda>b. RuleKey (oa_Host b) (oa_Rule b)) baseline) then Ignored
      else if preAnomalous (oa_Host a) then Ignored
      else if oa_Host a \<notin> set (pr_PredictedHosts pred) then
        (case siteOf of
           None \<Rightarrow> Surprise
         | Some site \<Rightarrow>
             (case site (pr_TargetHost pred) of
                None \<Rightarrow> Surprise
              | Some targetSite \<Rightarrow>
                  (case site (oa_Host a) of
                     None \<Rightarrow> Surprise
                   | Some s \<Rightarrow> if s \<noteq> targetSite then Ignored else Surprise)))
      else if RuleKey (oa_Host a) (oa_Rule a) \<notin> set (pr_PredictedRules pred) then
        (if CanonicalRule (oa_Rule a) \<in> set (families_of (pr_PredictedRules pred) (oa_Host a)) then Ignored
         else Mismatch)
      else Ignored)"

definition sortedHosts :: "string list \<Rightarrow> string list" where
  "sortedHosts xs = remdups (sort xs)"

definition host_rule :: "HostRule \<Rightarrow> string \<times> string" where
  "host_rule m = (hr_Host m, hr_Rule m)"

definition sortedMismatches :: "HostRule list \<Rightarrow> HostRule list" where
  "sortedMismatches xs = sort_key host_rule (remdups xs)"

definition alert_key :: "ObservedAlert \<Rightarrow> HostRule" where
  "alert_key a = \<lparr>hr_Host = oa_Host a, hr_Rule = oa_Rule a\<rparr>"

definition ComputeVerdictDetailScoped ::
    "Prediction \<Rightarrow> ObservedAlert list \<Rightarrow> ObservedAlert list \<Rightarrow> (string \<Rightarrow> bool) \<Rightarrow> site_authority \<Rightarrow> VerdictDetail" where
  "ComputeVerdictDetailScoped pred observed baseline preAnomalous siteOf =
     (let cls = classify_alert pred baseline preAnomalous siteOf;
          surprises = filter (\<lambda>a. cls a = Surprise) observed;
          mismatches = filter (\<lambda>a. cls a = Mismatch) observed;
          hosts = sortedHosts (map oa_Host surprises);
          mm = sortedMismatches (map alert_key mismatches)
      in \<lparr>vd_Verdict = (if hosts \<noteq> [] then VerdictDeviation else if mm \<noteq> [] then VerdictPartial else VerdictMatch),
          vd_SurpriseHosts = hosts, vd_Mismatches = mm,
          vd_SurpriseAlerts = sortedMismatches (map alert_key surprises)\<rparr>)"

definition ComputeVerdictDetailWithBaselines ::
    "Prediction \<Rightarrow> ObservedAlert list \<Rightarrow> ObservedAlert list \<Rightarrow> (string \<Rightarrow> bool) \<Rightarrow> VerdictDetail" where
  "ComputeVerdictDetailWithBaselines pred observed baseline preAnomalous =
     ComputeVerdictDetailScoped pred observed baseline preAnomalous None"

definition ComputeVerdictDetailWithBaseline ::
    "Prediction \<Rightarrow> ObservedAlert list \<Rightarrow> ObservedAlert list \<Rightarrow> VerdictDetail" where
  "ComputeVerdictDetailWithBaseline pred observed baseline =
     ComputeVerdictDetailWithBaselines pred observed baseline (\<lambda>_. False)"

definition ComputeVerdictDetail :: "Prediction \<Rightarrow> ObservedAlert list \<Rightarrow> VerdictDetail" where
  "ComputeVerdictDetail pred observed = ComputeVerdictDetailWithBaseline pred observed []"

definition ComputeVerdict :: "Prediction \<Rightarrow> ObservedAlert list \<Rightarrow> verdict" where
  "ComputeVerdict pred observed = vd_Verdict (ComputeVerdictDetail pred observed)"

definition AutoResolvable :: "verdict \<Rightarrow> bool" where
  "AutoResolvable v \<longleftrightarrow> v = VerdictMatch \<or> v = VerdictPartial"

section \<open>Facts\<close>

lemma RuleKey_parts:
  assumes "NUL \<notin> set h"
  shows "takeWhile (\<lambda>c. c \<noteq> NUL) (RuleKey h r) = h" "tl (dropWhile (\<lambda>c. c \<noteq> NUL) (RuleKey h r)) = r"
  using assms by (auto simp: RuleKey_def takeWhile_append dropWhile_append)

lemma RuleKey_inj:
  assumes "NUL \<notin> set h" and "NUL \<notin> set h'" and "RuleKey h r = RuleKey h' r'"
  shows "h = h' \<and> r = r'"
  using RuleKey_parts [OF assms(1), of r] RuleKey_parts [OF assms(2), of r'] assms(3) by metis

lemma host_rule_inj: "inj host_rule"
  by (rule injI) (auto simp: host_rule_def intro: HostRule.equality)

lemma set_sortedMismatches [simp]: "set (sortedMismatches xs) = set xs"
  by (simp add: sortedMismatches_def)

lemma sortedMismatches_props: "sorted (map host_rule (sortedMismatches xs)) \<and> distinct (sortedMismatches xs)"
  by (simp add: sortedMismatches_def)

lemma set_sortedHosts [simp]: "set (sortedHosts xs) = set xs"
  by (simp add: sortedHosts_def)

lemma sortedMismatches_Nil: "sortedMismatches xs = [] \<longleftrightarrow> xs = []"
  by (metis set_empty set_sortedMismatches)

lemma sortedHosts_Nil: "sortedHosts xs = [] \<longleftrightarrow> xs = []"
  by (metis set_empty set_sortedHosts)

lemma sortedMismatches_unique:
  assumes "set xs = set ys"
  shows "sortedMismatches xs = sortedMismatches ys"
proof (rule map_inj_on [of host_rule])
  have i: "inj_on host_rule A" for A by (rule inj_on_subset [OF host_rule_inj]) simp
  show "map host_rule (sortedMismatches xs) = map host_rule (sortedMismatches ys)"
    using assms sortedMismatches_props
    by (intro sorted_distinct_set_unique) (simp_all add: distinct_map i)
  show "inj_on host_rule (set (sortedMismatches xs) \<union> set (sortedMismatches ys))"
    by (rule i)
qed

lemma verdict_eq:
  "vd_Verdict (ComputeVerdictDetailScoped pred obs bl pa site) =
     (if \<exists>a \<in> set obs. classify_alert pred bl pa site a = Surprise then VerdictDeviation
      else if \<exists>a \<in> set obs. classify_alert pred bl pa site a = Mismatch then VerdictPartial
      else VerdictMatch)"
  by (simp add: ComputeVerdictDetailScoped_def Let_def sortedHosts_Nil sortedMismatches_Nil filter_empty_conv)

text \<open>Severity of a verdict.\<close>

definition severity :: "verdict \<Rightarrow> nat" where
  "severity v = (if v = VerdictMatch then 0 else if v = VerdictPartial then 1 else 2)"

text \<open>An alert that the prediction does not account for, stated without the loop.\<close>

definition accounted :: "Prediction \<Rightarrow> ObservedAlert list \<Rightarrow> (string \<Rightarrow> bool) \<Rightarrow> ObservedAlert \<Rightarrow> bool" where
  "accounted pred baseline preAnomalous a \<longleftrightarrow>
     oa_Host a = pr_TargetHost pred
     \<or> (\<exists>b \<in> set baseline. oa_Host b = oa_Host a \<and> oa_Rule b = oa_Rule a)
     \<or> preAnomalous (oa_Host a)"

definition proven_elsewhere :: "site_authority \<Rightarrow> string \<Rightarrow> string \<Rightarrow> bool" where
  "proven_elsewhere siteOf target h \<longleftrightarrow>
     (\<exists>site s t. siteOf = Some site \<and> site target = Some t \<and> site h = Some s \<and> s \<noteq> t)"

definition host_ok :: "ObservedAlert \<Rightarrow> bool" where
  "host_ok a \<longleftrightarrow> NUL \<notin> set (oa_Host a)"

lemma baseline_key:
  assumes "host_ok a" and "list_all host_ok bl"
  shows "RuleKey (oa_Host a) (oa_Rule a) \<in> set (map (\<lambda>b. RuleKey (oa_Host b) (oa_Rule b)) bl)
    \<longleftrightarrow> (\<exists>b \<in> set bl. oa_Host b = oa_Host a \<and> oa_Rule b = oa_Rule a)"
proof -
  have "RuleKey (oa_Host a) (oa_Rule a) = RuleKey (oa_Host b) (oa_Rule b)
      \<longleftrightarrow> oa_Host b = oa_Host a \<and> oa_Rule b = oa_Rule a" if "b \<in> set bl" for b
    using RuleKey_inj [of "oa_Host a" "oa_Host b" "oa_Rule a" "oa_Rule b"] that assms
    by (auto simp: host_ok_def list_all_iff)
  then show ?thesis by auto
qed

lemma Surprise_iff:
  assumes "host_ok a" and "list_all host_ok bl"
  shows "classify_alert pred bl pa siteOf a = Surprise \<longleftrightarrow>
    \<not> accounted pred bl pa a \<and> oa_Host a \<notin> set (pr_PredictedHosts pred)
    \<and> \<not> proven_elsewhere siteOf (pr_TargetHost pred) (oa_Host a)"
  unfolding classify_alert_def accounted_def proven_elsewhere_def baseline_key [OF assms]
  by (auto split: option.splits)

lemma families_of_iff:
  assumes "NUL \<notin> set h" and "list_all (\<lambda>k. \<exists>h r. k = RuleKey h r \<and> NUL \<notin> set h) rules"
  shows "f \<in> set (families_of rules h) \<longleftrightarrow> (\<exists>r. RuleKey h r \<in> set rules \<and> CanonicalRule r = f)"
proof
  assume "f \<in> set (families_of rules h)"
  then obtain k where k: "k \<in> set rules" "takeWhile (\<lambda>c. c \<noteq> NUL) k = h"
      "f = CanonicalRule (tl (dropWhile (\<lambda>c. c \<noteq> NUL) k))"
    by (auto simp: families_of_def)
  then obtain h' r where "k = RuleKey h' r" "NUL \<notin> set h'" using assms(2) by (auto simp: list_all_iff)
  with k RuleKey_parts [of h' r] show "\<exists>r. RuleKey h r \<in> set rules \<and> CanonicalRule r = f" by metis
next
  assume "\<exists>r. RuleKey h r \<in> set rules \<and> CanonicalRule r = f"
  then obtain r where "RuleKey h r \<in> set rules" "f = CanonicalRule r" by blast
  then show "f \<in> set (families_of rules h)"
    using RuleKey_parts [OF assms(1), of r] unfolding families_of_def
    by (auto simp: RuleKey_def intro!: image_eqI [of _ _ "RuleKey h r"])
qed

lemma Mismatch_iff:
  assumes "host_ok a" and "list_all host_ok bl"
    and "list_all (\<lambda>k. \<exists>h r. k = RuleKey h r \<and> NUL \<notin> set h) (pr_PredictedRules pred)"
  shows "classify_alert pred bl pa siteOf a = Mismatch \<longleftrightarrow>
    \<not> accounted pred bl pa a \<and> oa_Host a \<in> set (pr_PredictedHosts pred)
    \<and> (\<forall>r. RuleKey (oa_Host a) r \<in> set (pr_PredictedRules pred) \<longrightarrow> CanonicalRule r \<noteq> CanonicalRule (oa_Rule a))"
  unfolding classify_alert_def accounted_def baseline_key [OF assms(1,2)]
    families_of_iff [OF assms(1) [unfolded host_ok_def] assms(3)]
  by (auto split: option.splits)

lemma severity_mono:
  assumes "set obs \<subseteq> set obs'"
    and "\<And>a. classify_alert pred bl pa siteOf a = Surprise \<Longrightarrow> classify_alert pred bl' pa' siteOf' a = Surprise"
    and "\<And>a. classify_alert pred bl pa siteOf a = Mismatch \<Longrightarrow> classify_alert pred bl' pa' siteOf' a = Mismatch"
  shows "severity (vd_Verdict (ComputeVerdictDetailScoped pred obs bl pa siteOf))
    \<le> severity (vd_Verdict (ComputeVerdictDetailScoped pred obs' bl' pa' siteOf'))"
proof -
  have "\<exists>a \<in> set obs'. classify_alert pred bl' pa' siteOf' a = Surprise"
    if "\<exists>a \<in> set obs. classify_alert pred bl pa siteOf a = Surprise" using that assms(1,2) by blast
  moreover have "\<exists>a \<in> set obs'. classify_alert pred bl' pa' siteOf' a = Mismatch"
    if "\<exists>a \<in> set obs. classify_alert pred bl pa siteOf a = Mismatch" using that assms(1,3) by blast
  ultimately show ?thesis unfolding verdict_eq severity_def by simp
qed

lemma rule_family_keys:
  "norm_key ''device-down'' = ''device-down''"
  "norm_key ''Device-Down-SNMP-unreachable'' = ''device-down-snmp-unreachable''"
  "norm_key ''Device-Down-Due-to-no-ICMP-response.'' = ''device-down-due-to-no-icmp-response.''"
  "norm_key ''Devices-up/down'' = ''devices-up/down''"
  "norm_key ''HostDown'' = ''hostdown''" "norm_key ''Device-Down'' = ''device-down''"
  by code_simp+

lemma ruleCanon_range: "ruleCanon k = Some f \<Longrightarrow> f = ''device-down'' \<and> ruleCanon f = Some f"
proof -
  have "build_rule_canon rule_families Map.empty = Some [
      ''device-down-snmp-unreachable'' \<mapsto> ''device-down'', ''device-down-due-to-no-icmp-response.'' \<mapsto> ''device-down'',
      ''devices-up/down'' \<mapsto> ''device-down'', ''hostdown'' \<mapsto> ''device-down'', ''device-down'' \<mapsto> ''device-down'']"
    by (simp add: rule_families_def rule_family_keys Let_def)
  then show "ruleCanon k = Some f \<Longrightarrow> f = ''device-down'' \<and> ruleCanon f = Some f"
    unfolding ruleCanon_def by (auto split: if_splits)
qed

lemma CanonicalRule_norm: "norm_key (CanonicalRule r) = CanonicalRule r"
proof (cases "ruleCanon (norm_key r)")
  case (Some f)
  then have "f = ''device-down''" using ruleCanon_range by blast
  with Some show ?thesis by (simp add: CanonicalRule_def rule_family_keys)
qed (simp add: CanonicalRule_def)

lemma CanonicalRule_idem: "CanonicalRule (CanonicalRule r) = CanonicalRule r"
proof (cases "ruleCanon (norm_key r)")
  case (Some f)
  then show ?thesis using ruleCanon_range [OF Some] by (auto simp: CanonicalRule_def rule_family_keys Let_def)
next
  case None
  then show ?thesis by (simp add: CanonicalRule_def)
qed

section \<open>Properties\<close>

text \<open>
  C27. The verdict says what the loop is meant to decide. On alerts and predictions whose host names
  contain no NUL byte: it is a deviation exactly when some alert off the target host, not firing
  before the action and not on a host already in an incident, is on a host the prediction did not
  name and that the estate cannot prove to be at another site than the target; otherwise it is
  partial exactly when some such alert is on a named host with a rule of a family the prediction
  did not name for that host; and otherwise it is a match.
\<close>

theorem verdict_characterisation:
  assumes "list_all host_ok obs" and "list_all host_ok bl"
    and "list_all (\<lambda>k. \<exists>h r. k = RuleKey h r \<and> NUL \<notin> set h) (pr_PredictedRules pred)"
  shows "vd_Verdict (ComputeVerdictDetailScoped pred obs bl pa siteOf) =
    (if \<exists>a \<in> set obs. \<not> accounted pred bl pa a \<and> oa_Host a \<notin> set (pr_PredictedHosts pred)
          \<and> \<not> proven_elsewhere siteOf (pr_TargetHost pred) (oa_Host a)
     then VerdictDeviation
     else if \<exists>a \<in> set obs. \<not> accounted pred bl pa a \<and> oa_Host a \<in> set (pr_PredictedHosts pred)
          \<and> (\<forall>r. RuleKey (oa_Host a) r \<in> set (pr_PredictedRules pred) \<longrightarrow> CanonicalRule r \<noteq> CanonicalRule (oa_Rule a))
     then VerdictPartial else VerdictMatch)"
proof -
  have ok: "host_ok a" if "a \<in> set obs" for a using that assms(1) by (simp add: list_all_iff)
  show ?thesis
    unfolding verdict_eq using ok assms(2,3)
    by (intro if_cong bex_cong refl Surprise_iff Mismatch_iff)
qed

text \<open>
  Fail closed on what the estate does not know: an alert that nothing accounts for, on a host
  the prediction did not name, is a deviation whenever the site of that host or of the target is
  unknown, whatever the alert says of its own site.
\<close>

theorem unknown_site_deviates:
  assumes "a \<in> set obs" and "oa_Host a \<noteq> pr_TargetHost pred" and "oa_Host a \<notin> set (pr_PredictedHosts pred)"
    and "RuleKey (oa_Host a) (oa_Rule a) \<notin> set (map (\<lambda>b. RuleKey (oa_Host b) (oa_Rule b)) bl)" and "\<not> pa (oa_Host a)"
    and "site (oa_Host a) = None \<or> site (pr_TargetHost pred) = None"
  shows "vd_Verdict (ComputeVerdictDetailScoped pred obs bl pa (Some site)) = VerdictDeviation"
proof -
  have "classify_alert pred bl pa (Some site) a = Surprise"
    unfolding classify_alert_def using assms(2-6) by (auto split: option.splits)
  with assms(1) show ?thesis unfolding verdict_eq by auto
qed

text \<open>
  The verdict depends on the set of observed alerts only: the order in which alerts arrive and
  repeated alerts change neither the verdict nor any of the lists it reports, which are sorted and
  free of duplicates.
\<close>

theorem verdict_order_independent:
  assumes "set obs = set obs'"
  shows "ComputeVerdictDetailScoped pred obs bl pa siteOf = ComputeVerdictDetailScoped pred obs' bl pa siteOf
    \<and> sorted (vd_SurpriseHosts (ComputeVerdictDetailScoped pred obs bl pa siteOf))
    \<and> distinct (vd_SurpriseHosts (ComputeVerdictDetailScoped pred obs bl pa siteOf))
    \<and> distinct (vd_Mismatches (ComputeVerdictDetailScoped pred obs bl pa siteOf))"
proof -
  have h: "sortedHosts (map oa_Host (filter P obs)) = sortedHosts (map oa_Host (filter P obs'))" for P
    unfolding sortedHosts_def using assms by (intro remdups_sort_unique) simp
  have m: "sortedMismatches (map alert_key (filter P obs)) = sortedMismatches (map alert_key (filter P obs'))" for P
    using assms by (intro sortedMismatches_unique) simp
  have "ComputeVerdictDetailScoped pred obs bl pa siteOf = ComputeVerdictDetailScoped pred obs' bl pa siteOf"
    unfolding ComputeVerdictDetailScoped_def Let_def h m ..
  then show ?thesis
    by (simp add: ComputeVerdictDetailScoped_def Let_def sortedHosts_def sortedMismatches_def)
qed

text \<open>
  Evidence only ever worsens a verdict and context only ever excuses alerts: with more observed
  alerts, a smaller baseline and fewer hosts in open incidents the verdict is at least as severe, and
  having a site authority never makes it more severe than having none.
\<close>

theorem verdict_monotone:
  assumes "set obs \<subseteq> set obs'" and "set bl' \<subseteq> set bl" and "\<And>h. pa' h \<Longrightarrow> pa h"
  shows "severity (vd_Verdict (ComputeVerdictDetailScoped pred obs bl pa siteOf))
      \<le> severity (vd_Verdict (ComputeVerdictDetailScoped pred obs' bl' pa' siteOf))
    \<and> severity (vd_Verdict (ComputeVerdictDetailScoped pred obs bl pa siteOf))
      \<le> severity (vd_Verdict (ComputeVerdictDetailScoped pred obs bl pa None))"
proof -
  let ?k = "\<lambda>b. RuleKey (oa_Host b) (oa_Rule b)"
  have pre: "?k a \<notin> set (map ?k bl)  \<Longrightarrow> ?k a \<notin> set (map ?k bl')" for a
    using assms(2) by auto
  have s: "classify_alert pred bl' pa' siteOf a = Surprise" if "classify_alert pred bl pa siteOf a = Surprise" for a
    using that pre [of a] assms(3) unfolding classify_alert_def by (auto split: if_splits option.splits)
  have m: "classify_alert pred bl' pa' siteOf a = Mismatch" if "classify_alert pred bl pa siteOf a = Mismatch" for a
    using that pre [of a] assms(3) unfolding classify_alert_def by (auto split: if_splits option.splits)
  have s0: "classify_alert pred bl pa None a = Surprise" if "classify_alert pred bl pa siteOf a = Surprise" for a
    using that unfolding classify_alert_def by (auto split: if_splits option.splits)
  have m0: "classify_alert pred bl pa None a = Mismatch" if "classify_alert pred bl pa siteOf a = Mismatch" for a
    using that unfolding classify_alert_def by (auto split: if_splits option.splits)
  show ?thesis
    using severity_mono [OF assms(1) s m] severity_mono [OF subset_refl s0 m0] by blast
qed

section \<open>Concrete alerts\<close>

definition demo_pred :: Prediction where
  "demo_pred = \<lparr>pr_ActionID = ''a1'', pr_PlanHash = ''p1'', pr_TargetHost = ''web01'', pr_Site = ''dc1'',
     pr_PredictedHosts = [''web02''], pr_PredictedRules = [RuleKey ''web02'' ''HostDown'']\<rparr>"

definition demo_alert :: "string \<Rightarrow> string \<Rightarrow> ObservedAlert" where
  "demo_alert h r = \<lparr>oa_Host = h, oa_Rule = r, oa_Site = ''dc9''\<rparr>"

lemma demo_rules_ok:
  "list_all (\<lambda>k. \<exists>h r. k = RuleKey h r \<and> NUL \<notin> set h) (pr_PredictedRules demo_pred)"
proof -
  have "NUL \<notin> set ''web02''" by (simp add: NUL_def)
  then show ?thesis unfolding demo_pred_def by auto
qed

text \<open>A family sibling of the predicted rule on the predicted host, and an alert on the target.\<close>

theorem verdict_characterisation_witness:
  "vd_Verdict (ComputeVerdictDetailScoped demo_pred [demo_alert ''web02'' ''Devices-up/down'', demo_alert ''web01'' ''x'']
     [] (\<lambda>_. False) None) = VerdictMatch"
proof -
  let ?obs = "[demo_alert ''web02'' ''Devices-up/down'', demo_alert ''web01'' ''x'']"
  have "list_all host_ok ?obs" by code_simp
  moreover have "CanonicalRule ''HostDown'' = CanonicalRule ''Devices-up/down''" by code_simp
  moreover have "RuleKey ''web02'' ''HostDown'' \<in> set (pr_PredictedRules demo_pred)" by (simp add: demo_pred_def)
  ultimately show ?thesis
    using verdict_characterisation [of ?obs "[]" demo_pred "\<lambda>_. False" None] demo_rules_ok
    by (auto simp: accounted_def demo_alert_def demo_pred_def)
qed

theorem unknown_site_deviates_witness:
  "vd_Verdict (ComputeVerdictDetailScoped demo_pred [demo_alert ''db7'' ''disk''] [] (\<lambda>_. False) (Some [''web01'' \<mapsto> ''dc1'']))
     = VerdictDeviation"
  using unknown_site_deviates [of "demo_alert ''db7'' ''disk''" "[demo_alert ''db7'' ''disk'']" demo_pred "[]"
      "\<lambda>_. False" "[''web01'' \<mapsto> ''dc1'']"]
  by (simp add: demo_alert_def demo_pred_def)

theorem verdict_order_independent_witness:
  "ComputeVerdictDetailScoped demo_pred [demo_alert ''b'' ''r'', demo_alert ''a'' ''r'', demo_alert ''b'' ''r''] [] (\<lambda>_. False) None
     = ComputeVerdictDetailScoped demo_pred [demo_alert ''a'' ''r'', demo_alert ''b'' ''r''] [] (\<lambda>_. False) None"
  using verdict_order_independent [of "[demo_alert ''b'' ''r'', demo_alert ''a'' ''r'', demo_alert ''b'' ''r'']"
      "[demo_alert ''a'' ''r'', demo_alert ''b'' ''r'']"] by auto

theorem verdict_monotone_witness:
  "severity (vd_Verdict (ComputeVerdictDetailScoped demo_pred [demo_alert ''b'' ''r''] [demo_alert ''b'' ''r''] (\<lambda>_. False) None))
     \<le> severity (vd_Verdict (ComputeVerdictDetailScoped demo_pred [demo_alert ''b'' ''r''] [] (\<lambda>_. False) None))"
  using verdict_monotone [of "[demo_alert ''b'' ''r'']" "[demo_alert ''b'' ''r'']" "[]" "[demo_alert ''b'' ''r'']"
      "\<lambda>_. False" "\<lambda>_. False" demo_pred None] by simp

end
