(* ===== verification/OpSchema.thy ===== *)
theory OpSchema
  imports Graduation
begin

text \<open>
  The registry of actuatable operation classes, \<^verbatim>\<open>core/actuate/opschema/\<close>: what a class declares, how
  a declaration is validated, how the embedded registry and the runtime overlay are built and looked
  up, and how parameters become a fixed argument vector.

  Messages of errors are left out; each refusal is a constructor. The canonical hash of a declaration
  (JSON and SHA-256 of the normalised struct) is a parameter. The two compiled builders are a datatype.
\<close>

section \<open>Declarations\<close>

definition EffectSSHArgv :: string where [tg_consts]: "EffectSSHArgv = ''ssh-argv''"
definition EffectAWXLaunch :: string where [tg_consts]: "EffectAWXLaunch = ''awx-launch''"
definition EffectProxmoxLifecycle :: string where [tg_consts]: "EffectProxmoxLifecycle = ''proxmox-lifecycle''"
definition EffectK8sDeclarative :: string where [tg_consts]: "EffectK8sDeclarative = ''k8s-declarative''"

definition argvEncoded :: "string \<Rightarrow> bool" where
  "argvEncoded kind \<longleftrightarrow> kind = EffectSSHArgv \<or> kind = EffectProxmoxLifecycle"

record ParamSpec =
  ps_Name :: string
  ps_Type :: string
  ps_Required :: bool
  ps_Enum :: "string list"
  ps_Example :: string
  ps_Description :: string

datatype ArgvBuilder = BuildStartGuest | BuildStopGuest

definition commitConfirmWindowFloorSeconds :: int where [tg_consts]: "commitConfirmWindowFloorSeconds = 300"
definition AwxWindowFloorSeconds :: int where [tg_consts]: "AwxWindowFloorSeconds = 1800"

text \<open>\<^verbatim>\<open>CommitConfirmed\<close> is a pointer to a struct whose only field is the window.\<close>

record OpClassSpec =
  oc_OpClass :: string
  oc_Op :: string
  oc_EffectKind :: string
  oc_Family :: string
  oc_SafetyTier :: string
  oc_Params :: "ParamSpec list"
  oc_ArgvTemplate :: "string list"
  oc_RollbackTemplate :: "string list"
  oc_RequiresTargetState :: string
  oc_CommitConfirmed :: "int option"
  oc_RollbackOpClass :: string
  oc_build :: "ArgvBuilder option"

definition RequiresNotRunning :: string where [tg_consts]: "RequiresNotRunning = ''not-running''"
definition RequiresRunning :: string where [tg_consts]: "RequiresRunning = ''running''"

definition knownFamilies :: "string list" where
  "knownFamilies =
     [''service-lifecycle'', ''container-lifecycle'', ''guest-lifecycle'', ''disk-reclaim'', ''resource-resize'',
      ''k8s-workload'', ''network-device'', ''storage'', ''process'', ''package'']"

definition knownTiers :: "string list" where
  "knownTiers = [TierLowReversible, TierMedium, TierIrreversible, TierVendorCritical]"

definition Kind :: "OpClassSpec \<Rightarrow> string" where
  "Kind s = (let k = norm_key (oc_EffectKind s) in if k = [] then EffectSSHArgv else k)"

definition SafelyCompensatable :: "OpClassSpec \<Rightarrow> bool" where
  "SafelyCompensatable s \<longleftrightarrow>
     (if oc_SafetyTier s \<noteq> TierLowReversible then False
      else let op = norm_key (oc_Op s) in oc_RollbackTemplate s \<noteq> [] \<or> op = ''restart'' \<or> op = ''reload'')"

definition paramSpec :: "OpClassSpec \<Rightarrow> string \<Rightarrow> ParamSpec option" where
  "paramSpec s name = find (\<lambda>p. ps_Name p = name) (oc_Params s)"

section \<open>Templates\<close>

text \<open>
  An element of a template is a literal or, as a whole, a slot: a dollar sign and a name in braces.
\<close>

definition slot_start :: "char \<Rightarrow> bool" where
  "slot_start c \<longleftrightarrow> word_char c \<and> \<not> digit_char c"

definition slot_name :: "string \<Rightarrow> string option" where
  "slot_name el =
     (case el of
        c # d # rest \<Rightarrow>
          if c = CHR ''$'' \<and> d = CHR ''{'' \<and> rest \<noteq> [] \<and> last rest = CHR ''}'' then
            (case butlast rest of
               [] \<Rightarrow> None
             | x # xs \<Rightarrow> if slot_start x \<and> list_all word_char xs then Some (x # xs) else None)
          else None
      | _ \<Rightarrow> None)"

type_synonym params = "string \<rightharpoonup> string"

datatype argv_error =
    MissingParam string string
  | NotArgvEncoded string
  | NoBuilderNoTemplate string
  | UnregisteredClass string

fun renderFrom :: "OpClassSpec \<Rightarrow> string list \<Rightarrow> params \<Rightarrow> argv_error + string list" where
  "renderFrom s [] ps = Inr []"
| "renderFrom s (el # els) ps =
     (case slot_name el of
        None \<Rightarrow> (case renderFrom s els ps of Inl e \<Rightarrow> Inl e | Inr out \<Rightarrow> Inr (el # out))
      | Some name \<Rightarrow>
          (case ps name of
             None \<Rightarrow> Inl (MissingParam (oc_OpClass s) name)
           | Some v \<Rightarrow>
               if trim_space v = [] then Inl (MissingParam (oc_OpClass s) name)
               else (case renderFrom s els ps of Inl e \<Rightarrow> Inl e | Inr out \<Rightarrow> Inr (v # out))))"

definition guest_builder :: "string \<Rightarrow> string \<Rightarrow> params \<Rightarrow> argv_error + string list" where
  "guest_builder op verb ps =
     (let guest = trim_space (case ps ''guest'' of None \<Rightarrow> [] | Some v \<Rightarrow> v) in
      if guest = [] then Inl (MissingParam op ''guest'') else Inr [verb, guest])"

fun build_argv :: "ArgvBuilder \<Rightarrow> params \<Rightarrow> argv_error + string list" where
  "build_argv BuildStartGuest ps = guest_builder ''start-guest'' ''start'' ps"
| "build_argv BuildStopGuest ps = guest_builder ''stop-guest'' ''stop'' ps"

definition builders :: "string \<Rightarrow> ArgvBuilder option" where
  "builders key =
     (if key = ''start-guest'' then Some BuildStartGuest
      else if key = ''stop-guest'' then Some BuildStopGuest
      else None)"

definition spec_Argv :: "OpClassSpec \<Rightarrow> params \<Rightarrow> argv_error + string list" where
  "spec_Argv s ps =
     (if \<not> argvEncoded (Kind s) then Inl (NotArgvEncoded (oc_OpClass s))
      else case oc_build s of
        None \<Rightarrow>
          if oc_ArgvTemplate s \<noteq> [] then renderFrom s (oc_ArgvTemplate s) ps
          else Inl (NoBuilderNoTemplate (oc_OpClass s))
      | Some b \<Rightarrow> build_argv b ps)"

definition RollbackArgv :: "OpClassSpec \<Rightarrow> params \<Rightarrow> argv_error + string list" where
  "RollbackArgv s ps =
     (if oc_RollbackTemplate s = [] then spec_Argv s ps else renderFrom s (oc_RollbackTemplate s) ps)"

text \<open>
  \<^verbatim>\<open>MatchTemplate\<close> reads an argument vector back: it hits when the template has exactly one slot. The
  accumulator is the value and parameter found so far.
\<close>

fun match_elems :: "string list \<Rightarrow> string list \<Rightarrow> (string \<times> string) option \<Rightarrow> (string \<times> string) option" where
  "match_elems (el # els) (a # as) acc =
     (case slot_name el of
        None \<Rightarrow> if a \<noteq> el then None else match_elems els as acc
      | Some name \<Rightarrow>
          if acc \<noteq> None then None
          else if trim_space a = [] then None
          else match_elems els as (Some (a, name)))"
| "match_elems _ _ acc = acc"

definition MatchTemplate :: "OpClassSpec \<Rightarrow> string list \<Rightarrow> (string \<times> string) option" where
  "MatchTemplate s argv =
     (if oc_ArgvTemplate s = [] \<or> length argv \<noteq> length (oc_ArgvTemplate s) then None
      else match_elems (oc_ArgvTemplate s) argv None)"

section \<open>Validation of parameters\<close>

datatype args_error = MissingRequired string | NotInEnum string string

definition check_param :: "params \<Rightarrow> ParamSpec \<Rightarrow> args_error option" where
  "check_param ps p =
     (let v = ps (ps_Name p) in
      if ps_Required p \<and> (case v of None \<Rightarrow> True | Some x \<Rightarrow> trim_space x = []) then Some (MissingRequired (ps_Name p))
      else case v of
        None \<Rightarrow> None
      | Some x \<Rightarrow> if ps_Enum p \<noteq> [] \<and> x \<notin> set (ps_Enum p) then Some (NotInEnum (ps_Name p) x) else None)"

fun check_params :: "params \<Rightarrow> ParamSpec list \<Rightarrow> args_error option" where
  "check_params ps [] = None"
| "check_params ps (p # rest) = (case check_param ps p of Some e \<Rightarrow> Some e | None \<Rightarrow> check_params ps rest)"

definition ValidateArgs :: "OpClassSpec \<Rightarrow> params \<Rightarrow> args_error option" where
  "ValidateArgs spec ps = check_params ps (oc_Params spec)"

section \<open>Validation of a declaration\<close>

datatype spec_error =
    BlankOpClass
  | UnknownFamily string
  | UnknownTier string
  | UnknownTargetState string
  | NotOneInverse
  | WindowBelowFloor int
  | AwxWindowTooShort int
  | DanglingRollbackClass
  | BuilderAndTemplate
  | NeitherBuilderNorTemplate
  | SlotAsProgram string
  | EmbeddedSlot string
  | UndeclaredSlot string
  | OptionalSlot string
  | BuilderNotAllowed
  | UnknownEffectKind string
  | DuplicateClass string
  | UnresolvedInverse string string
  | BuilderWithoutSchema string
  | BuilderContradiction string
  | AlreadyEmbedded
  | DestructiveClaim string
  | ModelAuthored string

definition check_slot :: "OpClassSpec \<Rightarrow> string \<Rightarrow> spec_error option" where
  "check_slot s el =
     (case slot_name el of
        None \<Rightarrow> if str_contains el [CHR ''$'', CHR ''{''] then Some (EmbeddedSlot el) else None
      | Some name \<Rightarrow>
          (case paramSpec s name of
             None \<Rightarrow> Some (UndeclaredSlot name)
           | Some p \<Rightarrow> if \<not> ps_Required p then Some (OptionalSlot name) else None))"

fun first_error :: "('a \<Rightarrow> 'e option) \<Rightarrow> 'a list \<Rightarrow> 'e option" where
  "first_error f [] = None"
| "first_error f (x # xs) = (case f x of Some e \<Rightarrow> Some e | None \<Rightarrow> first_error f xs)"

definition check_program :: "string list \<Rightarrow> spec_error option" where
  "check_program t =
     (case t of [] \<Rightarrow> None | el # _ \<Rightarrow> if slot_name el \<noteq> None then Some (SlotAsProgram el) else None)"

definition check_inverse :: "OpClassSpec \<Rightarrow> spec_error option" where
  "check_inverse s =
     (case oc_CommitConfirmed s of
        Some w \<Rightarrow>
          (if (oc_RollbackTemplate s \<noteq> []) = (trim_space (oc_RollbackOpClass s) \<noteq> []) then Some NotOneInverse
           else if w < commitConfirmWindowFloorSeconds then Some (WindowBelowFloor w)
           else if Kind s = EffectAWXLaunch \<and> w \<le> AwxWindowFloorSeconds then Some (AwxWindowTooShort w)
           else None)
      | None \<Rightarrow> if trim_space (oc_RollbackOpClass s) \<noteq> [] then Some DanglingRollbackClass else None)"

definition check_effect :: "bool \<Rightarrow> OpClassSpec \<Rightarrow> spec_error option" where
  "check_effect hasCompiledBuilder s =
     (if argvEncoded (Kind s) then
        (let hasTemplate = (oc_ArgvTemplate s \<noteq> []) in
         if hasCompiledBuilder \<and> hasTemplate then Some BuilderAndTemplate
         else if \<not> hasCompiledBuilder \<and> \<not> hasTemplate then Some NeitherBuilderNorTemplate
         else case first_error check_program [oc_ArgvTemplate s, oc_RollbackTemplate s] of
           Some e \<Rightarrow> Some e
         | None \<Rightarrow> first_error (check_slot s) (oc_ArgvTemplate s @ oc_RollbackTemplate s))
      else if Kind s = EffectAWXLaunch \<or> Kind s = EffectK8sDeclarative then
        (if hasCompiledBuilder then Some BuilderNotAllowed else None)
      else Some (UnknownEffectKind (oc_EffectKind s)))"

definition ValidateSpec :: "OpClassSpec \<Rightarrow> bool \<Rightarrow> spec_error + OpClassSpec" where
  "ValidateSpec s0 hasCompiledBuilder =
     (if norm_key (oc_OpClass s0) = [] then Inl BlankOpClass
      else let s = s0\<lparr>oc_OpClass := norm_key (oc_OpClass s0), oc_Family := norm_key (oc_Family s0),
                      oc_SafetyTier := norm_key (oc_SafetyTier s0)\<rparr> in
      if oc_Family s \<notin> set knownFamilies then Inl (UnknownFamily (oc_Family s))
      else if oc_SafetyTier s \<notin> set knownTiers then Inl (UnknownTier (oc_SafetyTier s))
      else let s = s\<lparr>oc_RequiresTargetState := norm_key (oc_RequiresTargetState s)\<rparr> in
      if oc_RequiresTargetState s \<notin> {[], RequiresNotRunning, RequiresRunning}
        then Inl (UnknownTargetState (oc_RequiresTargetState s))
      else case check_inverse s of
        Some e \<Rightarrow> Inl e
      | None \<Rightarrow> (case check_effect hasCompiledBuilder s of Some e \<Rightarrow> Inl e | None \<Rightarrow> Inr s))"

section \<open>The registry and the overlay\<close>

type_synonym registry = "string \<rightharpoonup> OpClassSpec"

definition add_spec :: "OpClassSpec \<Rightarrow> spec_error + registry \<Rightarrow> spec_error + registry" where
  "add_spec s r =
     (case r of
        Inl e \<Rightarrow> Inl e
      | Inr m \<Rightarrow>
          (let key = norm_key (oc_OpClass s) in
           if m key \<noteq> None \<and> key \<noteq> [] then Inl (DuplicateClass (oc_OpClass s))
           else case ValidateSpec s (builders key \<noteq> None) of
             Inl e \<Rightarrow> Inl e
           | Inr spec \<Rightarrow>
               (let spec = (if argvEncoded (Kind spec) then spec\<lparr>oc_build := builders key\<rparr> else spec) in
                Inr (m(norm_key (oc_OpClass spec) \<mapsto> spec)))))"

definition check_resolved :: "registry \<Rightarrow> OpClassSpec \<Rightarrow> spec_error option" where
  "check_resolved m s =
     (if oc_CommitConfirmed s = None \<or> trim_space (oc_RollbackOpClass s) = [] then None
      else if m (norm_key (oc_RollbackOpClass s)) = None then Some (UnresolvedInverse (oc_OpClass s) (oc_RollbackOpClass s))
      else None)"

definition check_builder :: "bool \<Rightarrow> registry \<Rightarrow> string \<Rightarrow> spec_error option" where
  "check_builder dayZero m key =
     (case m key of
        None \<Rightarrow> if dayZero then None else Some (BuilderWithoutSchema key)
      | Some s \<Rightarrow> if \<not> argvEncoded (Kind s) then Some (BuilderContradiction key) else None)"

text \<open>
  \<^verbatim>\<open>mustBuildRegistry\<close> on the decoded document; a panic is an error. The second pass goes over the
  registered classes, here in the order of the document.
\<close>

definition mustBuildRegistry :: "bool \<Rightarrow> OpClassSpec list \<Rightarrow> spec_error + registry" where
  "mustBuildRegistry dayZero doc =
     (case fold add_spec doc (Inr Map.empty) of
        Inl e \<Rightarrow> Inl e
      | Inr m \<Rightarrow>
          (case first_error (\<lambda>s. case m (norm_key (oc_OpClass s)) of None \<Rightarrow> None | Some spec \<Rightarrow> check_resolved m spec) doc of
             Some e \<Rightarrow> Inl e
           | None \<Rightarrow>
               (case first_error (check_builder dayZero m) [''start-guest'', ''stop-guest''] of
                  Some e \<Rightarrow> Inl e
                | None \<Rightarrow> Inr m)))"

record OverlayEntry =
  ov_Spec :: OpClassSpec
  ov_Hash :: string

definition canonical_spec :: "OpClassSpec \<Rightarrow> OpClassSpec" where
  "canonical_spec s =
     s\<lparr>oc_OpClass := norm_key (oc_OpClass s), oc_Family := norm_key (oc_Family s), oc_SafetyTier := norm_key (oc_SafetyTier s)\<rparr>"

definition CanonicalHash :: "(OpClassSpec \<Rightarrow> string option) \<Rightarrow> OpClassSpec \<Rightarrow> string option" where
  "CanonicalHash hashOf s = hashOf (canonical_spec s)"

datatype overlay_rejection =
    BlankEntry | ShadowsEmbedded string | NotCanonicalizable string | HashMismatch string | InvalidEntry string spec_error | TwiceInSnapshot string

definition overlay_add ::
    "(OpClassSpec \<Rightarrow> string option) \<Rightarrow> registry \<Rightarrow> OverlayEntry \<Rightarrow> registry \<times> overlay_rejection list \<Rightarrow> registry \<times> overlay_rejection list" where
  "overlay_add hashOf reg e acc =
     (case acc of (snap, rejected) \<Rightarrow>
        let spec0 = ov_Spec e; key = norm_key (oc_OpClass spec0) in
        if key = [] then (snap, rejected @ [BlankEntry])
        else if reg key \<noteq> None then (snap, rejected @ [ShadowsEmbedded (oc_OpClass spec0)])
        else case CanonicalHash hashOf spec0 of
          None \<Rightarrow> (snap, rejected @ [NotCanonicalizable (oc_OpClass spec0)])
        | Some want \<Rightarrow>
            if \<not> equal_fold (trim_space (ov_Hash e)) want then (snap, rejected @ [HashMismatch (oc_OpClass spec0)])
            else (case ValidateSpec spec0 False of
                    Inl er \<Rightarrow> (snap, rejected @ [InvalidEntry (oc_OpClass spec0) er])
                  | Inr spec \<Rightarrow>
                      if snap key \<noteq> None then (snap, rejected @ [TwiceInSnapshot (oc_OpClass spec0)])
                      else (snap(key \<mapsto> spec), rejected)))"

definition SetOverlay ::
    "(OpClassSpec \<Rightarrow> string option) \<Rightarrow> registry \<Rightarrow> OverlayEntry list \<Rightarrow> registry \<times> overlay_rejection list" where
  "SetOverlay hashOf reg entries = fold (overlay_add hashOf reg) entries (Map.empty, [])"

definition ClearOverlay :: registry where
  "ClearOverlay = Map.empty"

definition Lookup :: "registry \<Rightarrow> registry \<Rightarrow> string \<Rightarrow> OpClassSpec option" where
  "Lookup reg ov opClass =
     (let key = norm_key opClass in case reg key of Some s \<Rightarrow> Some s | None \<Rightarrow> ov key)"

definition Argv :: "registry \<Rightarrow> registry \<Rightarrow> string \<Rightarrow> params \<Rightarrow> argv_error + string list" where
  "Argv reg ov opClass ps =
     (case Lookup reg ov opClass of None \<Rightarrow> Inl (UnregisteredClass opClass) | Some spec \<Rightarrow> spec_Argv spec ps)"

text \<open>What the graduation ladder asks of the two registries.\<close>

definition opregistry_of :: "registry \<Rightarrow> registry \<Rightarrow> opregistry" where
  "opregistry_of reg ov =
     \<lparr>or_embedded = (\<lambda>k. map_option oc_SafetyTier (reg k)), or_overlay = (\<lambda>k. map_option oc_SafetyTier (ov k))\<rparr>"

section \<open>Ratification\<close>

definition destructiveOpClass :: "string \<Rightarrow> bool" where
  "destructiveOpClass opClass \<longleftrightarrow> IsNeverAuto opClass \<or> IsDestructiveOp [opClass]"

definition model_authored :: "string list \<Rightarrow> string \<Rightarrow> spec_error option" where
  "model_authored modelText el =
     (let trimmed = trim_space el in
      if trimmed = [] then None
      else if list_ex (\<lambda>mt. trim_space mt \<noteq> [] \<and> trimmed = trim_space mt) modelText then Some (ModelAuthored el)
      else None)"

definition ValidateRatification :: "registry \<Rightarrow> OpClassSpec \<Rightarrow> string list \<Rightarrow> spec_error + OpClassSpec" where
  "ValidateRatification reg s modelText =
     (let key = norm_key (oc_OpClass s) in
      if key = [] then Inl BlankOpClass
      else if reg key \<noteq> None then Inl AlreadyEmbedded
      else case ValidateSpec s False of
        Inl e \<Rightarrow> Inl e
      | Inr spec \<Rightarrow>
          if AutoEligible (oc_SafetyTier spec) \<and> destructiveOpClass (oc_OpClass spec)
          then Inl (DestructiveClaim (oc_SafetyTier spec))
          else case first_error (model_authored modelText) (oc_ArgvTemplate spec @ oc_RollbackTemplate spec) of
            Some e \<Rightarrow> Inl e
          | None \<Rightarrow> Inr spec)"


section \<open>Facts\<close>

lemma first_error_None: "first_error f xs = None \<longleftrightarrow> (\<forall>x \<in> set xs. f x = None)"
  by (induction xs) (auto split: option.splits)

lemma check_params_None: "check_params ps xs = None \<longleftrightarrow> (\<forall>p \<in> set xs. check_param ps p = None)"
  by (induction xs) (auto split: option.splits)

text \<open>What a template element becomes.\<close>

definition fills :: "params \<Rightarrow> string \<Rightarrow> string \<Rightarrow> bool" where
  "fills ps el a \<longleftrightarrow>
     (case slot_name el of None \<Rightarrow> a = el | Some name \<Rightarrow> ps name = Some a \<and> trim_space a \<noteq> [])"

lemma renderFrom_Cons:
  "renderFrom s (el # els) ps = Inr argv \<longleftrightarrow>
     (\<exists>a out. argv = a # out \<and> fills ps el a \<and> renderFrom s els ps = Inr out)"
  by (auto simp: fills_def split: option.splits sum.splits if_splits)

lemma renderFrom_iff: "renderFrom s els ps = Inr argv \<longleftrightarrow> list_all2 (fills ps) els argv"
proof (induction els arbitrary: argv)
  case (Cons el els)
  show ?case unfolding renderFrom_Cons Cons.IH list_all2_Cons1 by blast
qed auto

lemma renderFrom_total:
  assumes "\<And>el name. el \<in> set els \<Longrightarrow> slot_name el = Some name \<Longrightarrow> \<exists>v. ps name = Some v \<and> trim_space v \<noteq> []"
  shows "\<exists>argv. renderFrom s els ps = Inr argv"
  using assms
proof (induction els)
  case (Cons el els)
  then obtain out where "renderFrom s els ps = Inr out" by fastforce
  moreover have "\<forall>name. slot_name el = Some name \<longrightarrow> (\<exists>v. ps name = Some v \<and> trim_space v \<noteq> [])"
    using Cons.prems by (metis list.set_intros(1))
  ultimately show ?case by (cases "slot_name el") auto
qed simp

text \<open>Everything a validated declaration satisfies.\<close>

definition wf_spec :: "bool \<Rightarrow> OpClassSpec \<Rightarrow> bool" where
  "wf_spec hasBuilder s \<longleftrightarrow>
     oc_OpClass s \<noteq> [] \<and> norm_key (oc_OpClass s) = oc_OpClass s
     \<and> oc_Family s \<in> set knownFamilies \<and> oc_SafetyTier s \<in> set knownTiers
     \<and> oc_RequiresTargetState s \<in> {[], RequiresNotRunning, RequiresRunning}
     \<and> check_inverse s = None \<and> check_effect hasBuilder s = None"

lemma ValidateSpec_wf: "ValidateSpec s0 b = Inr s \<Longrightarrow> wf_spec b s \<and> oc_OpClass s = norm_key (oc_OpClass s0)"
  by (auto simp: ValidateSpec_def wf_spec_def Let_def split: if_splits option.splits)

lemma wf_template:
  assumes "wf_spec b s" and "argvEncoded (Kind s)"
  shows "\<And>el name. el \<in> set (oc_ArgvTemplate s @ oc_RollbackTemplate s) \<Longrightarrow> slot_name el = Some name \<Longrightarrow>
      \<exists>p. paramSpec s name = Some p \<and> ps_Required p"
    and "\<And>el els. oc_ArgvTemplate s = el # els \<or> oc_RollbackTemplate s = el # els \<Longrightarrow> slot_name el = None"
    and "\<not> b \<Longrightarrow> oc_ArgvTemplate s \<noteq> []"
proof -
  have c: "first_error check_program [oc_ArgvTemplate s, oc_RollbackTemplate s] = None"
      "first_error (check_slot s) (oc_ArgvTemplate s @ oc_RollbackTemplate s) = None"
      "\<not> b \<Longrightarrow> oc_ArgvTemplate s \<noteq> []"
    using assms by (auto simp: wf_spec_def check_effect_def Let_def split: if_splits option.splits)
  show "\<exists>p. paramSpec s name = Some p \<and> ps_Required p"
    if "el \<in> set (oc_ArgvTemplate s @ oc_RollbackTemplate s)" "slot_name el = Some name" for el name
  proof -
    have "check_slot s el = None" using c(2) that(1) by (simp only: first_error_None)
    with that(2) show ?thesis by (auto simp: check_slot_def split: option.splits if_splits)
  qed
  show "slot_name el = None" if "oc_ArgvTemplate s = el # els \<or> oc_RollbackTemplate s = el # els" for el els
    using c(1) that by (auto simp: first_error_None check_program_def split: if_splits option.splits)
  show "\<not> b \<Longrightarrow> oc_ArgvTemplate s \<noteq> []" by (rule c(3))
qed

lemma ValidateArgs_required:
  assumes "ValidateArgs s ps = None" and "paramSpec s name = Some p" and "ps_Required p"
  shows "\<exists>v. ps name = Some v \<and> trim_space v \<noteq> []"
proof -
  have p: "p \<in> set (oc_Params s)" "ps_Name p = name" using assms(2) by (auto simp: paramSpec_def find_Some_iff)
  have "check_param ps p = None" using assms(1) p(1) by (simp add: ValidateArgs_def check_params_None)
  with assms(3) p(2) show ?thesis by (cases "ps name") (simp_all add: check_param_def split: if_splits)
qed

lemma match_elems_acc: "match_elems els as acc = Some (v, p) \<Longrightarrow> acc \<noteq> None \<Longrightarrow> acc = Some (v, p)"
  by (induction els as acc rule: match_elems.induct) (auto split: option.splits if_splits)

lemma match_elems_fills:
  assumes "match_elems els as acc = Some (v, p)" and "length as = length els" and "ps p = Some v"
  shows "list_all2 (fills ps) els as"
  using assms
proof (induction els as acc rule: match_elems.induct)
  case (1 el els a as acc)
  show ?case
  proof (cases "slot_name el")
    case None
    with 1 show ?thesis by (auto simp: fills_def split: if_splits)
  next
    case (Some name)
    with 1 have m: "match_elems els as (Some (a, name)) = Some (v, p)" "trim_space a \<noteq> []" "acc = None"
      by (cases acc; auto split: if_splits)+
    then have "a = v" "name = p" using match_elems_acc by fastforce+
    with m Some 1 show ?thesis by (auto simp: fills_def)
  qed
qed auto

lemma match_elems_none_left:
  assumes "list_all2 (fills ps) els as" and "\<forall>el \<in> set els. slot_name el = None"
  shows "match_elems els as acc = acc"
  using assms by (induction arbitrary: acc rule: list_all2_induct) (auto simp: fills_def)

lemma match_elems_one:
  assumes "list_all2 (fills ps) els as" and "length (filter (\<lambda>el. slot_name el \<noteq> None) els) = 1"
  shows "\<exists>v p. match_elems els as None = Some (v, p) \<and> ps p = Some v"
  using assms
proof (induction rule: list_all2_induct)
  case (Cons el els a as)
  show ?case
  proof (cases "slot_name el")
    case None
    with Cons show ?thesis by (auto simp: fills_def)
  next
    case (Some name)
    with Cons.prems have "\<forall>el \<in> set els. slot_name el = None" by (auto simp: filter_empty_conv)
    with Some Cons show ?thesis by (auto simp: fills_def match_elems_none_left)
  qed
qed simp

lemma overlay_add_grows:
  "overlay_add hashOf reg e (snap, rej) = (snap', rej') \<Longrightarrow>
     (snap' = snap \<and> (\<exists>x. rej' = rej @ [x]))
     \<or> (rej' = rej \<and> (\<exists>k want spec. k = norm_key (oc_OpClass (ov_Spec e)) \<and> k \<noteq> [] \<and> reg k = None \<and> snap k = None
          \<and> CanonicalHash hashOf (ov_Spec e) = Some want \<and> equal_fold (trim_space (ov_Hash e)) want
          \<and> ValidateSpec (ov_Spec e) False = Inr spec \<and> snap' = snap(k \<mapsto> spec)))"
  by (auto simp: overlay_add_def Let_def split: if_splits option.splits sum.splits)

text \<open>An overlay entry with everything the code demands of it.\<close>

definition attested :: "(OpClassSpec \<Rightarrow> string option) \<Rightarrow> registry \<Rightarrow> OverlayEntry list \<Rightarrow> string \<Rightarrow> OpClassSpec \<Rightarrow> bool" where
  "attested hashOf reg es k spec \<longleftrightarrow>
     reg k = None
     \<and> (\<exists>e \<in> set es. norm_key (oc_OpClass (ov_Spec e)) = k \<and> ValidateSpec (ov_Spec e) False = Inr spec
          \<and> (\<exists>want. CanonicalHash hashOf (ov_Spec e) = Some want \<and> equal_fold (trim_space (ov_Hash e)) want))"

lemma overlay_fold:
  assumes "fold (overlay_add hashOf reg) es (snap, rej) = (snap', rej')"
    and "\<And>k spec. snap k = Some spec \<Longrightarrow> attested hashOf reg es0 k spec" and "finite (dom snap)"
  shows "(\<forall>k spec. snap' k = Some spec \<longrightarrow> attested hashOf reg (es0 @ es) k spec)
    \<and> finite (dom snap') \<and> card (dom snap') + length rej' = card (dom snap) + length rej + length es"
  using assms
proof (induction es arbitrary: snap rej es0)
  case Nil
  then show ?case by auto
next
  case (Cons e es)
  obtain s1 r1 where s1: "overlay_add hashOf reg e (snap, rej) = (s1, r1)" by (metis prod.exhaust)
  have step: "fold (overlay_add hashOf reg) es (s1, r1) = (snap', rej')" using Cons.prems(1) s1 by simp
  have mono: "attested hashOf reg es0 k spec \<Longrightarrow> attested hashOf reg (es0 @ [e]) k spec" for k spec
    by (auto simp: attested_def)
  have at: "attested hashOf reg (es0 @ [e]) k spec" if "s1 k = Some spec" for k spec
  proof (cases "snap k = Some spec")
    case True
    then show ?thesis by (intro mono Cons.prems(2))
  next
    case False
    with overlay_add_grows [OF s1] that show ?thesis by (auto simp: attested_def split: if_splits)
  qed
  have card: "finite (dom s1)" "card (dom s1) + length r1 = card (dom snap) + length rej + 1"
    using overlay_add_grows [OF s1] Cons.prems(3) by (auto simp: card_insert_if domIff)
  have "(\<forall>k spec. snap' k = Some spec \<longrightarrow> attested hashOf reg ((es0 @ [e]) @ es) k spec)
    \<and> finite (dom snap') \<and> card (dom snap') + length rej' = card (dom s1) + length r1 + length es"
    by (rule Cons.IH [OF step at card(1)])
  then show ?case using card(2) by simp
qed

section \<open>Properties\<close>


definition demo_spec :: OpClassSpec where
  "demo_spec =
     \<lparr>oc_OpClass = ''restart-service'', oc_Op = ''restart'', oc_EffectKind = [], oc_Family = ''service-lifecycle'',
      oc_SafetyTier = ''low-reversible'',
      oc_Params = [\<lparr>ps_Name = ''unit'', ps_Type = ''string'', ps_Required = True, ps_Enum = [], ps_Example = [], ps_Description = []\<rparr>],
      oc_ArgvTemplate = [''systemctl'', ''restart'', ''${unit}''], oc_RollbackTemplate = [], oc_RequiresTargetState = [],
      oc_CommitConfirmed = None, oc_RollbackOpClass = [], oc_build = None\<rparr>"


text \<open>
  C15. Rendering and matching are inverse for a template with one slot: a vector is the rendering for some
  parameters exactly when the match reads from it a parameter name and the value those parameters give it.
\<close>

theorem match_inverts_render:
  assumes "length (filter (\<lambda>el. slot_name el \<noteq> None) (oc_ArgvTemplate s)) = 1"
  shows "renderFrom s (oc_ArgvTemplate s) ps = Inr argv \<longleftrightarrow>
    (\<exists>v p. MatchTemplate s argv = Some (v, p) \<and> ps p = Some v)"
proof
  assume "renderFrom s (oc_ArgvTemplate s) ps = Inr argv"
  then have fl: "list_all2 (fills ps) (oc_ArgvTemplate s) argv" by (simp only: renderFrom_iff)
  from match_elems_one [OF this assms] list_all2_lengthD [OF fl] assms
  show "\<exists>v p. MatchTemplate s argv = Some (v, p) \<and> ps p = Some v" by (auto simp: MatchTemplate_def)
next
  assume "\<exists>v p. MatchTemplate s argv = Some (v, p) \<and> ps p = Some v"
  then obtain v p where "match_elems (oc_ArgvTemplate s) argv None = Some (v, p)" "ps p = Some v"
      "length argv = length (oc_ArgvTemplate s)"
    by (auto simp: MatchTemplate_def split: if_splits)
  then show "renderFrom s (oc_ArgvTemplate s) ps = Inr argv"
    by (simp only: renderFrom_iff) (rule match_elems_fills)
qed

theorem match_inverts_render_witness:
  "renderFrom demo_spec (oc_ArgvTemplate demo_spec) [''unit'' \<mapsto> ''nginx''] = Inr [''systemctl'', ''restart'', ''nginx'']
   \<and> (\<exists>v p. MatchTemplate demo_spec [''systemctl'', ''restart'', ''nginx''] = Some (v, p) \<and> [''unit'' \<mapsto> ''nginx''] p = Some v)"
proof -
  have one: "length (filter (\<lambda>el. slot_name el \<noteq> None) (oc_ArgvTemplate demo_spec)) = 1" by code_simp
  have "renderFrom demo_spec (oc_ArgvTemplate demo_spec) [''unit'' \<mapsto> ''nginx''] = Inr [''systemctl'', ''restart'', ''nginx'']"
    by code_simp
  then show ?thesis using match_inverts_render [OF one] by blast
qed

text \<open>
  C16. The runtime overlay is trusted only as far as it is attested. Every class it ends up holding comes from
  an entry whose hash matches its content and whose declaration validates, and none has the name of an
  embedded class; so a lookup of an embedded class never sees the overlay. Every entry is either taken or
  counted as rejected.
\<close>

theorem overlay_trusted:
  assumes "SetOverlay hashOf reg es = (snap, rej)"
  shows "(\<forall>k spec. snap k = Some spec \<longrightarrow> attested hashOf reg es k spec)
    \<and> dom snap \<inter> dom reg = {}
    \<and> card (dom snap) + length rej = length es
    \<and> (\<forall>opClass. reg (norm_key opClass) \<noteq> None \<longrightarrow> Lookup reg snap opClass = reg (norm_key opClass))"
proof -
  have "fold (overlay_add hashOf reg) es (Map.empty, []) = (snap, rej)" using assms by (simp add: SetOverlay_def)
  from overlay_fold [OF this, of "[]"]
  have a: "\<forall>k spec. snap k = Some spec \<longrightarrow> attested hashOf reg es k spec" and c: "card (dom snap) + length rej = length es"
    by auto
  from a have "dom snap \<inter> dom reg = {}" by (auto simp: attested_def)
  with a c show ?thesis by (auto simp: Lookup_def)
qed

theorem overlay_trusted_witness:
  "\<exists>snap rej. SetOverlay (\<lambda>_. Some ''ab'') Map.empty [\<lparr>ov_Spec = demo_spec, ov_Hash = ''AB ''\<rparr>, \<lparr>ov_Spec = demo_spec, ov_Hash = ''cd''\<rparr>]
      = (snap, rej) \<and> card (dom snap) = 1 \<and> length rej = 1
    \<and> attested (\<lambda>_. Some ''ab'') Map.empty [\<lparr>ov_Spec = demo_spec, ov_Hash = ''AB ''\<rparr>, \<lparr>ov_Spec = demo_spec, ov_Hash = ''cd''\<rparr>]
         ''restart-service'' demo_spec"
proof -
  let ?es = "[\<lparr>ov_Spec = demo_spec, ov_Hash = ''AB ''\<rparr>, \<lparr>ov_Spec = demo_spec, ov_Hash = ''cd''\<rparr>]"
  let ?snap = "[''restart-service'' \<mapsto> demo_spec]"
  have key: "norm_key (oc_OpClass demo_spec) = ''restart-service''" by code_simp
  have v: "ValidateSpec demo_spec False = Inr demo_spec" by code_simp
  have h: "equal_fold (trim_space ''AB '') ''ab''" "\<not> equal_fold (trim_space ''cd'') ''ab''" by code_simp+
  have s: "SetOverlay (\<lambda>_. Some ''ab'') Map.empty ?es = (?snap, [HashMismatch (oc_OpClass demo_spec)])"
    by (simp add: SetOverlay_def overlay_add_def key v h CanonicalHash_def)
  show ?thesis using overlay_trusted [OF s] s by fastforce
qed

text \<open>
  The validator of runtime declarations accepts a class that promises a self-revert through another class
  which nothing declares; building the embedded registry from the same declaration is refused.
\<close>

theorem overlay_accepts_dangling_inverse:
  "let s = demo_spec\<lparr>oc_CommitConfirmed := Some 600, oc_RollbackOpClass := ''no-such-class''\<rparr> in
   ValidateRatification Map.empty s [] = Inr s
   \<and> fst (SetOverlay (\<lambda>_. Some ''ab'') Map.empty [\<lparr>ov_Spec = s, ov_Hash = ''ab''\<rparr>]) = [''restart-service'' \<mapsto> s]
   \<and> Lookup Map.empty [''restart-service'' \<mapsto> s] (oc_RollbackOpClass s) = None
   \<and> mustBuildRegistry True [s] = Inl (UnresolvedInverse ''restart-service'' ''no-such-class'')"
proof -
  let ?s = "demo_spec\<lparr>oc_CommitConfirmed := Some 600, oc_RollbackOpClass := ''no-such-class''\<rparr>"
  have key: "norm_key (oc_OpClass demo_spec) = ''restart-service''" by code_simp
  have v: "ValidateSpec ?s False = Inr ?s" by code_simp
  have h: "equal_fold (trim_space ''ab'') ''ab''" by code_simp
  have s: "fst (SetOverlay (\<lambda>_. Some ''ab'') Map.empty [\<lparr>ov_Spec = ?s, ov_Hash = ''ab''\<rparr>]) = [''restart-service'' \<mapsto> ?s]"
    by (simp add: SetOverlay_def overlay_add_def Let_def key v h CanonicalHash_def)
  have r: "ValidateRatification Map.empty ?s [] = Inr ?s" by code_simp
  have l: "Lookup Map.empty [''restart-service'' \<mapsto> ?s] (oc_RollbackOpClass ?s) = None" by code_simp
  have "case mustBuildRegistry True [?s] of Inl e \<Rightarrow> e = UnresolvedInverse ''restart-service'' ''no-such-class'' | Inr _ \<Rightarrow> False"
    by code_simp
  then have m: "mustBuildRegistry True [?s] = Inl (UnresolvedInverse ''restart-service'' ''no-such-class'')"
    by (simp split: sum.splits)
  show ?thesis using r s l m by (simp only: Let_def simp_thms)
qed

end
