(* ===== verification/TG_Json.thy ===== *)
theory TG_Json
  imports TG_Prelude
begin

text \<open>
  Go's \<^verbatim>\<open>unicode/utf8\<close> and the string encoder of \<^verbatim>\<open>encoding/json\<close> at the level of bytes: which byte
  strings are valid UTF-8, how a string is escaped, and that escaping loses nothing of a valid string.
  The encoder replaces each byte that starts no valid sequence by the escape of U+FFFD, and escapes
  the three HTML characters and the two line separators U+2028 and U+2029.
\<close>

section \<open>Sequences\<close>

definition byte :: "char \<Rightarrow> nat" where
  "byte c = of_char c"

definition cont_byte :: "nat \<Rightarrow> bool" where
  "cont_byte b \<longleftrightarrow> 128 \<le> b \<and> b \<le> 191"

text \<open>
  The second byte of a three or four byte sequence has a narrower range after some first bytes: no
  overlong forms, no surrogates, nothing above U+10FFFF.
\<close>

definition second_ok :: "nat \<Rightarrow> nat \<Rightarrow> bool" where
  "second_ok b0 b1 \<longleftrightarrow>
     (if b0 = 224 then 160 \<le> b1 \<and> b1 \<le> 191
      else if b0 = 237 then 128 \<le> b1 \<and> b1 \<le> 159
      else if b0 = 240 then 144 \<le> b1 \<and> b1 \<le> 191
      else if b0 = 244 then 128 \<le> b1 \<and> b1 \<le> 143
      else cont_byte b1)"

text \<open>The length of the sequence a string starts with, or 0 when it starts with none.\<close>

definition rune_len :: "string \<Rightarrow> nat" where
  "rune_len s =
     (case map byte s of
        [] \<Rightarrow> 0
      | b0 # bs \<Rightarrow>
          if b0 < 128 then 1
          else if 194 \<le> b0 \<and> b0 \<le> 223 then (case bs of b1 # _ \<Rightarrow> if cont_byte b1 then 2 else 0 | _ \<Rightarrow> 0)
          else if 224 \<le> b0 \<and> b0 \<le> 239 then
            (case bs of b1 # b2 # _ \<Rightarrow> if second_ok b0 b1 \<and> cont_byte b2 then 3 else 0 | _ \<Rightarrow> 0)
          else if 240 \<le> b0 \<and> b0 \<le> 244 then
            (case bs of b1 # b2 # b3 # _ \<Rightarrow> if second_ok b0 b1 \<and> cont_byte b2 \<and> cont_byte b3 then 4 else 0 | _ \<Rightarrow> 0)
          else 0)"

fun valid_utf8 :: "string \<Rightarrow> bool" where
  "valid_utf8 [] \<longleftrightarrow> True"
| "valid_utf8 (c # s) \<longleftrightarrow> (let n = rune_len (c # s) in if n = 0 then False else valid_utf8 (drop n (c # s)))"

declare valid_utf8.simps(2) [simp del]

section \<open>Encoding a string\<close>

definition hex_digit :: "nat \<Rightarrow> char" where
  "hex_digit n = (if n < 10 then char_of (48 + n) else char_of (87 + n))"

definition ascii_escape :: "char \<Rightarrow> string" where
  "ascii_escape c =
     (let n = byte c in
      if c = dquote \<or> c = backslash then [backslash, c]
      else if n = 8 then [backslash, CHR ''b'']
      else if n = 12 then [backslash, CHR ''f'']
      else if n = 10 then [backslash, CHR ''n'']
      else if n = 13 then [backslash, CHR ''r'']
      else if n = 9 then [backslash, CHR ''t'']
      else if n < 32 \<or> c \<in> {CHR ''<'', CHR ''>'', CHR ''&''}
        then backslash # ''u00'' @ [hex_digit (n div 16), hex_digit (n mod 16)]
      else [c])"

definition line_separator :: "string \<Rightarrow> bool" where
  "line_separator s \<longleftrightarrow> take 3 s = [CHR 0xE2, CHR 0x80, CHR 0xA8] \<or> take 3 s = [CHR 0xE2, CHR 0x80, CHR 0xA9]"

fun json_body :: "string \<Rightarrow> string" where
  "json_body [] = []"
| "json_body (c # s) =
     (if byte c < 128 then ascii_escape c @ json_body s
      else let n = rune_len (c # s) in
      if n = 0 then backslash # ''ufffd'' @ json_body s
      else if line_separator (c # s)
        then backslash # ''u202'' @ [if byte (s ! 1) = 168 then CHR ''8'' else CHR ''9''] @ json_body (drop n (c # s))
      else take n (c # s) @ json_body (drop n (c # s)))"

declare json_body.simps(2) [simp del]

definition json_str :: "string \<Rightarrow> string" where
  "json_str s = dquote # json_body s @ [dquote]"

section \<open>Decoding it\<close>

definition unhex :: "char \<Rightarrow> nat" where
  "unhex c = (let n = byte c in if n < 58 then n - 48 else n - 87)"

definition unescape_char :: "char \<Rightarrow> char" where
  "unescape_char e =
     (if e = CHR ''b'' then char_of (8 :: nat) else if e = CHR ''f'' then char_of (12 :: nat)
      else if e = CHR ''n'' then char_of (10 :: nat) else if e = CHR ''r'' then char_of (13 :: nat)
      else if e = CHR ''t'' then char_of (9 :: nat) else e)"

definition push :: "string \<Rightarrow> (string \<times> string) option \<Rightarrow> (string \<times> string) option" where
  "push p r = map_option (\<lambda>(s, t). (p @ s, t)) r"

text \<open>The string up to the closing quote, and what follows it.\<close>

fun unstr :: "string \<Rightarrow> (string \<times> string) option" where
  "unstr [] = None"
| "unstr (c # r) =
     (if c = dquote then Some ([], r)
      else if c = backslash then
        (case r of
           [] \<Rightarrow> None
         | e # r1 \<Rightarrow>
             if e \<noteq> CHR ''u'' then push [unescape_char e] (unstr r1)
             else (case r1 of
                     a # b # x # y # r2 \<Rightarrow>
                       if b = CHR ''0'' \<and> a = CHR ''0'' then push [char_of (16 * unhex x + unhex y)] (unstr r2)
                       else push [CHR 0xE2, CHR 0x80, char_of (160 + unhex y)] (unstr r2)
                   | _ \<Rightarrow> None))
      else push [c] (unstr r))"

declare unstr.simps(2) [simp del]

lemma byte_eq_iff [simp]: "byte c = byte d \<longleftrightarrow> c = d"
  by (simp add: byte_def)

lemma byte_less [simp]: "byte c < 256"
  using of_char_mod_256 [of c] by (simp add: byte_def)

lemma char_of_byte [simp]: "char_of (byte c) = c"
  by (simp add: byte_def)

lemma byte_dquote [simp]: "byte dquote = 34" "byte backslash = 92"
  by (simp_all add: byte_def dquote_def backslash_def)

lemma push_push [simp]: "push p (push q r) = push (p @ q) r"
  by (cases r) (auto simp: push_def)

lemma push_Nil [simp]: "push [] r = r"
  by (cases r) (auto simp: push_def)

lemma unhex_hex_digit [simp]: "n < 16 \<Longrightarrow> unhex (hex_digit n) = n"
  by (auto simp: unhex_def hex_digit_def byte_def Let_def)

lemma unstr_plain:
  assumes "c \<noteq> dquote" and "c \<noteq> backslash"
  shows "unstr (c # r) = push [c] (unstr r)"
  using assms by (simp add: unstr.simps)

lemma unstr_high:
  assumes "\<forall>c \<in> set xs. 128 \<le> byte c"
  shows "unstr (xs @ r) = push xs (unstr r)"
  using assms
proof (induction xs)
  case (Cons c xs)
  then have "c \<noteq> dquote" "c \<noteq> backslash" by auto
  with Cons show ?case by (simp add: unstr_plain)
qed simp

lemma unstr_escape: "unstr (backslash # e # r) = push [unescape_char e] (unstr r)" if "e \<noteq> CHR ''u''"
  using that by (subst unstr.simps) (auto simp: dquote_def backslash_def)

lemma unstr_u00: "unstr (backslash # CHR ''u'' # CHR ''0'' # CHR ''0'' # x # y # r) = push [char_of (16 * unhex x + unhex y)] (unstr r)"
  by (subst unstr.simps) (auto simp: dquote_def backslash_def)

lemma unstr_u202:
  "unstr (backslash # CHR ''u'' # CHR ''2'' # CHR ''0'' # CHR ''2'' # y # r) = push [CHR 0xE2, CHR 0x80, char_of (160 + unhex y)] (unstr r)"
  by (subst unstr.simps) (auto simp: dquote_def backslash_def)

lemma unescape_char_simps [simp]:
  "unescape_char dquote = dquote" "unescape_char backslash = backslash"
  "unescape_char (CHR ''b'') = char_of (8 :: nat)" "unescape_char (CHR ''f'') = char_of (12 :: nat)"
  "unescape_char (CHR ''n'') = char_of (10 :: nat)" "unescape_char (CHR ''r'') = char_of (13 :: nat)"
  "unescape_char (CHR ''t'') = char_of (9 :: nat)"
  by (simp_all add: unescape_char_def dquote_def backslash_def)

lemma unstr_ascii: "unstr (ascii_escape c @ r) = push [c] (unstr r)"
proof -
  have c: "byte c = n \<Longrightarrow> char_of n = c" for n by auto
  have q: "dquote \<noteq> CHR ''u''" "backslash \<noteq> CHR ''u''" by (simp_all add: dquote_def backslash_def)
  have h: "char_of (16 * (byte c div 16) + byte c mod 16) = c" by simp
  have d: "byte c div 16 < 16" using byte_less [of c] by linarith
  show ?thesis
    by (auto simp: ascii_escape_def Let_def unstr_escape unstr_plain unstr_u00 q c h d)
qed

lemma high_bytes: "cont_byte b \<Longrightarrow> 128 \<le> b" "second_ok a b \<Longrightarrow> 128 \<le> b"
  by (auto simp: cont_byte_def second_ok_def split: if_splits)

lemma rune_len_high:
  assumes "128 \<le> byte c" and "x \<in> set (take (rune_len (c # s)) (c # s))"
  shows "128 \<le> byte x"
proof (cases s)
  case Nil
  with assms show ?thesis by (auto simp: rune_len_def split: if_split_asm)
next
  case s: (Cons y s1)
  show ?thesis
  proof (cases s1)
    case Nil
    with assms s show ?thesis by (auto simp: rune_len_def dest: high_bytes split: if_split_asm)
  next
    case s1: (Cons z s2)
    show ?thesis using assms s s1
      by (cases s2) (auto simp: rune_len_def dest: high_bytes split: if_split_asm)
  qed
qed

lemma separator_split:
  assumes "line_separator (c # s)" and "rune_len (c # s) \<noteq> 0"
  shows "rune_len (c # s) = 3"
    and "c # s = [CHR 0xE2, CHR 0x80, char_of (160 + unhex (if byte (s ! 1) = 168 then CHR ''8'' else CHR ''9''))] @ drop 3 (c # s)"
proof -
  from assms(1) obtain y r where s: "s = CHR 0x80 # y # r" "c = CHR 0xE2" "y = CHR 0xA8 \<or> y = CHR 0xA9"
    by (auto simp: line_separator_def numeral_3_eq_3 take_Suc_Cons split: list.splits)
       (metis append_Cons append_take_drop_id take_Suc_Cons)+
  show "rune_len (c # s) = 3" using assms(2) s by (auto simp: rune_len_def byte_def split: if_splits)
  show "c # s = [CHR 0xE2, CHR 0x80, char_of (160 + unhex (if byte (s ! 1) = 168 then CHR ''8'' else CHR ''9''))] @ drop 3 (c # s)"
    using s char_of_char [of "CHR 0xA8", where 'a = nat] char_of_char [of "CHR 0xA9", where 'a = nat]
    by (auto simp: byte_def unhex_def)
qed

lemma unstr_json:
  assumes "valid_utf8 s"
  shows "unstr (json_body s @ dquote # r) = Some (s, r)"
  using assms
proof (induction s rule: json_body.induct)
  case 1
  then show ?case by (simp add: unstr.simps)
next
  case (2 c s)
  show ?case
  proof (cases "byte c < 128")
    case True
    then have "valid_utf8 s" using 2(5) by (simp add: valid_utf8.simps rune_len_def)
    with True 2(1) show ?thesis by (simp add: json_body.simps unstr_ascii push_def)
  next
    case False
    define n where "n = rune_len (c # s)"
    have n: "n \<noteq> 0" "valid_utf8 (drop n (c # s))" using 2(5) by (simp_all add: n_def valid_utf8.simps Let_def split: if_splits)
    show ?thesis
    proof (cases "line_separator (c # s)")
      case True
      have t: "n = 3" using separator_split(1) [OF True] n(1) by (simp add: n_def)
      have ih: "unstr (json_body (drop 3 (c # s)) @ dquote # r) = Some (drop 3 (c # s), r)"
        using 2(3) [OF False refl] n True t by (simp add: n_def)
      have "unstr (json_body (c # s) @ dquote # r)
          = push [CHR 0xE2, CHR 0x80, char_of (160 + unhex (if byte (s ! 1) = 168 then CHR ''8'' else CHR ''9''))] (Some (drop 3 (c # s), r))"
        using False True t n_def ih by (subst json_body.simps) (simp add: Let_def unstr_u202)
      then show ?thesis using separator_split(2) [OF True] n(1) n_def by (simp add: push_def)
    next
      case sep: False
      have ih: "unstr (json_body (drop n (c # s)) @ dquote # r) = Some (drop n (c # s), r)"
        using 2(4) [OF False refl] n sep by (simp add: n_def)
      have "\<forall>x \<in> set (take n (c # s)). 128 \<le> byte x" using rune_len_high [of c _ s] False n_def by (simp only: linorder_not_less) blast
      then have "unstr (json_body (c # s) @ dquote # r) = push (take n (c # s)) (Some (drop n (c # s), r))"
        using False sep n ih unfolding n_def by (subst json_body.simps) (simp add: Let_def unstr_high)
      then show ?thesis by (simp add: push_def)
    qed
  qed
qed

text \<open>The encoding of a valid string is prefix-free, which makes every document built of such strings readable.\<close>

lemma json_str_inj:
  assumes "json_str s @ r = json_str t @ u" and "valid_utf8 s" and "valid_utf8 t"
  shows "s = t \<and> r = u"
proof -
  have "json_body s @ dquote # r = json_body t @ dquote # u" using assms(1) by (simp add: json_str_def)
  then have "Some (s, r) = Some (t, u)" using unstr_json [OF assms(2)] unstr_json [OF assms(3)] by metis
  then show ?thesis by simp
qed

end
