(* ===== verification/Manifest.thy ===== *)
theory Manifest
  imports Safety TG_Json
begin

text \<open>
  The action manifest, \<^verbatim>\<open>core/manifest/manifest.go\<close>: the canonical encoding of an action, its
  content-hashed id, sealing, re-assertion and the lifecycle stages recorded against that id.

  \<open>H\<close> is the hex digest of SHA-256, a parameter of which nothing is assumed. A parameter map is an
  association list with distinct keys in any order (Go visits a map in no fixed order), and \<^term>\<open>None\<close> is the
  nil map, which encodes differently from the empty one. A stage payload is given by its JSON encoding, or
  \<^term>\<open>None\<close> where marshalling fails.
\<close>

section \<open>Actions\<close>

record Action =
  ac_Target :: string
  ac_OpClass :: string
  ac_Op :: string
  ac_Params :: "(string \<times> string) list option"
  ac_Reversible :: bool

definition params_list :: "Action \<Rightarrow> (string \<times> string) list" where
  "params_list a = (case ac_Params a of None \<Rightarrow> [] | Some ps \<Rightarrow> ps)"

definition json_field :: "string \<Rightarrow> string \<Rightarrow> string" where
  "json_field k v = json_str k @ '':'' @ v"

definition json_entry :: "string \<times> string \<Rightarrow> string" where
  "json_entry e = json_field (fst e) (json_str (snd e))"

definition json_params :: "(string \<times> string) list option \<Rightarrow> string" where
  "json_params p =
     (case p of None \<Rightarrow> ''null'' | Some ps \<Rightarrow> ''{'' @ join '','' (map json_entry (sort_key fst ps)) @ ''}'')"

definition canonicalJSON :: "Action \<Rightarrow> string" where
  "canonicalJSON a =
     ''{'' @ join '',''
       [json_field ''target'' (json_str (ac_Target a)), json_field ''op_class'' (json_str (ac_OpClass a)),
        json_field ''op'' (json_str (ac_Op a)), json_field ''params'' (json_params (ac_Params a)),
        json_field ''reversible'' (btoa (ac_Reversible a))] @ ''}''"

definition canonicalUTF8 :: "Action \<Rightarrow> bool" where
  "canonicalUTF8 a \<longleftrightarrow>
     valid_utf8 (ac_Target a) \<and> valid_utf8 (ac_OpClass a) \<and> valid_utf8 (ac_Op a)
     \<and> list_all (\<lambda>(k, v). valid_utf8 k \<and> valid_utf8 v) (params_list a)"

datatype manifest_error =
    ErrNonCanonicalAction
  | Tampered
  | UnsealedManifest
  | ActionIDMismatch
  | UnknownStage string
  | StageNotAfter string string
  | PayloadUnhashable
  | StageForeign nat
  | StageUnknown nat
  | StageOutOfOrder nat

definition ID :: "(string \<Rightarrow> string) \<Rightarrow> Action \<Rightarrow> manifest_error + string" where
  "ID H a = (if \<not> canonicalUTF8 a then Inl ErrNonCanonicalAction else Inr (H (canonicalJSON a)))"

definition SafetyParts :: "Action \<Rightarrow> string list" where
  "SafetyParts a =
     [ac_Target a, ac_Op a, ac_OpClass a] @ concat (map (\<lambda>(k, v). [k, v]) (sort_key fst (params_list a)))"

section \<open>Manifests\<close>

record Provenance =
  pv_IncidentRef :: string
  pv_ContextSnapshotID :: string
  pv_ModelRef :: string
  pv_PromptHash :: string

definition no_provenance :: Provenance where
  "no_provenance = \<lparr>pv_IncidentRef = [], pv_ContextSnapshotID = [], pv_ModelRef = [], pv_PromptHash = []\<rparr>"

definition StagePredicted :: string where [tg_consts]: "StagePredicted = ''predicted''"
definition StageApproved :: string where [tg_consts]: "StageApproved = ''approved''"
definition StageExecuted :: string where [tg_consts]: "StageExecuted = ''executed''"
definition StageVerified :: string where [tg_consts]: "StageVerified = ''verified''"

definition stageOrder :: "string \<Rightarrow> nat option" where
  "stageOrder s =
     (if s = StagePredicted then Some 0 else if s = StageApproved then Some 1
      else if s = StageExecuted then Some 2 else if s = StageVerified then Some 3 else None)"

record Stage =
  sg_Stage :: string
  sg_ActionID :: string
  sg_PayloadHash :: string
  sg_Seq :: nat

record ActionManifest =
  am_ActionID :: string
  am_Action :: Action
  am_Band :: band
  am_PlanHash :: string
  am_PredictionHash :: string
  am_Provenance :: Provenance
  am_Stages :: "Stage list"
  am_ApprovalChoice :: string
  am_Verdict :: "verdict option"
  am_PreconditionObservation :: string
  am_sealed :: bool

text \<open>The only option records the observation that satisfied a precondition; options apply in order.\<close>

definition WithPreconditionObservation :: "string \<Rightarrow> ActionManifest \<Rightarrow> ActionManifest" where
  "WithPreconditionObservation obs m = m\<lparr>am_PreconditionObservation := obs\<rparr>"

definition seal :: "string \<Rightarrow> Action \<Rightarrow> band \<Rightarrow> string \<Rightarrow> string \<Rightarrow> ActionManifest" where
  "seal i a b planHash predictionHash =
     \<lparr>am_ActionID = i, am_Action = a, am_Band = b, am_PlanHash = planHash, am_PredictionHash = predictionHash,
      am_Provenance = no_provenance, am_Stages = [], am_ApprovalChoice = [], am_Verdict = None,
      am_PreconditionObservation = [], am_sealed = True\<rparr>"

definition New_manifest ::
    "(string \<Rightarrow> string) \<Rightarrow> Action \<Rightarrow> band \<Rightarrow> string \<Rightarrow> string \<Rightarrow> string list \<Rightarrow> manifest_error + ActionManifest" where
  "New_manifest H a b planHash predictionHash observations =
     (case ID H a of
        Inl e \<Rightarrow> Inl e
      | Inr i \<Rightarrow> Inr (fold WithPreconditionObservation observations (seal i a b planHash predictionHash)))"

definition Rehydrate ::
    "(string \<Rightarrow> string) \<Rightarrow> string \<Rightarrow> Action \<Rightarrow> band \<Rightarrow> string \<Rightarrow> string \<Rightarrow> string list \<Rightarrow> manifest_error + ActionManifest" where
  "Rehydrate H actionID a b planHash predictionHash observations =
     (case ID H a of
        Inl e \<Rightarrow> Inl e
      | Inr derived \<Rightarrow>
          if derived \<noteq> actionID then Inl Tampered
          else Inr (fold WithPreconditionObservation observations (seal actionID a b planHash predictionHash)))"

definition Assert :: "(string \<Rightarrow> string) \<Rightarrow> ActionManifest \<Rightarrow> string \<Rightarrow> manifest_error option" where
  "Assert H m expectedActionID =
     (if \<not> am_sealed m then Some UnsealedManifest
      else case ID H (am_Action m) of
        Inl e \<Rightarrow> Some e
      | Inr derived \<Rightarrow>
          if derived \<noteq> am_ActionID m then Some Tampered
          else if expectedActionID \<noteq> [] \<and> expectedActionID \<noteq> am_ActionID m then Some ActionIDMismatch
          else None)"

definition WithProvenance :: "ActionManifest \<Rightarrow> Provenance \<Rightarrow> ActionManifest" where
  "WithProvenance m p = (if am_Stages m = [] then m\<lparr>am_Provenance := p\<rparr> else m)"

definition payloadHash :: "(string \<Rightarrow> string) \<Rightarrow> string option \<Rightarrow> manifest_error + string" where
  "payloadHash H payload = (case payload of None \<Rightarrow> Inl PayloadUnhashable | Some b \<Rightarrow> Inr (H b))"

text \<open>A missing key of a Go map reads as its zero value.\<close>

definition order_or_zero :: "string \<Rightarrow> nat" where
  "order_or_zero s = (case stageOrder s of None \<Rightarrow> 0 | Some n \<Rightarrow> n)"

definition Record_stage :: "(string \<Rightarrow> string) \<Rightarrow> ActionManifest \<Rightarrow> string \<Rightarrow> string option \<Rightarrow> manifest_error option \<times> ActionManifest" where
  "Record_stage H m stage payload =
     (if \<not> am_sealed m then (Some UnsealedManifest, m)
      else if stageOrder stage = None then (Some (UnknownStage stage), m)
      else if am_Stages m \<noteq> [] \<and> order_or_zero stage \<le> order_or_zero (sg_Stage (last (am_Stages m)))
        then (Some (StageNotAfter stage (sg_Stage (last (am_Stages m)))), m)
      else case payloadHash H payload of
        Inl e \<Rightarrow> (Some e, m)
      | Inr ph \<Rightarrow>
          (None, m\<lparr>am_Stages := am_Stages m @
             [\<lparr>sg_Stage = stage, sg_ActionID = am_ActionID m, sg_PayloadHash = ph, sg_Seq = length (am_Stages m)\<rparr>]\<rparr>))"

text \<open>The loop of \<^verbatim>\<open>VerifyChain\<close>, with its index and the order of the stage before.\<close>

fun verify_stages :: "string \<Rightarrow> nat \<Rightarrow> int \<Rightarrow> Stage list \<Rightarrow> manifest_error option" where
  "verify_stages actionID i prev [] = None"
| "verify_stages actionID i prev (s # ss) =
     (if sg_ActionID s \<noteq> actionID then Some (StageForeign i)
      else case stageOrder (sg_Stage s) of
        None \<Rightarrow> Some (StageUnknown i)
      | Some k \<Rightarrow> if int k \<le> prev then Some (StageOutOfOrder i) else verify_stages actionID (Suc i) (int k) ss)"

definition VerifyStages :: "(string \<Rightarrow> string) \<Rightarrow> ActionManifest \<Rightarrow> manifest_error option" where
  "VerifyStages H m =
     (case Assert H m [] of Some e \<Rightarrow> Some e | None \<Rightarrow> verify_stages (am_ActionID m) 0 (-1) (am_Stages m))"

section \<open>The encoding is injective\<close>

text \<open>Two actions are the same operation when every field agrees and the parameter maps are equal as maps.\<close>

definition same_action :: "Action \<Rightarrow> Action \<Rightarrow> bool" where
  "same_action a b \<longleftrightarrow>
     ac_Target a = ac_Target b \<and> ac_OpClass a = ac_OpClass b \<and> ac_Op a = ac_Op b \<and> ac_Reversible a = ac_Reversible b
     \<and> (ac_Params a = None \<longleftrightarrow> ac_Params b = None) \<and> map_of (params_list a) = map_of (params_list b)"

definition go_map :: "Action \<Rightarrow> bool" where
  "go_map a \<longleftrightarrow> distinct (map fst (params_list a))"

lemma join_Cons: "join sep (x # xs) = x @ concat (map (\<lambda>y. sep @ y) xs)"
  by (induction xs arbitrary: x) auto

definition text_entry :: "string \<times> string \<Rightarrow> bool" where
  "text_entry e \<longleftrightarrow> valid_utf8 (fst e) \<and> valid_utf8 (snd e)"

lemma json_entry_inj:
  assumes "json_entry e @ r = json_entry f @ u" and "text_entry e" and "text_entry f"
  shows "e = f \<and> r = u"
proof -
  have "json_str (fst e) @ CHR '':'' # json_str (snd e) @ r = json_str (fst f) @ CHR '':'' # json_str (snd f) @ u"
    using assms(1) by (simp add: json_entry_def json_field_def)
  from json_str_inj [OF this] assms(2,3) have "fst e = fst f" and t: "json_str (snd e) @ r = json_str (snd f) @ u"
    by (auto simp: text_entry_def)
  moreover from json_str_inj [OF t] assms(2,3) have "snd e = snd f" "r = u" by (auto simp: text_entry_def)
  ultimately show ?thesis by (simp add: prod_eq_iff)
qed

lemma json_entries_inj:
  assumes "concat (map (\<lambda>e. CHR '','' # json_entry e) ps) @ CHR ''}'' # r
      = concat (map (\<lambda>e. CHR '','' # json_entry e) qs) @ CHR ''}'' # u"
    and "list_all text_entry ps" and "list_all text_entry qs"
  shows "ps = qs \<and> r = u"
  using assms
proof (induction ps arbitrary: qs)
  case Nil
  then show ?case by (cases qs) auto
next
  case (Cons e ps)
  show ?case
  proof (cases qs)
    case Nil
    with Cons.prems show ?thesis by simp
  next
    case q: (Cons f qs1)
    with Cons.prems json_entry_inj [of e "concat (map (\<lambda>e. CHR '','' # json_entry e) ps) @ CHR ''}'' # r" f]
    have "e = f" and "concat (map (\<lambda>e. CHR '','' # json_entry e) ps) @ CHR ''}'' # r
        = concat (map (\<lambda>e. CHR '','' # json_entry e) qs1) @ CHR ''}'' # u"
      by auto
    with Cons.IH [of qs1] Cons.prems q show ?thesis by simp
  qed
qed

lemma json_object_inj:
  assumes "join '','' (map json_entry ps) @ CHR ''}'' # r = join '','' (map json_entry qs) @ CHR ''}'' # u"
    and "list_all text_entry ps" and "list_all text_entry qs"
  shows "ps = qs \<and> r = u"
proof -
  have hd: "\<exists>t. json_entry e = dquote # t" for e by (simp add: json_entry_def json_field_def json_str_def)
  have j: "CHR '','' # join '','' (map json_entry (x # xs)) = concat (map (\<lambda>e. CHR '','' # json_entry e) (x # xs))" for x xs
    by (simp add: join_Cons comp_def del: join.simps)
  have ne: "join '','' (map json_entry (x # xs)) @ v \<noteq> CHR ''}'' # w" for x xs v w
    using hd [of x] by (auto simp: join_Cons dquote_def simp del: join.simps)
  show ?thesis
  proof (cases ps)
    case Nil
    have "qs = []"
    proof (rule ccontr)
      assume "qs \<noteq> []"
      then obtain f qs1 where "qs = f # qs1" by (auto simp: neq_Nil_conv)
      then show False using assms(1) Nil ne [of f qs1 "CHR ''}'' # u" r] by simp
    qed
    with assms(1) Nil show ?thesis by simp
  next
    case p: (Cons e ps1)
    show ?thesis
    proof (cases qs)
      case Nil
      then show ?thesis using assms(1) ne [of e ps1] p by (simp del: join.simps(2,3) list.map(2))
    next
      case q: (Cons f qs1)
      have "concat (map (\<lambda>e. CHR '','' # json_entry e) ps) @ CHR ''}'' # r
          = concat (map (\<lambda>e. CHR '','' # json_entry e) qs) @ CHR ''}'' # u"
        using assms(1) j [of e ps1] j [of f qs1] p q by (metis append_Cons)
      then show ?thesis using json_entries_inj assms(2,3) by blast
    qed
  qed
qed

lemma json_params_inj:
  assumes "json_params p @ CHR '','' # r = json_params q @ CHR '','' # u"
    and "\<And>ps. p = Some ps \<Longrightarrow> list_all text_entry ps" and "\<And>qs. q = Some qs \<Longrightarrow> list_all text_entry qs"
  shows "map_option (sort_key fst) p = map_option (sort_key fst) q \<and> r = u"
proof (cases p; cases q)
  fix ps qs
  assume pq: "p = Some ps" "q = Some qs"
  have "list_all text_entry (sort_key fst ps)" "list_all text_entry (sort_key fst qs)"
    using assms(2,3) pq by (simp_all add: list_all_iff)
  moreover have "join '','' (map json_entry (sort_key fst ps)) @ CHR ''}'' # CHR '','' # r
      = join '','' (map json_entry (sort_key fst qs)) @ CHR ''}'' # CHR '','' # u"
    using assms(1) pq by (simp add: json_params_def)
  ultimately show ?thesis using json_object_inj pq by fastforce
qed (use assms(1) in \<open>auto simp: json_params_def\<close>)

lemma canonicalUTF8_params: "canonicalUTF8 a \<Longrightarrow> ac_Params a = Some ps \<Longrightarrow> list_all text_entry ps"
  by (auto simp: canonicalUTF8_def params_list_def text_entry_def list_all_iff)

lemma canonicalJSON_inj:
  assumes "canonicalJSON a = canonicalJSON b" and "canonicalUTF8 a" and "canonicalUTF8 b"
  shows "ac_Target a = ac_Target b \<and> ac_OpClass a = ac_OpClass b \<and> ac_Op a = ac_Op b
    \<and> map_option (sort_key fst) (ac_Params a) = map_option (sort_key fst) (ac_Params b)
    \<and> ac_Reversible a = ac_Reversible b"
proof -
  have v: "valid_utf8 (ac_Target a)" "valid_utf8 (ac_OpClass a)" "valid_utf8 (ac_Op a)"
    "valid_utf8 (ac_Target b)" "valid_utf8 (ac_OpClass b)" "valid_utf8 (ac_Op b)"
    using assms(2,3) by (simp_all add: canonicalUTF8_def)
  let ?rest = "\<lambda>a. json_str ''reversible'' @ CHR '':'' # btoa (ac_Reversible a) @ ''}''"
  let ?params = "\<lambda>a. json_str ''params'' @ CHR '':'' # json_params (ac_Params a) @ CHR '','' # ?rest a"
  let ?op = "\<lambda>a. json_str ''op'' @ CHR '':'' # json_str (ac_Op a) @ CHR '','' # ?params a"
  let ?opc = "\<lambda>a. json_str ''op_class'' @ CHR '':'' # json_str (ac_OpClass a) @ CHR '','' # ?op a"
  have t: "json_str (ac_Target a) @ CHR '','' # ?opc a = json_str (ac_Target b) @ CHR '','' # ?opc b"
    using assms(1) by (simp add: canonicalJSON_def json_field_def)
  note t1 = json_str_inj [OF t v(1) v(4)]
  then have c: "json_str (ac_OpClass a) @ CHR '','' # ?op a = json_str (ac_OpClass b) @ CHR '','' # ?op b" by simp
  note c1 = json_str_inj [OF c v(2) v(5)]
  then have p: "json_str (ac_Op a) @ CHR '','' # ?params a = json_str (ac_Op b) @ CHR '','' # ?params b" by simp
  note p1 = json_str_inj [OF p v(3) v(6)]
  then have q: "json_params (ac_Params a) @ CHR '','' # ?rest a = json_params (ac_Params b) @ CHR '','' # ?rest b" by simp
  have q1: "map_option (sort_key fst) (ac_Params a) = map_option (sort_key fst) (ac_Params b) \<and> ?rest a = ?rest b"
    by (rule json_params_inj [OF q canonicalUTF8_params [OF assms(2)] canonicalUTF8_params [OF assms(3)]])
  then have "ac_Reversible a = ac_Reversible b" by (auto simp: btoa_def split: if_splits)
  with t1 c1 p1 q1 show ?thesis by blast
qed

lemma sort_key_map_of:
  assumes "distinct (map fst ps)" and "distinct (map fst qs)" and "sort_key fst ps = sort_key fst qs"
  shows "map_of ps = map_of qs"
  using assms by (subst map_of_inject_set) (auto dest: arg_cong [of _ _ set])

lemma sort_key_same_map:
  assumes "distinct (map fst ps)" and "distinct (map fst qs)" and "map_of ps = map_of qs"
  shows "sort_key fst ps = sort_key fst (qs :: ('k::linorder \<times> 'v) list)"
proof (rule map_sorted_distinct_set_unique [where f = fst])
  have s: "set ps = set qs" using assms map_of_inject_set by blast
  show "inj_on fst (set (sort_key fst ps) \<union> set (sort_key fst qs))"
    using assms(1) s by (simp add: distinct_map)
  show "sorted (map fst (sort_key fst ps))" "sorted (map fst (sort_key fst qs))" by simp_all
  show "distinct (map fst (sort_key fst ps))" "distinct (map fst (sort_key fst qs))"
    using assms(1,2) by (simp_all add: distinct_map)
  show "set (sort_key fst ps) = set (sort_key fst qs)" using s by simp
qed

lemma same_action_parts:
  assumes "same_action a b" and "go_map a" and "go_map b"
  shows "SafetyParts a = SafetyParts b \<and> canonicalJSON a = canonicalJSON b \<and> canonicalUTF8 a = canonicalUTF8 b"
proof -
  have k: "sort_key fst (params_list a) = sort_key fst (params_list b)"
    using assms sort_key_same_map by (auto simp: same_action_def go_map_def)
  have s: "set (params_list a) = set (params_list b)" using arg_cong [OF k, of set] by simp
  have "json_params (ac_Params a) = json_params (ac_Params b)"
    using k assms(1) by (cases "ac_Params a"; cases "ac_Params b") (auto simp: json_params_def params_list_def same_action_def)
  with k s assms(1) show ?thesis
    by (auto simp: SafetyParts_def canonicalJSON_def canonicalUTF8_def same_action_def list_all_iff)
qed

lemma same_action_of_json:
  assumes "canonicalJSON a = canonicalJSON b" and "canonicalUTF8 a" and "canonicalUTF8 b" and "go_map a" and "go_map b"
  shows "same_action a b"
proof -
  note e = canonicalJSON_inj [OF assms(1-3)]
  have "sort_key fst (params_list a) = sort_key fst (params_list b)"
    using e by (cases "ac_Params a"; cases "ac_Params b") (auto simp: params_list_def)
  then have "map_of (params_list a) = map_of (params_list b)"
    using sort_key_map_of assms(4,5) by (auto simp: go_map_def)
  moreover have "ac_Params a = None \<longleftrightarrow> ac_Params b = None" using e by auto
  ultimately show ?thesis using e by (simp add: same_action_def)
qed

section \<open>Stages\<close>

definition stage_rank :: "Stage \<Rightarrow> int" where
  "stage_rank s = int (order_or_zero (sg_Stage s))"

definition stage_bound :: "string \<Rightarrow> Stage \<Rightarrow> bool" where
  "stage_bound i s \<longleftrightarrow> sg_ActionID s = i \<and> stageOrder (sg_Stage s) \<noteq> None"

lemma verify_stages_iff:
  "verify_stages aid i prev ss = None \<longleftrightarrow> list_all (stage_bound aid) ss \<and> sorted_wrt (<) (prev # map stage_rank ss)"
proof (induction ss arbitrary: i prev)
  case (Cons s ss)
  show ?case
    by (cases "stageOrder (sg_Stage s)")
       (auto simp: Cons stage_bound_def stage_rank_def order_or_zero_def)
qed simp

lemma stageOrder_less: "order_or_zero s < 4"
  by (simp add: order_or_zero_def stageOrder_def)

lemma stages_at_most_four:
  assumes "sorted_wrt (<) (map stage_rank ss)"
  shows "length ss \<le> 4"
proof -
  have "distinct (map stage_rank ss)" using assms by (simp add: strict_sorted_iff)
  then have "length ss = card (set (map stage_rank ss))" using distinct_card by fastforce
  also have "\<dots> \<le> card {0 ..< 4 :: int}"
    by (rule card_mono) (auto simp: stage_rank_def stageOrder_less)
  finally show ?thesis by simp
qed

text \<open>What every recorded manifest satisfies; the position of a stage is its sequence number.\<close>

definition manifest_ok :: "(string \<Rightarrow> string) \<Rightarrow> ActionManifest \<Rightarrow> bool" where
  "manifest_ok H m \<longleftrightarrow>
     am_sealed m \<and> ID H (am_Action m) = Inr (am_ActionID m)
     \<and> list_all (stage_bound (am_ActionID m)) (am_Stages m) \<and> sorted_wrt (<) (map stage_rank (am_Stages m))
     \<and> map sg_Seq (am_Stages m) = [0 ..< length (am_Stages m)]"

inductive lifecycle :: "(string \<Rightarrow> string) \<Rightarrow> ActionManifest \<Rightarrow> ActionManifest \<Rightarrow> bool" for H where
  stage_recorded: "lifecycle H m (snd (Record_stage H m stage payload))"
| provenance_bound: "lifecycle H m (WithProvenance m p)"

lemma fold_observations:
  "\<exists>obs. fold WithPreconditionObservation os m = m\<lparr>am_PreconditionObservation := obs\<rparr>"
proof (induction os arbitrary: m)
  case Nil
  show ?case by (rule exI [of _ "am_PreconditionObservation m"]) simp
next
  case (Cons x xs)
  from Cons.IH [of "WithPreconditionObservation x m"] show ?case by (auto simp: WithPreconditionObservation_def)
qed

lemma seal_ok:
  assumes "ID H a = Inr i"
  shows "manifest_ok H (fold WithPreconditionObservation os (seal i a b ph qh))"
  using fold_observations [of os "seal i a b ph qh"] assms by (auto simp: manifest_ok_def seal_def)

lemma New_ok: "New_manifest H a b ph qh os = Inr m \<Longrightarrow> manifest_ok H m"
  by (auto simp: New_manifest_def seal_ok split: sum.splits)

lemma Rehydrate_ok: "Rehydrate H i a b ph qh os = Inr m \<Longrightarrow> manifest_ok H m"
  by (auto simp: Rehydrate_def seal_ok split: sum.splits if_splits)

lemma Record_cases:
  "Record_stage H m stage payload = (e, m') \<Longrightarrow>
     (e \<noteq> None \<and> m' = m)
     \<or> (e = None \<and> stageOrder stage \<noteq> None
        \<and> (am_Stages m \<noteq> [] \<longrightarrow> order_or_zero (sg_Stage (last (am_Stages m))) < order_or_zero stage)
        \<and> (\<exists>ph. m' = m\<lparr>am_Stages := am_Stages m @
             [\<lparr>sg_Stage = stage, sg_ActionID = am_ActionID m, sg_PayloadHash = ph, sg_Seq = length (am_Stages m)\<rparr>]\<rparr>))"
  by (auto simp: Record_stage_def split: if_splits sum.splits)

lemma sorted_wrt_snoc_last:
  assumes "sorted_wrt (<) xs" and "xs \<noteq> [] \<Longrightarrow> last xs < (y :: 'a::order)"
  shows "sorted_wrt (<) (xs @ [y])"
proof (cases xs rule: rev_cases)
  case (snoc zs z)
  then show ?thesis using assms by (auto simp: sorted_wrt_append intro: less_trans)
qed simp

lemma Record_keeps_chain:
  assumes "manifest_ok H m"
  shows "manifest_ok H (snd (Record_stage H m stage payload))"
proof -
  obtain e m' where r: "Record_stage H m stage payload = (e, m')" by (metis prod.exhaust)
  from Record_cases [OF r] show ?thesis
  proof (elim disjE conjE exE)
    fix ph
    assume a: "stageOrder stage \<noteq> None" "m' = m\<lparr>am_Stages := am_Stages m @
        [\<lparr>sg_Stage = stage, sg_ActionID = am_ActionID m, sg_PayloadHash = ph, sg_Seq = length (am_Stages m)\<rparr>]\<rparr>"
      "am_Stages m \<noteq> [] \<longrightarrow> order_or_zero (sg_Stage (last (am_Stages m))) < order_or_zero stage"
    let ?new = "\<lparr>sg_Stage = stage, sg_ActionID = am_ActionID m, sg_PayloadHash = ph, sg_Seq = length (am_Stages m)\<rparr>"
    have "sorted_wrt (<) (map stage_rank (am_Stages m) @ [stage_rank ?new])"
      using assms a(3) by (intro sorted_wrt_snoc_last) (auto simp: manifest_ok_def stage_rank_def last_map)
    then show ?thesis using assms a(1,2) r by (simp add: manifest_ok_def stage_bound_def)
  qed (use assms r in simp)
qed

lemma lifecycle_keeps_chain: "lifecycle H m m' \<Longrightarrow> manifest_ok H m \<Longrightarrow> manifest_ok H m'"
  by (induction rule: lifecycle.induct) (auto simp: Record_keeps_chain WithProvenance_def, simp add: manifest_ok_def)

lemma lifecycle_appends:
  assumes "lifecycle H m m'"
  shows "prefix (am_Stages m) (am_Stages m') \<and> length (am_Stages m') \<le> Suc (length (am_Stages m))
    \<and> am_ActionID m' = am_ActionID m \<and> am_Action m' = am_Action m \<and> am_Band m' = am_Band m
    \<and> am_PlanHash m' = am_PlanHash m \<and> am_PredictionHash m' = am_PredictionHash m
    \<and> (am_Stages m \<noteq> [] \<longrightarrow> am_Provenance m' = am_Provenance m)"
  using assms
proof (cases rule: lifecycle.cases)
  case (stage_recorded stage payload)
  obtain e m1 where r: "Record_stage H m stage payload = (e, m1)" by (metis prod.exhaust)
  from Record_cases [OF r] stage_recorded r show ?thesis by auto
next
  case (provenance_bound p)
  then show ?thesis by (simp add: WithProvenance_def)
qed

lemma manifest_ok_verifies:
  assumes "manifest_ok H m"
  shows "Assert H m [] = None" and "VerifyStages H m = None"
proof -
  show a: "Assert H m [] = None" using assms by (simp add: Assert_def manifest_ok_def)
  have "sorted_wrt (<) (- 1 # map stage_rank (am_Stages m))" using assms by (auto simp: manifest_ok_def stage_rank_def)
  then show "VerifyStages H m = None" using assms a by (simp add: VerifyStages_def verify_stages_iff manifest_ok_def)
qed

section \<open>Properties\<close>

text \<open>
  C6. The action id binds the action. Two actions that both obtain an id have the same id exactly when they are
  the same operation, whatever order their parameters are listed in, unless the two different canonical
  encodings collide under the hash. Actions with one id also give the safety predicates the same parts.
\<close>

theorem action_id_binds:
  assumes "go_map a" and "go_map b" and "ID H a = Inr i" and "ID H b = Inr j"
  shows "i = j \<longleftrightarrow> (same_action a b \<and> SafetyParts a = SafetyParts b)
    \<or> (canonicalJSON a \<noteq> canonicalJSON b \<and> H (canonicalJSON a) = H (canonicalJSON b))"
proof -
  have v: "canonicalUTF8 a" "canonicalUTF8 b" "i = H (canonicalJSON a)" "j = H (canonicalJSON b)"
    using assms(3,4) by (auto simp: ID_def split: if_splits)
  show ?thesis
    using same_action_of_json [OF _ v(1,2) assms(1,2)] same_action_parts [OF _ assms(1,2)] v(3,4) by metis
qed

definition sample_action :: Action where
  "sample_action = \<lparr>ac_Target = ''web<1>'', ac_OpClass = ''restart-service'', ac_Op = ''restart'',
     ac_Params = Some [(''unit'', ''nginx''), (''note'', [CHR 0xC3, CHR 0xA9, dquote])], ac_Reversible = True\<rparr>"

theorem action_id_binds_witness:
  "\<exists>i. ID (\<lambda>s. s) sample_action = Inr i
     \<and> ID (\<lambda>s. s) (sample_action\<lparr>ac_Params := Some [(''note'', [CHR 0xC3, CHR 0xA9, dquote]), (''unit'', ''nginx'')]\<rparr>) = Inr i
     \<and> same_action sample_action (sample_action\<lparr>ac_Params := Some [(''note'', [CHR 0xC3, CHR 0xA9, dquote]), (''unit'', ''nginx'')]\<rparr>)"
proof -
  let ?b = "sample_action\<lparr>ac_Params := Some [(''note'', [CHR 0xC3, CHR 0xA9, dquote]), (''unit'', ''nginx'')]\<rparr>"
  have g: "go_map sample_action" "go_map ?b" by (simp_all add: go_map_def params_list_def sample_action_def)
  have i: "ID (\<lambda>s. s) sample_action = Inr (canonicalJSON sample_action)" "ID (\<lambda>s. s) ?b = Inr (canonicalJSON sample_action)"
    by code_simp+
  show ?thesis using action_id_binds [OF g i] i by auto
qed

text \<open>
  C17. The lifecycle chain. Whatever stages are recorded on a sealed or re-read manifest, in whatever order the
  calls come and however they fail, the manifest still asserts as the action it was sealed for, its chain
  verifies, it holds at most four stages numbered by position, and one more step only ever appends:
  no recorded stage changes, and the provenance is frozen from the first stage on.
\<close>

theorem lifecycle_chain:
  assumes "New_manifest H a b ph qh os = Inr m0 \<or> Rehydrate H i a b ph qh os = Inr m0"
    and "(lifecycle H)\<^sup>*\<^sup>* m0 m"
  shows "VerifyStages H m = None \<and> Assert H m (am_ActionID m0) = None \<and> am_Action m = am_Action m0
    \<and> length (am_Stages m) \<le> 4 \<and> map sg_Seq (am_Stages m) = [0 ..< length (am_Stages m)]
    \<and> (\<forall>m'. lifecycle H m m' \<longrightarrow> prefix (am_Stages m) (am_Stages m')
         \<and> (am_Stages m \<noteq> [] \<longrightarrow> am_Provenance m' = am_Provenance m))"
proof -
  have ok0: "manifest_ok H m0" using assms(1) New_ok Rehydrate_ok by blast
  have inv: "manifest_ok H m \<and> am_ActionID m = am_ActionID m0 \<and> am_Action m = am_Action m0"
    using assms(2) ok0 by (induction rule: rtranclp_induct) (auto dest: lifecycle_keeps_chain lifecycle_appends)
  then have "Assert H m (am_ActionID m0) = None" by (auto simp: Assert_def manifest_ok_def)
  moreover have "length (am_Stages m) \<le> 4" using inv stages_at_most_four by (simp add: manifest_ok_def)
  moreover have "map sg_Seq (am_Stages m) = [0 ..< length (am_Stages m)]" using inv by (simp add: manifest_ok_def)
  ultimately show ?thesis using inv manifest_ok_verifies(2) lifecycle_appends by blast
qed

theorem lifecycle_chain_witness:
  "\<exists>m0 m. New_manifest (\<lambda>s. s) sample_action BandAuto ''p'' ''q'' [] = Inr m0
     \<and> Record_stage (\<lambda>s. s) m0 StageApproved (Some ''{}'') = (None, m) \<and> length (am_Stages m) = 1
     \<and> VerifyStages (\<lambda>s. s) m = None"
proof -
  let ?fresh = "seal (canonicalJSON sample_action) sample_action BandAuto ''p'' ''q''"
  let ?next = "snd (Record_stage (\<lambda>s. s) ?fresh StageApproved (Some ''{}''))"
  have i: "ID (\<lambda>s. s) sample_action = Inr (canonicalJSON sample_action)" by code_simp
  then have n: "New_manifest (\<lambda>s. s) sample_action BandAuto ''p'' ''q'' [] = Inr ?fresh" by (simp add: New_manifest_def)
  have r: "Record_stage (\<lambda>s. s) ?fresh StageApproved (Some ''{}'') = (None, ?next) \<and> length (am_Stages ?next) = 1"
    by (simp add: Record_stage_def seal_def stageOrder_def payloadHash_def)
  have "(lifecycle (\<lambda>s. s))\<^sup>*\<^sup>* ?fresh ?next" by (intro r_into_rtranclp stage_recorded)
  then show ?thesis using lifecycle_chain [OF disjI1 [OF n], of ?next] n r by blast
qed

end
