(* ===== verification/Territory.thy ===== *)
theory Territory
  imports Safety
begin

text \<open>
  The territory gate, \<^verbatim>\<open>core/territory/territory.go\<close>: the six classifiers as patterns, the territory of an
  action, and the ruling. The one-line caveats, text shown on a block, are left out.
\<close>

datatype territory_name = TerritoryNative | TerritoryEdge | TerritoryNetwork | TerritoryK8s | TerritoryPVE | TerritoryDocker

definition sep_opt :: rx where
  "sep_opt = opt_rx (Cls (\<lambda>c. c = CHR ''-'' \<or> c = CHR ''_''))"

definition bounded :: "rx list \<Rightarrow> rx" where
  "bounded rs = seqs [Bnd, alts rs, Bnd]"

definition native_rx :: rx where
  "native_rx =
     bounded [lit ''synology'', Seq (lit ''syno'') (Star (Cls digit_char)), Seq (lit ''iscsi'') w0,
       seqs [Bnd, lit ''nas'', Bnd], lit ''nfs'', lit ''nvr'', lit ''zfs'', lit ''zpool'', lit ''truenas'', lit ''freenas'',
       lit ''seaweedfs'', lit ''weed'', lit ''synomib'', lit ''exportfs'']"

definition edge_rx :: rx where
  "edge_rx =
     Alt (bounded [lit ''netplan'', lit ''ebgp'', seqs [lit ''edge'', sep_opt, lit ''router''],
            seqs [lit ''breach'', sep_opt, lit ''acl''], Seq (lit ''frr'') Bnd, Seq (lit ''bird'') Bnd, lit ''birdc'',
            lit ''swanctl'', lit ''haproxy''])
         (seqs [Bnd, lit ''ip'', sp1, lit ''xfrm'', Bnd])"

definition network_rx :: rx where
  "network_rx =
     bounded [lit ''cisco'', Seq (lit ''asa'') Bnd, seqs [Bnd, lit ''bgp'', Bnd], lit ''firewall'', lit ''netmiko'',
       lit ''napalm'', seqs [Bnd, lit ''vpn'', Bnd], seqs [Bnd, lit ''acl'', Bnd], Seq (lit ''switch'') Bnd,
       Seq (lit ''router'') Bnd, lit ''ios-xe'', lit ''nxos'', lit ''vtysh'',
       seqs [lit ''hier'', opt_rx (lit ''_''), lit ''config'']]"

definition k8s_rx :: rx where
  "k8s_rx =
     Alt (bounded [lit ''kubectl'', lit ''helm'', lit ''kubernetes'', lit ''k8s'', seqs [lit ''kube'', sep_opt, lit ''system''],
            lit ''statefulset'', lit ''daemonset'', lit ''deployment/'', lit ''rollout'', lit ''tofu'', lit ''terraform'',
            lit ''argocd'', lit ''cilium''])
         (seqs [lit ''k8s'', Cls (\<lambda>c. c = CHR ''-'' \<or> c = CHR ''_''),
            words [''ctrlr'', ''node'', ''wrkr'', ''frr'', ''openbao'', ''lb'']])"

definition pve_rx :: rx where
  "pve_rx =
     bounded [lit ''proxmox'', seqs [Bnd, lit ''pve'', Bnd], Seq (lit ''pve'') (plus_rx (Cls digit_char)),
       seqs [Bnd, lit ''pct'', Bnd], seqs [Bnd, lit ''qm'', Bnd], lit ''qemu'', lit ''vzdump'', lit ''pvesh'', lit ''pvecm'',
       lit ''pvesm'', lit ''ha-manager'']"

definition docker_rx :: rx where
  "docker_rx = bounded [lit ''docker'', lit ''docker-compose'', Seq (lit ''compose'') Bnd, lit ''galera'', lit ''swarm'']"

definition classifiers :: "(territory_name \<times> rx) list" where
  "classifiers =
     [(TerritoryNative, native_rx), (TerritoryEdge, edge_rx), (TerritoryNetwork, network_rx), (TerritoryK8s, k8s_rx),
      (TerritoryPVE, pve_rx), (TerritoryDocker, docker_rx)]"

definition Classify_territory :: "string list \<Rightarrow> territory_name option" where
  "Classify_territory parts =
     map_option fst (find (\<lambda>c. match_string_ci (snd c) (join '' '' parts)) classifiers)"

datatype gate_reason = ReadOnly | CannotPlace | Benign | Acknowledged | NotAcknowledged

record gate_result =
  gr_allow :: bool
  gr_Territory :: "territory_name option"
  gr_Reason :: gate_reason

text \<open>\<^verbatim>\<open>Gate.Permit\<close>; the gate is the set of acknowledged territories.\<close>

definition Permit :: "territory_name set \<Rightarrow> bool \<Rightarrow> bool \<Rightarrow> string list \<Rightarrow> gate_result" where
  "Permit acked mutating confirmedInfra parts =
     (if \<not> mutating then \<lparr>gr_allow = True, gr_Territory = None, gr_Reason = ReadOnly\<rparr>
      else case Classify_territory parts of
        None \<Rightarrow>
          if confirmedInfra then \<lparr>gr_allow = False, gr_Territory = None, gr_Reason = CannotPlace\<rparr>
          else \<lparr>gr_allow = True, gr_Territory = None, gr_Reason = Benign\<rparr>
      | Some t \<Rightarrow>
          if t \<in> acked then \<lparr>gr_allow = True, gr_Territory = Some t, gr_Reason = Acknowledged\<rparr>
          else \<lparr>gr_allow = False, gr_Territory = Some t, gr_Reason = NotAcknowledged\<rparr>)"

lemma Permit_allow_iff:
  "gr_allow (Permit acked mutating confirmedInfra parts) \<longleftrightarrow>
     \<not> mutating
     \<or> (case Classify_territory parts of None \<Rightarrow> \<not> confirmedInfra | Some t \<Rightarrow> t \<in> acked)"
  by (simp add: Permit_def split: option.split)

end
