(* ===== verification/Limiter.thy ===== *)
theory Limiter
  imports TG_Prelude "HOL-Library.AList"
begin

text \<open>
  The actuation-frequency governor, \<^verbatim>\<open>core/actuate/limiter.go\<close>: the per-session and per-target window and
  in-flight budgets, admission, and the lease that holds the in-flight slots. The clock is an argument. The
  in-flight counters are an association list, a Go map whose entries \<^verbatim>\<open>Stats\<close> adds up; the admitted times
  are a map from scope keys to lists.
\<close>

section \<open>The limiter\<close>

record ActuationLimits =
  al_Window :: duration
  al_SessionPerWindow :: int
  al_TargetPerWindow :: int
  al_SessionInFlight :: int
  al_TargetInFlight :: int

definition DefaultActuationLimits :: ActuationLimits where
  "DefaultActuationLimits =
     \<lparr>al_Window = 10 * 60 * 1000000000, al_SessionPerWindow = 2, al_TargetPerWindow = 3, al_SessionInFlight = 1, al_TargetInFlight = 1\<rparr>"

definition or_default :: "int \<Rightarrow> int \<Rightarrow> int" where
  "or_default v d = (if v \<le> 0 then d else v)"

definition withDefaults :: "ActuationLimits \<Rightarrow> ActuationLimits" where
  "withDefaults l =
     \<lparr>al_Window = or_default (al_Window l) (al_Window DefaultActuationLimits),
      al_SessionPerWindow = or_default (al_SessionPerWindow l) (al_SessionPerWindow DefaultActuationLimits),
      al_TargetPerWindow = or_default (al_TargetPerWindow l) (al_TargetPerWindow DefaultActuationLimits),
      al_SessionInFlight = or_default (al_SessionInFlight l) (al_SessionInFlight DefaultActuationLimits),
      al_TargetInFlight = or_default (al_TargetInFlight l) (al_TargetInFlight DefaultActuationLimits)\<rparr>"

definition unattributed :: string where [tg_consts]: "unattributed = ''(unattributed)''"

definition scopeKey :: "string \<Rightarrow> string \<Rightarrow> string" where
  "scopeKey scope key = (let k = norm_key key in scope @ '':'' @ (if k = [] then unattributed else k))"

record ActuationLimiter =
  lm_limits :: ActuationLimits
  lm_admitted :: "string \<Rightarrow> instant list"
  lm_inFlight :: "(string \<times> int) list"
  lm_totalAdmitted :: "64 word"
  lm_totalRefused :: "64 word"

definition NewActuationLimiter :: ActuationLimiter where
  "NewActuationLimiter =
     \<lparr>lm_limits = DefaultActuationLimits, lm_admitted = (\<lambda>_. []), lm_inFlight = [], lm_totalAdmitted = 0, lm_totalRefused = 0\<rparr>"

definition WithLimits :: "ActuationLimiter option \<Rightarrow> ActuationLimits \<Rightarrow> ActuationLimiter option" where
  "WithLimits l lims = map_option (\<lambda>l. l\<lparr>lm_limits := withDefaults lims\<rparr>) l"

definition in_flight :: "ActuationLimiter \<Rightarrow> string \<Rightarrow> int" where
  "in_flight l k = (case map_of (lm_inFlight l) k of None \<Rightarrow> 0 | Some n \<Rightarrow> n)"

record LimiterStats =
  st_Admitted :: "64 word"
  st_Refused :: "64 word"
  st_InFlight :: int
  st_limits :: ActuationLimits

text \<open>The tallies with the budget they are measured against; a nil limiter reports zeroes.\<close>

definition limiter_Stats :: "ActuationLimiter option \<Rightarrow> LimiterStats" where
  "limiter_Stats l =
     (case l of
        None \<Rightarrow> \<lparr>st_Admitted = 0, st_Refused = 0, st_InFlight = 0,
                  st_limits = \<lparr>al_Window = 0, al_SessionPerWindow = 0, al_TargetPerWindow = 0, al_SessionInFlight = 0, al_TargetInFlight = 0\<rparr>\<rparr>
      | Some l \<Rightarrow> \<lparr>st_Admitted = lm_totalAdmitted l, st_Refused = lm_totalRefused l,
                    st_InFlight = sum_list (map snd (lm_inFlight l)) div 2, st_limits = lm_limits l\<rparr>)"

record ActuationLease =
  ls_keys :: "string list"
  ls_done :: bool
  ls_headroom :: int

definition release_key :: "string \<Rightarrow> ActuationLimiter \<Rightarrow> ActuationLimiter" where
  "release_key k l =
     (let l = (if in_flight l k > 0 then l\<lparr>lm_inFlight := AList.update k (in_flight l k - 1) (lm_inFlight l)\<rparr> else l) in
      if in_flight l k = 0 then l\<lparr>lm_inFlight := AList.delete k (lm_inFlight l)\<rparr> else l)"

definition Release :: "ActuationLease \<Rightarrow> ActuationLimiter \<Rightarrow> ActuationLease \<times> ActuationLimiter" where
  "Release a l = (if ls_done a then (a, l) else (a\<lparr>ls_done := True\<rparr>, fold release_key (ls_keys a) l))"

datatype limiter_refusal =
    NotWired
  | InFlightCap string string int int
  | WindowCap string string int int

definition pruneAtOrBefore :: "instant list \<Rightarrow> instant \<Rightarrow> instant list" where
  "pruneAtOrBefore ts cutoff = filter (\<lambda>t. cutoff < t) ts"

definition check_scope :: "string \<Rightarrow> string \<Rightarrow> int \<Rightarrow> int \<Rightarrow> int \<Rightarrow> int \<Rightarrow> limiter_refusal option" where
  "check_scope scope key inFlight limit cnt rateLimit =
     (let shown = (if trim_space key = [] then unattributed else key) in
      if inFlight \<ge> limit then Some (InFlightCap scope shown inFlight limit)
      else if cnt \<ge> rateLimit then Some (WindowCap scope shown cnt rateLimit)
      else None)"

definition bump :: "string \<Rightarrow> ActuationLimiter \<Rightarrow> ActuationLimiter" where
  "bump k l = l\<lparr>lm_inFlight := AList.update k (in_flight l k + 1) (lm_inFlight l)\<rparr>"

definition Admit_live :: "instant \<Rightarrow> string \<Rightarrow> string \<Rightarrow> ActuationLimiter \<Rightarrow> (limiter_refusal + ActuationLease) \<times> ActuationLimiter" where
  "Admit_live now session target l =
     (let sKey = scopeKey ''session'' session; tKey = scopeKey ''target'' target;
          lims = lm_limits l; cutoff = now - al_Window lims;
          sEvents = pruneAtOrBefore (lm_admitted l sKey) cutoff; tEvents = pruneAtOrBefore (lm_admitted l tKey) cutoff;
          l = l\<lparr>lm_admitted := (lm_admitted l)(sKey := sEvents, tKey := tEvents)\<rparr>;
          refusal = (case check_scope ''session'' session (in_flight l sKey) (al_SessionInFlight lims) (int (length sEvents)) (al_SessionPerWindow lims) of
                       Some r \<Rightarrow> Some r
                     | None \<Rightarrow> check_scope ''target'' target (in_flight l tKey) (al_TargetInFlight lims) (int (length tEvents)) (al_TargetPerWindow lims))
      in case refusal of
           Some r \<Rightarrow> (Inl r, l\<lparr>lm_totalRefused := lm_totalRefused l + 1\<rparr>)
         | None \<Rightarrow>
             (let l = l\<lparr>lm_admitted := (lm_admitted l)(sKey := sEvents @ [now], tKey := tEvents @ [now])\<rparr>;
                  l = bump tKey (bump sKey l);
                  l = l\<lparr>lm_totalAdmitted := lm_totalAdmitted l + 1\<rparr>;
                  hs = al_SessionPerWindow lims - int (length sEvents) - 1; ht = al_TargetPerWindow lims - int (length tEvents) - 1
              in (Inr \<lparr>ls_keys = [sKey, tKey], ls_done = False, ls_headroom = (if ht < hs then ht else hs)\<rparr>, l)))"

definition Admit :: "instant \<Rightarrow> string \<Rightarrow> string \<Rightarrow> ActuationLimiter option \<Rightarrow> (limiter_refusal + ActuationLease) \<times> ActuationLimiter option" where
  "Admit now session target l =
     (case l of None \<Rightarrow> (Inl NotWired, None) | Some l \<Rightarrow> (case Admit_live now session target l of (r, l') \<Rightarrow> (r, Some l')))"

section \<open>Facts\<close>

lemma withDefaults_positive:
  "al_Window (withDefaults l) > 0" "al_SessionPerWindow (withDefaults l) > 0" "al_TargetPerWindow (withDefaults l) > 0"
  "al_SessionInFlight (withDefaults l) > 0" "al_TargetInFlight (withDefaults l) > 0"
  by (auto simp: withDefaults_def or_default_def DefaultActuationLimits_def)

lemma scopes_differ [simp]: "scopeKey ''session'' a \<noteq> scopeKey ''target'' b" "scopeKey ''target'' b \<noteq> scopeKey ''session'' a"
  by (simp_all add: scopeKey_def Let_def)

text \<open>The counters as a bag: distinct keys and only positive counts.\<close>

definition counters_ok :: "ActuationLimiter \<Rightarrow> bool" where
  "counters_ok l \<longleftrightarrow> distinct (map fst (lm_inFlight l)) \<and> (\<forall>n \<in> snd ` set (lm_inFlight l). 0 < n)"

lemma sum_update:
  assumes "distinct (map fst xs)"
  shows "sum_list (map snd (AList.update k v xs)) = sum_list (map snd xs) + v - (case map_of xs k of None \<Rightarrow> (0 :: int) | Some n \<Rightarrow> n)"
  using assms by (induction xs) (auto split: option.splits dest: map_of_SomeD)

lemma sum_delete:
  assumes "distinct (map fst xs)"
  shows "sum_list (map snd (AList.delete k xs)) = sum_list (map snd xs) - (case map_of xs k of None \<Rightarrow> (0 :: int) | Some n \<Rightarrow> n)"
  using assms by (induction xs) (auto simp: AList.delete_eq split: option.splits dest: map_of_SomeD, force)

lemma update_member:
  "(a, n) \<in> set (AList.update k v xs) \<Longrightarrow> n = v \<or> (a, n) \<in> set xs"
  "(a, n) \<in> set (AList.update k v xs) \<Longrightarrow> a \<noteq> k \<Longrightarrow> (a, n) \<in> set xs"
  by (induction xs) (auto split: if_splits)

lemma bump_facts:
  assumes "counters_ok l"
  shows "counters_ok (bump k l)" and "in_flight (bump k l) j = in_flight l j + (if j = k then 1 else 0)"
    and "sum_list (map snd (lm_inFlight (bump k l))) = sum_list (map snd (lm_inFlight l)) + 1"
    and "lm_limits (bump k l) = lm_limits l" and "lm_admitted (bump k l) = lm_admitted l"
proof -
  have p: "in_flight l k \<ge> 0" using assms by (auto simp: counters_ok_def in_flight_def split: option.splits dest!: map_of_SomeD)
  show "counters_ok (bump k l)"
    using assms p by (auto simp: counters_ok_def bump_def distinct_update dest!: update_member(1))
  show "in_flight (bump k l) j = in_flight l j + (if j = k then 1 else 0)"
    by (simp add: in_flight_def bump_def update_conv')
  show "sum_list (map snd (lm_inFlight (bump k l))) = sum_list (map snd (lm_inFlight l)) + 1"
    using assms by (simp add: bump_def sum_update counters_ok_def in_flight_def)
qed (simp_all add: bump_def)

lemma release_key_facts:
  assumes "counters_ok l" and "in_flight l k > 0"
  shows "counters_ok (release_key k l)" and "in_flight (release_key k l) j = in_flight l j - (if j = k then 1 else 0)"
    and "sum_list (map snd (lm_inFlight (release_key k l))) = sum_list (map snd (lm_inFlight l)) - 1"
    and "lm_limits (release_key k l) = lm_limits l" and "lm_admitted (release_key k l) = lm_admitted l"
proof -
  define u where "u = AList.update k (in_flight l k - 1) (lm_inFlight l)"
  have d: "distinct (map fst u)" using assms(1) by (simp add: u_def counters_ok_def distinct_update)
  have m: "map_of u j = (if j = k then Some (in_flight l k - 1) else map_of (lm_inFlight l) j)" for j
    by (simp add: u_def update_conv')
  have s: "sum_list (map snd u) = sum_list (map snd (lm_inFlight l)) - 1"
    using assms(1) by (simp add: u_def sum_update counters_ok_def in_flight_def)
  have r: "release_key k l = (if in_flight l k = 1 then l\<lparr>lm_inFlight := AList.delete k u\<rparr> else l\<lparr>lm_inFlight := u\<rparr>)"
    using assms(2) m [of k] by (auto simp: release_key_def Let_def in_flight_def u_def)
  have v: "n \<in> snd ` set u \<Longrightarrow> 0 < n \<or> n = in_flight l k - 1" for n
    using assms(1) by (auto simp: counters_ok_def u_def dest!: update_member(1))
  show "counters_ok (release_key k l)"
  proof (cases "in_flight l k = 1")
    case True
    have "0 < n" if "(a, n) \<in> set (AList.delete k u)" for a n
      using that assms(1) by (force simp: u_def AList.delete_eq counters_ok_def dest: update_member(2))
    then show ?thesis using True r d by (auto simp: counters_ok_def distinct_delete)
  next
    case False
    then show ?thesis using r d v assms(2) by (fastforce simp: counters_ok_def)
  qed
  show "in_flight (release_key k l) j = in_flight l j - (if j = k then 1 else 0)"
    using r m by (auto simp: in_flight_def delete_conv')
  show "sum_list (map snd (lm_inFlight (release_key k l))) = sum_list (map snd (lm_inFlight l)) - 1"
    using r s d m [of k] by (auto simp: sum_delete)
  show "lm_limits (release_key k l) = lm_limits l" "lm_admitted (release_key k l) = lm_admitted l"
    using r by auto
qed

section \<open>Runs\<close>

text \<open>
  A limiter with the leases it has granted and the history of its admissions (time, session key, target
  key). The clock never goes backwards, and each lease is released at some point, possibly more than once.
\<close>

record limiter_world =
  lw_limiter :: ActuationLimiter
  lw_leases :: "ActuationLease list"
  lw_history :: "(instant \<times> string \<times> string) list"
  lw_clock :: instant

definition fresh_world :: "ActuationLimits \<Rightarrow> limiter_world" where
  "fresh_world lims =
     \<lparr>lw_limiter = NewActuationLimiter\<lparr>lm_limits := withDefaults lims\<rparr>, lw_leases = [], lw_history = [], lw_clock = 0\<rparr>"

inductive lim_step :: "limiter_world \<Rightarrow> limiter_world \<Rightarrow> bool" where
  admitted:
    "lw_clock w \<le> now \<Longrightarrow> Admit_live now session target (lw_limiter w) = (Inr lease, l) \<Longrightarrow>
     lim_step w (w\<lparr>lw_limiter := l, lw_leases := lw_leases w @ [lease],
       lw_history := lw_history w @ [(now, scopeKey ''session'' session, scopeKey ''target'' target)], lw_clock := now\<rparr>)"
| refused:
    "lw_clock w \<le> now \<Longrightarrow> Admit_live now session target (lw_limiter w) = (Inl r, l) \<Longrightarrow>
     lim_step w (w\<lparr>lw_limiter := l, lw_clock := now\<rparr>)"
| released:
    "i < length (lw_leases w) \<Longrightarrow> Release (lw_leases w ! i) (lw_limiter w) = (lease, l) \<Longrightarrow>
     lim_step w (w\<lparr>lw_limiter := l, lw_leases := (lw_leases w)[i := lease]\<rparr>)"

definition times_of :: "string \<Rightarrow> (instant \<times> string \<times> string) list \<Rightarrow> instant list" where
  "times_of k h = map fst (filter (\<lambda>(_, s, t). s = k \<or> t = k) h)"

definition live :: "ActuationLease list \<Rightarrow> ActuationLease list" where
  "live ls = filter (\<lambda>a. \<not> ls_done a) ls"

definition holds :: "string \<Rightarrow> ActuationLease list \<Rightarrow> int" where
  "holds k ls = int (length (filter (\<lambda>a. k \<in> set (ls_keys a)) (live ls)))"

text \<open>How many of the given times lie in the window that ends at \<open>t\<close>.\<close>

definition window_count :: "duration \<Rightarrow> instant \<Rightarrow> instant list \<Rightarrow> nat" where
  "window_count d t ts = length (filter (\<lambda>x. t - d < x \<and> x \<le> t) ts)"

definition two_keys :: "ActuationLease \<Rightarrow> bool" where
  "two_keys a \<longleftrightarrow> (\<exists>s t. ls_keys a = [scopeKey ''session'' s, scopeKey ''target'' t])"

text \<open>The counters are exactly the live leases.\<close>

definition lease_inv :: "limiter_world \<Rightarrow> bool" where
  "lease_inv w \<longleftrightarrow>
     counters_ok (lw_limiter w) \<and> list_all two_keys (lw_leases w)
     \<and> (\<forall>k. in_flight (lw_limiter w) k = holds k (lw_leases w))
     \<and> sum_list (map snd (lm_inFlight (lw_limiter w))) = 2 * int (length (live (lw_leases w)))"

text \<open>
  The kept times of a key are those of its history after some cutoff that no window still open can reach.
\<close>

definition window_inv :: "limiter_world \<Rightarrow> bool" where
  "window_inv w \<longleftrightarrow>
     (\<forall>x \<in> set (lw_history w). fst x \<le> lw_clock w)
     \<and> (\<forall>k. \<exists>c. c \<le> lw_clock w - al_Window (lm_limits (lw_limiter w))
              \<and> lm_admitted (lw_limiter w) k = filter (\<lambda>t. c < t) (times_of k (lw_history w)))"

definition caps_inv :: "ActuationLimits \<Rightarrow> limiter_world \<Rightarrow> bool" where
  "caps_inv lims w \<longleftrightarrow>
     (\<forall>s. holds (scopeKey ''session'' s) (lw_leases w) \<le> al_SessionInFlight lims)
     \<and> (\<forall>s. holds (scopeKey ''target'' s) (lw_leases w) \<le> al_TargetInFlight lims)
     \<and> (\<forall>s t. int (window_count (al_Window lims) t (times_of (scopeKey ''session'' s) (lw_history w))) \<le> al_SessionPerWindow lims)
     \<and> (\<forall>s t. int (window_count (al_Window lims) t (times_of (scopeKey ''target'' s) (lw_history w))) \<le> al_TargetPerWindow lims)"

text \<open>What admission checks and what it charges.\<close>

lemma Admit_live_refused:
  assumes "Admit_live now session target l = (Inl r, l')"
  shows "lm_inFlight l' = lm_inFlight l" and "lm_limits l' = lm_limits l"
    and "lm_admitted l' k = (if k = scopeKey ''session'' session \<or> k = scopeKey ''target'' target
            then pruneAtOrBefore (lm_admitted l k) (now - al_Window (lm_limits l)) else lm_admitted l k)"
  using assms by (auto simp: Admit_live_def Let_def split: option.splits)

lemma Admit_live_admitted:
  assumes "Admit_live now session target l = (Inr a, l')"
  defines "sk \<equiv> scopeKey ''session'' session" and "tk \<equiv> scopeKey ''target'' target"
    and "kept \<equiv> \<lambda>k. pruneAtOrBefore (lm_admitted l k) (now - al_Window (lm_limits l))"
  shows "ls_keys a = [sk, tk] \<and> \<not> ls_done a"
    and "in_flight l sk < al_SessionInFlight (lm_limits l)" and "in_flight l tk < al_TargetInFlight (lm_limits l)"
    and "int (length (kept sk)) < al_SessionPerWindow (lm_limits l)" and "int (length (kept tk)) < al_TargetPerWindow (lm_limits l)"
    and "lm_inFlight l' = lm_inFlight (bump tk (bump sk l))" and "lm_limits l' = lm_limits l"
    and "lm_admitted l' k = (if k = sk \<or> k = tk then kept k @ [now] else lm_admitted l k)"
proof -
  have c: "check_scope x k i lim n r = None \<longleftrightarrow> i < lim \<and> n < r" for x k i lim n r
    by (auto simp: check_scope_def Let_def)
  have f: "in_flight (l\<lparr>lm_admitted := g\<rparr>) k = in_flight l k" for g k by (simp add: in_flight_def)
  have b: "lm_inFlight (bump j (bump k (l\<lparr>lm_admitted := g\<rparr>))) = lm_inFlight (bump j (bump k l))" for g j k
    by (simp add: bump_def in_flight_def)
  have b': "lm_limits (bump j m) = lm_limits m" "lm_admitted (bump j m) = lm_admitted m" for j m by (simp_all add: bump_def)
  note all = assms(1) [unfolded Admit_live_def Let_def, folded sk_def tk_def]
  show "ls_keys a = [sk, tk] \<and> \<not> ls_done a" using all by (auto split: option.splits)
  show "in_flight l sk < al_SessionInFlight (lm_limits l)" "in_flight l tk < al_TargetInFlight (lm_limits l)"
    "int (length (kept sk)) < al_SessionPerWindow (lm_limits l)" "int (length (kept tk)) < al_TargetPerWindow (lm_limits l)"
    using all by (auto simp: c f kept_def split: option.splits)
  show "lm_inFlight l' = lm_inFlight (bump tk (bump sk l))" using all by (auto simp: b split: option.splits)
  show "lm_limits l' = lm_limits l" using all by (auto simp: b' split: option.splits)
  show "lm_admitted l' k = (if k = sk \<or> k = tk then kept k @ [now] else lm_admitted l k)"
    using all by (auto simp: b' kept_def sk_def tk_def split: option.splits)
qed

lemma filter_list_update:
  assumes "i < length xs"
  shows "length (filter P (xs[i := y])) + (if P (xs ! i) then 1 else 0) = length (filter P xs) + (if P y then 1 else 0)"
proof -
  have "length (filter P xs) = length (filter P (take i xs @ xs ! i # drop (Suc i) xs))"
    using assms by (simp only: id_take_nth_drop [symmetric])
  then show ?thesis using assms by (simp add: upd_conv_take_nth_drop)
qed

lemma holds_alt: "holds k ls = int (length (filter (\<lambda>a. \<not> ls_done a \<and> k \<in> set (ls_keys a)) ls))"
  by (simp add: holds_def live_def)

lemma in_flight_cong: "lm_inFlight l = lm_inFlight m \<Longrightarrow> in_flight l k = in_flight m k"
  by (simp add: in_flight_def)

lemma counters_ok_cong: "lm_inFlight l = lm_inFlight m \<Longrightarrow> counters_ok l = counters_ok m"
  by (simp add: counters_ok_def)

lemma release_pair:
  assumes "counters_ok l" and "in_flight l s > 0" and "in_flight l t > 0" and "s \<noteq> t"
  defines "m \<equiv> release_key t (release_key s l)"
  shows "counters_ok m" and "in_flight m k = in_flight l k - (if k = s \<or> k = t then 1 else 0)"
    and "sum_list (map snd (lm_inFlight m)) = sum_list (map snd (lm_inFlight l)) - 2"
    and "lm_limits m = lm_limits l" and "lm_admitted m = lm_admitted l"
proof -
  note a = release_key_facts [OF assms(1,2)]
  have "in_flight (release_key s l) t > 0" using a(2) [of t] assms(3,4) by simp
  note b = release_key_facts [OF a(1) this]
  show "counters_ok m" by (simp add: m_def b(1))
  show "in_flight m k = in_flight l k - (if k = s \<or> k = t then 1 else 0)" using assms(4) by (auto simp: m_def b(2) a(2))
  show "sum_list (map snd (lm_inFlight m)) = sum_list (map snd (lm_inFlight l)) - 2" by (simp add: m_def b(3) a(3))
  show "lm_limits m = lm_limits l" "lm_admitted m = lm_admitted l" by (simp_all add: m_def a b)
qed

lemma Release_facts:
  assumes "lease_inv w" and "i < length (lw_leases w)" and "Release (lw_leases w ! i) (lw_limiter w) = (a, l)"
  shows "lease_inv (w\<lparr>lw_limiter := l, lw_leases := (lw_leases w)[i := a]\<rparr>)"
    and "lm_limits l = lm_limits (lw_limiter w)" and "lm_admitted l = lm_admitted (lw_limiter w)"
    and "holds k ((lw_leases w)[i := a]) \<le> holds k (lw_leases w)"
proof -
  let ?a = "lw_leases w ! i" and ?l = "lw_limiter w" and ?ls = "lw_leases w"
  have inv: "counters_ok ?l" "list_all two_keys ?ls" "\<And>k. in_flight ?l k = holds k ?ls"
    "sum_list (map snd (lm_inFlight ?l)) = 2 * int (length (live ?ls))"
    using assms(1) by (simp_all add: lease_inv_def)
  have "two_keys ?a" using inv(2) assms(2) by (simp add: list_all_length)
  then obtain s t where k: "ls_keys ?a = [scopeKey ''session'' s, scopeKey ''target'' t]" by (auto simp: two_keys_def)
  have *: "lease_inv (w\<lparr>lw_limiter := l, lw_leases := ?ls[i := a]\<rparr>) \<and> lm_limits l = lm_limits ?l
      \<and> lm_admitted l = lm_admitted ?l \<and> holds k (?ls[i := a]) \<le> holds k ?ls"
  proof (cases "ls_done ?a")
    case True
    then have "a = ?a" "l = ?l" using assms(3) by (auto simp: Release_def)
    then show ?thesis using assms(1) by (simp add: lease_inv_def)
  next
    case False
    let ?s = "scopeKey ''session'' s" and ?t = "scopeKey ''target'' t"
    have a: "a = ?a\<lparr>ls_done := True\<rparr>" "l = release_key ?t (release_key ?s ?l)" using assms(3) False k by (auto simp: Release_def)
    have h: "holds k (?ls[i := a]) = holds k ?ls - (if k = ?s \<or> k = ?t then 1 else 0)" for k
      using filter_list_update [OF assms(2), of "\<lambda>a. \<not> ls_done a \<and> k \<in> set (ls_keys a)" a] False k a(1)
      by (auto simp: holds_alt split: if_splits)
    have n: "length (live (?ls[i := a])) + 1 = length (live ?ls)"
      using filter_list_update [OF assms(2), of "\<lambda>a. \<not> ls_done a" a] False a(1) by (simp add: live_def)
    have nn: "holds k (?ls[i := a]) \<ge> 0" for k by (simp add: holds_def)
    have p: "in_flight ?l ?s > 0" "in_flight ?l ?t > 0"
      using inv(3) h [of ?s] h [of ?t] nn [of ?s] nn [of ?t] by simp_all
    note r = release_pair [OF inv(1) p scopes_differ(1), folded a(2)]
    have "two_keys a" using k a(1) by (auto simp: two_keys_def)
    then have "list_all two_keys (?ls[i := a])" using inv(2) set_update_subset_insert [of ?ls i a] by (auto simp: list_all_iff)
    then show ?thesis using r h n inv(3,4) by (simp add: lease_inv_def)
  qed
  then show "lease_inv (w\<lparr>lw_limiter := l, lw_leases := ?ls[i := a]\<rparr>)" "lm_limits l = lm_limits ?l"
    "lm_admitted l = lm_admitted ?l" "holds k (?ls[i := a]) \<le> holds k ?ls"
    by blast+
qed

lemma lease_inv_admit:
  assumes "lease_inv w" and "Admit_live now session target (lw_limiter w) = (Inr a, l)"
  shows "lease_inv (w\<lparr>lw_limiter := l, lw_leases := lw_leases w @ [a], lw_history := h, lw_clock := c\<rparr>)"
    and "holds k (lw_leases w @ [a]) = holds k (lw_leases w)
          + (if k = scopeKey ''session'' session \<or> k = scopeKey ''target'' target then 1 else 0)"
proof -
  let ?sk = "scopeKey ''session'' session" and ?tk = "scopeKey ''target'' target"
  note f = Admit_live_admitted [OF assms(2)]
  have inv: "counters_ok (lw_limiter w)" using assms(1) by (simp add: lease_inv_def)
  note b1 = bump_facts [OF inv, of ?sk]
  note b2 = bump_facts [OF b1(1), of ?tk]
  show h: "holds k (lw_leases w @ [a]) = holds k (lw_leases w) + (if k = ?sk \<or> k = ?tk then 1 else 0)" for k
    using f(1) by (auto simp: holds_alt)
  have "in_flight l k = in_flight (bump ?tk (bump ?sk (lw_limiter w))) k" for k by (rule in_flight_cong) (rule f(6))
  then have i: "in_flight l k = in_flight (lw_limiter w) k + (if k = ?sk \<or> k = ?tk then 1 else 0)" for k
    by (auto simp: b2(2) b1(2))
  have "counters_ok l" using b2(1) counters_ok_cong [OF f(6)] by simp
  moreover have "sum_list (map snd (lm_inFlight l)) = sum_list (map snd (lm_inFlight (lw_limiter w))) + 2"
    using b2(3) b1(3) f(6) by simp
  moreover have "two_keys a" using f(1) by (auto simp: two_keys_def)
  ultimately show "lease_inv (w\<lparr>lw_limiter := l, lw_leases := lw_leases w @ [a], lw_history := h, lw_clock := c\<rparr>)"
    using assms(1) i h f(1) by (simp add: lease_inv_def live_def)
qed

lemma times_of_snoc: "times_of k (h @ [(now, s, t)]) = times_of k h @ (if s = k \<or> t = k then [now] else [])"
  by (simp add: times_of_def)

lemma window_charge:
  assumes "int (length (filter (\<lambda>x. now - d < x) ts)) < cap" and "int (window_count d t ts) \<le> cap"
  shows "int (window_count d t (ts @ [now])) \<le> cap"
proof (cases "t - d < now \<and> now \<le> t")
  case True
  then have "window_count d t ts \<le> length (filter (\<lambda>x. now - d < x) ts)"
    unfolding window_count_def by (induction ts) auto
  then show ?thesis using True assms(1) by (simp add: window_count_def)
next
  case False
  then show ?thesis using assms(2) by (auto simp: window_count_def)
qed

text \<open>What pruning keeps is the part of the history inside the window.\<close>

lemma window_kept:
  assumes "window_inv w" and "lw_clock w \<le> now"
  shows "pruneAtOrBefore (lm_admitted (lw_limiter w) k) (now - al_Window (lm_limits (lw_limiter w)))
      = filter (\<lambda>x. now - al_Window (lm_limits (lw_limiter w)) < x) (times_of k (lw_history w))"
proof -
  obtain c where c: "c \<le> lw_clock w - al_Window (lm_limits (lw_limiter w))"
      "lm_admitted (lw_limiter w) k = filter (\<lambda>t. c < t) (times_of k (lw_history w))"
    using assms(1) unfolding window_inv_def by blast
  show ?thesis unfolding pruneAtOrBefore_def c(2) filter_filter using c(1) assms(2) by (intro filter_cong) auto
qed

lemma window_inv_step:
  assumes "window_inv w" and "lw_clock w \<le> now" and "lm_limits l = lm_limits (lw_limiter w)"
    and "\<And>x. x \<in> set h \<Longrightarrow> fst x \<le> now"
    and "\<And>k. lm_admitted l k = filter (\<lambda>x. now - al_Window (lm_limits (lw_limiter w)) < x) (times_of k h)
            \<or> lm_admitted l k = lm_admitted (lw_limiter w) k \<and> times_of k h = times_of k (lw_history w)"
  shows "window_inv (w\<lparr>lw_limiter := l, lw_leases := ls, lw_history := h, lw_clock := now\<rparr>)"
proof -
  let ?d = "al_Window (lm_limits (lw_limiter w))"
  have "\<exists>c. c \<le> now - ?d \<and> lm_admitted l k = filter (\<lambda>t. c < t) (times_of k h)" for k
  proof -
    obtain c where "c \<le> lw_clock w - ?d" "lm_admitted (lw_limiter w) k = filter (\<lambda>t. c < t) (times_of k (lw_history w))"
      using assms(1) unfolding window_inv_def by blast
    with assms(2) assms(5) [of k] show ?thesis by (metis diff_right_mono order.refl order.trans)
  qed
  then show ?thesis using assms(3,4) by (simp add: window_inv_def)
qed

definition lim_inv :: "ActuationLimits \<Rightarrow> limiter_world \<Rightarrow> bool" where
  "lim_inv lims w \<longleftrightarrow>
     lm_limits (lw_limiter w) = withDefaults lims \<and> lease_inv w \<and> window_inv w \<and> caps_inv (withDefaults lims) w"

lemma fresh_world_inv: "lim_inv lims (fresh_world lims)"
proof -
  have "window_inv (fresh_world lims)"
    by (auto simp: window_inv_def fresh_world_def NewActuationLimiter_def times_of_def intro: exI [of _ "- al_Window (withDefaults lims)"])
  then show ?thesis using withDefaults_positive [of lims]
    by (simp add: lim_inv_def lease_inv_def caps_inv_def fresh_world_def NewActuationLimiter_def counters_ok_def
        in_flight_def holds_def live_def times_of_def window_count_def order.strict_implies_order)
qed

lemma admitted_inv:
  assumes "lim_inv lims w" and "lw_clock w \<le> now" and "Admit_live now session target (lw_limiter w) = (Inr a, l)"
  shows "lim_inv lims (w\<lparr>lw_limiter := l, lw_leases := lw_leases w @ [a],
       lw_history := lw_history w @ [(now, scopeKey ''session'' session, scopeKey ''target'' target)], lw_clock := now\<rparr>)"
    (is "lim_inv lims ?w")
proof -
  let ?sk = "scopeKey ''session'' session" and ?tk = "scopeKey ''target'' target" and ?L = "withDefaults lims"
  let ?h = "lw_history w @ [(now, ?sk, ?tk)]"
  have inv: "lm_limits (lw_limiter w) = ?L" "lease_inv w" "window_inv w" "caps_inv ?L w" using assms(1) by (simp_all add: lim_inv_def)
  note kept = window_kept [OF inv(3) assms(2), unfolded inv(1)]
  note f = Admit_live_admitted [OF assms(3), unfolded inv(1) kept]
  note lease = lease_inv_admit [OF inv(2) assms(3)]
  have fl: "in_flight (lw_limiter w) k = holds k (lw_leases w)" for k using inv(2) by (simp add: lease_inv_def)
  have win: "window_inv ?w"
  proof (rule window_inv_step [OF inv(3) assms(2)])
    show "lm_limits l = lm_limits (lw_limiter w)" using f(7) inv(1) by simp
    show "fst x \<le> now" if "x \<in> set ?h" for x using that inv(3) assms(2) by (auto simp: window_inv_def)
    show "lm_admitted l k = filter (\<lambda>x. now - al_Window (lm_limits (lw_limiter w)) < x) (times_of k ?h)
        \<or> lm_admitted l k = lm_admitted (lw_limiter w) k \<and> times_of k ?h = times_of k (lw_history w)" for k
      using f(8) [of k] withDefaults_positive(1) [of lims] inv(1) kept by (auto simp: times_of_snoc)
  qed
  have "caps_inv ?L ?w"
    unfolding caps_inv_def
  proof (intro conjI allI)
    fix s t
    show "holds (scopeKey ''session'' s) (lw_leases ?w) \<le> al_SessionInFlight ?L"
      using inv(4) f(2) by (auto simp: lease(2) caps_inv_def fl)
    show "holds (scopeKey ''target'' s) (lw_leases ?w) \<le> al_TargetInFlight ?L"
      using inv(4) f(3) by (auto simp: lease(2) caps_inv_def fl)
    show "int (window_count (al_Window ?L) t (times_of (scopeKey ''session'' s) (lw_history ?w))) \<le> al_SessionPerWindow ?L"
      using inv(4) f(4) window_charge by (auto simp: times_of_snoc caps_inv_def)
    show "int (window_count (al_Window ?L) t (times_of (scopeKey ''target'' s) (lw_history ?w))) \<le> al_TargetPerWindow ?L"
      using inv(4) f(5) window_charge by (auto simp: times_of_snoc caps_inv_def)
  qed
  then show ?thesis using f(7) lease(1) win by (simp add: lim_inv_def)
qed

lemma refused_inv:
  assumes "lim_inv lims w" and "lw_clock w \<le> now" and "Admit_live now session target (lw_limiter w) = (Inl r, l)"
  shows "lim_inv lims (w\<lparr>lw_limiter := l, lw_clock := now\<rparr>)"
proof -
  have inv: "lease_inv w" "window_inv w" using assms(1) by (simp_all add: lim_inv_def)
  note f = Admit_live_refused [OF assms(3)]
  have "window_inv (w\<lparr>lw_limiter := l, lw_leases := lw_leases w, lw_history := lw_history w, lw_clock := now\<rparr>)"
  proof (rule window_inv_step [OF inv(2) assms(2) f(2)])
    show "fst x \<le> now" if "x \<in> set (lw_history w)" for x using that inv(2) assms(2) by (auto simp: window_inv_def)
    show "lm_admitted l k = filter (\<lambda>x. now - al_Window (lm_limits (lw_limiter w)) < x) (times_of k (lw_history w))
        \<or> lm_admitted l k = lm_admitted (lw_limiter w) k \<and> times_of k (lw_history w) = times_of k (lw_history w)" for k
      unfolding f(3) window_kept [OF inv(2) assms(2)] by simp
  qed
  moreover have "lease_inv (w\<lparr>lw_limiter := l, lw_clock := now\<rparr>)"
    using inv(1) in_flight_cong [OF f(1)] counters_ok_cong [OF f(1)] f(1) by (simp add: lease_inv_def)
  ultimately show ?thesis using assms(1) f(2) by (simp add: lim_inv_def caps_inv_def)
qed

lemma released_inv:
  assumes "lim_inv lims w" and "i < length (lw_leases w)" and "Release (lw_leases w ! i) (lw_limiter w) = (a, l)"
  shows "lim_inv lims (w\<lparr>lw_limiter := l, lw_leases := (lw_leases w)[i := a]\<rparr>)"
proof -
  have inv: "lease_inv w" "window_inv w" "caps_inv (withDefaults lims) w" using assms(1) by (simp_all add: lim_inv_def)
  note f = Release_facts [OF inv(1) assms(2,3)]
  have "window_inv (w\<lparr>lw_limiter := l, lw_leases := (lw_leases w)[i := a]\<rparr>)"
    using inv(2) f(2,3) by (simp add: window_inv_def)
  moreover have "caps_inv (withDefaults lims) (w\<lparr>lw_limiter := l, lw_leases := (lw_leases w)[i := a]\<rparr>)"
    using inv(3) f(4) unfolding caps_inv_def by (simp add: order.trans) (meson order.trans)
  ultimately show ?thesis using assms(1) f(1,2) by (simp add: lim_inv_def)
qed

lemma lim_step_inv: "lim_step w w' \<Longrightarrow> lim_inv lims w \<Longrightarrow> lim_inv lims w'"
  by (induction rule: lim_step.induct) (auto intro: admitted_inv refused_inv released_inv)

lemma lim_run_inv: "lim_step\<^sup>*\<^sup>* (fresh_world lims) w \<Longrightarrow> lim_inv lims w"
  by (induction rule: rtranclp_induct) (auto intro: fresh_world_inv lim_step_inv)

section \<open>Properties\<close>

text \<open>
  C7. No run of the governor escapes its budget, whatever limits it was configured with and in whatever order
  admissions and releases come. In every window of the configured length, wherever it ends, one session and
  one target see at most their cap of admissions, and at no time do the live leases of one session or target
  exceed its in-flight cap. The caps are positive: no configuration switches a scope off. The reported
  in-flight figure is exactly the number of live leases.
\<close>

theorem actuation_rate_bounded:
  assumes "lim_step\<^sup>*\<^sup>* (fresh_world lims) w"
  defines "L \<equiv> withDefaults lims"
  shows "(\<forall>s t. int (window_count (al_Window L) t (times_of (scopeKey ''session'' s) (lw_history w))) \<le> al_SessionPerWindow L)
    \<and> (\<forall>s t. int (window_count (al_Window L) t (times_of (scopeKey ''target'' s) (lw_history w))) \<le> al_TargetPerWindow L)
    \<and> (\<forall>s. holds (scopeKey ''session'' s) (lw_leases w) \<le> al_SessionInFlight L)
    \<and> (\<forall>s. holds (scopeKey ''target'' s) (lw_leases w) \<le> al_TargetInFlight L)
    \<and> al_Window L > 0 \<and> al_SessionPerWindow L > 0 \<and> al_TargetPerWindow L > 0
    \<and> st_InFlight (limiter_Stats (Some (lw_limiter w))) = int (length (live (lw_leases w)))"
  using lim_run_inv [OF assms(1)] withDefaults_positive [of lims]
  by (simp add: lim_inv_def caps_inv_def lease_inv_def limiter_Stats_def L_def)

theorem actuation_rate_bounded_witness:
  "\<exists>w. lim_step\<^sup>*\<^sup>* (fresh_world DefaultActuationLimits) w \<and> length (lw_history w) = 1
     \<and> st_InFlight (limiter_Stats (Some (lw_limiter w))) = 1
     \<and> holds (scopeKey ''session'' ''inc-1'') (lw_leases w) \<le> 1"
proof -
  let ?f = "fresh_world DefaultActuationLimits"
  obtain a l where ad: "Admit_live 5 ''inc-1'' ''web1'' (lw_limiter ?f) = (Inr a, l)"
    by (simp add: fresh_world_def NewActuationLimiter_def Admit_live_def check_scope_def in_flight_def pruneAtOrBefore_def
        withDefaults_def or_default_def DefaultActuationLimits_def Let_def)
  let ?w = "?f\<lparr>lw_limiter := l, lw_leases := lw_leases ?f @ [a],
       lw_history := lw_history ?f @ [(5, scopeKey ''session'' ''inc-1'', scopeKey ''target'' ''web1'')], lw_clock := 5\<rparr>"
  have st: "lim_step ?f ?w" by (rule admitted) (use ad in \<open>simp_all add: fresh_world_def\<close>)
  have "\<not> ls_done a" using Admit_live_admitted(1) [OF ad] by simp
  then have "length (live (lw_leases ?w)) = 1" by (simp add: live_def fresh_world_def)
  moreover have "al_SessionInFlight (withDefaults DefaultActuationLimits) = 1"
    by (simp add: withDefaults_def or_default_def DefaultActuationLimits_def)
  ultimately show ?thesis
    using actuation_rate_bounded [OF r_into_rtranclp [of lim_step, OF st]] st
    by (intro exI [of _ ?w]) (auto simp: fresh_world_def)
qed

end
