(* ===== verification/Interceptor.thy ===== *)
theory Interceptor
  imports Policy_Engine Verify OpSchema Manifest Territory Limiter
begin

text \<open>
  The interception chain, \<^verbatim>\<open>core/actuate/interceptor.go\<close>: every gate of \<^verbatim>\<open>Do\<close> in its order, the lease and
  the durable admission with their deferred releases, the baseline and necessity reads, the effect, and what
  is recorded after it.

  The limiter, the manifest, the registry of operation classes, the territory gate and the verdict are the
  models of their own theories. The other collaborators are interfaces in the code and arguments here. Each
  answer of a collaborator may depend on everything that happened before: it is a function of the trace of
  events so far, so a statement for all collaborators covers every behaviour they can show in any order of
  calls. An optional collaborator that is not wired is \<^const>\<open>None\<close>.

  Reasons are constructors instead of messages, the margins that ride on the observe-only gate trail are left
  out, and the two pauses before a retry are steps of the trace only.
\<close>

section \<open>Requests and outcomes\<close>

record Evidence =
  ev_ToolResultID :: string
  ev_Captured :: bool
  ev_Successful :: bool
  ev_Recent :: bool
  ev_Relevant :: bool

definition evidence_Bound :: "Evidence \<Rightarrow> bool" where
  "evidence_Bound e \<longleftrightarrow> ev_Captured e \<and> ev_Successful e \<and> ev_Recent e \<and> ev_Relevant e"

fun anyBoundEvidence :: "Evidence list \<Rightarrow> bool" where
  "anyBoundEvidence [] \<longleftrightarrow> False"
| "anyBoundEvidence (e # es) \<longleftrightarrow> (if evidence_Bound e then True else anyBoundEvidence es)"

record PreState =
  ps_Kind :: string
  ps_Data :: string

datatype refusal =
    NilManifest
  | PollWithoutApproval
  | NeverAutoFloor
  | StatefulFloor
  | Ungated
  | ActionMismatch
  | ParamSchema args_error
  | EvidenceUnbound
  | TerritoryBlocked gate_reason
  | Unverifiable
  | PolicyNotWired
  | PolicyError eval_error
  | PolicyNeedsApproval
  | PolicyDenied
  | PolicyUnknown pverdict
  | NoIdentity string
  | BreakerOpen
  | MutationDisabled
  | WrongHost string string
  | LimitRefused limiter_refusal
  | AdmissionRefused string
  | EmptyTarget
  | Unreachable string
  | NoBaseline
  | NecessityUnwired
  | NecessityUnread
  | NoLongerNecessary
  | ExecCancelled string
  | ExecFailed string
  | ExecExit int

datatype out_reason = NoReason | RefusedBecause refusal | AlreadyInState | ChainGap | VerdictNotPersisted

record Outcome =
  ot_Executed :: bool
  ot_Refused :: bool
  ot_Reason :: out_reason
  ot_Verdict :: verdict
  ot_ActionID :: string
  ot_RateLimited :: bool
  ot_Cancelled :: bool

definition refused_outcome :: "string \<Rightarrow> refusal \<Rightarrow> Outcome" where
  "refused_outcome actionID why =
     \<lparr>ot_Executed = False, ot_Refused = True, ot_Reason = RefusedBecause why, ot_Verdict = [], ot_ActionID = actionID,
      ot_RateLimited = False, ot_Cancelled = False\<rparr>"

definition executed_outcome :: "string \<Rightarrow> verdict \<Rightarrow> out_reason \<Rightarrow> Outcome" where
  "executed_outcome actionID v why =
     \<lparr>ot_Executed = True, ot_Refused = False, ot_Reason = why, ot_Verdict = v, ot_ActionID = actionID,
      ot_RateLimited = False, ot_Cancelled = False\<rparr>"

section \<open>Events and collaborators\<close>

text \<open>
  A ledger row carries its decision, action id and whether the action was withheld, with the refusal where
  there is one. A gate event is one increment of the gate ordinal, emitted to the trail when one is wired.
\<close>

datatype event =
    LedgerRow string string "refusal option" bool
  | GateVerdict string string
  | AskedMayActuate
  | AskedPolicy EvalInput
  | AskedComposer string
  | AskedBreaker
  | ForcedShadow
  | AskedChokepoint
  | LeaseGranted
  | LeaseReleased
  | AdmissionAsked string string
  | AdmissionReleased string string bool
  | Probed string
  | Observed
  | ReadPreAnomalous
  | ReadStillFaulted
  | CapturedState
  | Executed "string list" string
  | PreStateRecorded
  | ExecLogged
  | Tripped_by string
  | VerdictCommitted verdict
  | ExecutionRecorded verdict bool
  | GraduationRecorded string outcome

type_synonym trace = "event list"

record exec_result =
  er_ExitCode :: int
  er_NoOp :: bool

datatype exec_error = CancelledErr string | OtherErr string

text \<open>
  \<open>ic_wired\<close> says that the interceptor, its chokepoint, its actuator and its ledger are all non-nil. The
  three optional interfaces of the actuator are \<open>ic_host\<close>, \<open>ic_prober\<close> and \<open>ic_execLog\<close>.
\<close>

record Interceptor =
  ic_wired :: bool
  ic_hash :: "string \<Rightarrow> string"
  ic_registry :: registry
  ic_overlay :: registry
  ic_now :: "trace \<Rightarrow> instant"
  ic_mayActuate :: "trace \<Rightarrow> bool"
  ic_guardMutation :: "trace \<Rightarrow> mode_error option"
  ic_decider :: "(trace \<Rightarrow> EvalInput \<Rightarrow> PolicyDecision \<times> eval_error option) option"
  ic_modeNow :: "(trace \<Rightarrow> mode) option"
  ic_objectGroups :: "(string \<Rightarrow> string list) option"
  ic_composer :: "(trace \<Rightarrow> string \<Rightarrow> string + string) option"
  ic_breaker :: "(trace \<Rightarrow> bool) option"
  ic_host :: "string option"
  ic_admission :: "(trace \<Rightarrow> string \<Rightarrow> string \<Rightarrow> string option) option"
  ic_prober :: "(trace \<Rightarrow> string \<Rightarrow> bool \<times> string) option"
  ic_exec :: "trace \<Rightarrow> string list \<Rightarrow> string \<Rightarrow> exec_error + exec_result"
  ic_preStates :: "(trace \<Rightarrow> string \<Rightarrow> PreState \<Rightarrow> string option) option"
  ic_execLog :: "(trace \<Rightarrow> string \<Rightarrow> string list \<Rightarrow> string + string list \<times> string list) option"
  ic_verdicts :: "(trace \<Rightarrow> verdict \<Rightarrow> string option) option"
  ic_executions :: "(trace \<Rightarrow> verdict \<Rightarrow> bool \<Rightarrow> string option) option"
  ic_grad :: "(trace \<Rightarrow> string \<Rightarrow> outcome \<Rightarrow> string + RecordResult) option"

record Request =
  rq_Manifest :: "ActionManifest option"
  rq_ExternalRef :: string
  rq_InvertsActionID :: string
  rq_Gated :: bool
  rq_Argv :: "string list"
  rq_Stdin :: string
  rq_Evidence :: "Evidence list"
  rq_Prediction :: Prediction
  rq_Observe :: "(trace \<Rightarrow> ObservedAlert list \<times> bool) option"
  rq_PreAnomalous :: "(trace \<Rightarrow> (string \<Rightarrow> bool) \<times> bool) option"
  rq_StillFaulted :: "(trace \<Rightarrow> bool \<times> bool) option"
  rq_CaptureState :: "(trace \<Rightarrow> PreState \<times> bool) option"
  rq_HostSite :: site_authority
  rq_Confidence :: float64
  rq_Acknowledged :: "territory_name set"
  rq_Approved :: bool
  rq_Band :: band

section \<open>Steps\<close>

text \<open>The state a run threads: the trace, the limiter, the sealed manifest, and the disturbance flag.\<close>

record istate =
  is_trace :: trace
  is_limiter :: "ActuationLimiter option"
  is_manifest :: ActionManifest
  is_disturbed :: bool

text \<open>A step returns early with an outcome, or goes on with a value.\<close>

type_synonym 'a step = "istate \<Rightarrow> (Outcome + 'a) \<times> istate"

definition goOn :: "'a \<Rightarrow> 'a step" where
  "goOn x s = (Inr x, s)"

definition andThen :: "'a step \<Rightarrow> ('a \<Rightarrow> 'b step) \<Rightarrow> 'b step" where
  "andThen m f s = (case m s of (Inl out, s') \<Rightarrow> (Inl out, s') | (Inr x, s') \<Rightarrow> f x s')"

fun inOrder :: "unit step list \<Rightarrow> unit step" where
  "inOrder [] = goOn ()"
| "inOrder (m # ms) = andThen m (\<lambda>_. inOrder ms)"

definition emitEvent :: "event \<Rightarrow> unit step" where
  "emitEvent e s = (Inr (), s\<lparr>is_trace := is_trace s @ [e]\<rparr>)"

text \<open>A call to a collaborator: its answer on the trace so far, and the event of the call.\<close>

definition ask :: "event \<Rightarrow> (trace \<Rightarrow> 'a) \<Rightarrow> 'a step" where
  "ask e f s = (Inr (f (is_trace s)), s\<lparr>is_trace := is_trace s @ [e]\<rparr>)"

definition stop :: "Outcome \<Rightarrow> 'a step" where
  "stop out s = (Inl out, s)"

text \<open>\<^verbatim>\<open>Interceptor.record\<close>.\<close>

definition record_row :: "string \<Rightarrow> string \<Rightarrow> refusal option \<Rightarrow> bool \<Rightarrow> unit step" where
  "record_row decision actionID why withheld =
     emitEvent (LedgerRow (''actuate:'' @ decision) (if actionID = [] then ''(no-action-id)'' else actionID) why withheld)"

definition refuse :: "string \<Rightarrow> refusal \<Rightarrow> 'a step" where
  "refuse actionID why =
     andThen (record_row ''refuse'' actionID (Some why) True) (\<lambda>_. stop (refused_outcome actionID why))"

definition emitGate :: "string \<Rightarrow> string \<Rightarrow> unit step" where
  "emitGate gate v = emitEvent (GateVerdict gate v)"

definition pass :: "string \<Rightarrow> unit step" where
  "pass gate = emitGate gate ''pass''"

definition refuseGate :: "string \<Rightarrow> string \<Rightarrow> refusal \<Rightarrow> 'a step" where
  "refuseGate actionID gate why = andThen (emitGate gate ''refuse'') (\<lambda>_. refuse actionID why)"

definition tripBreaker :: "Interceptor \<Rightarrow> string \<Rightarrow> unit step" where
  "tripBreaker i reason = (case ic_breaker i of None \<Rightarrow> goOn () | Some _ \<Rightarrow> emitEvent (Tripped_by reason))"

section \<open>The gates before the lease\<close>

abbreviation the_action :: "ActionManifest \<Rightarrow> Action" where
  "the_action m \<equiv> am_Action m"

definition admission_gate :: "Request \<Rightarrow> string \<Rightarrow> unit step" where
  "admission_gate r aid =
     (if rq_Band r = BandPollPause \<and> \<not> rq_Approved r then refuseGate aid ''admission'' PollWithoutApproval
      else pass ''admission'')"

definition floor_gate :: "ActionManifest \<Rightarrow> string \<Rightarrow> unit step" where
  "floor_gate m aid =
     (if IsNeverAuto (ac_OpClass (the_action m)) \<or> \<not> ac_Reversible (the_action m) \<or> IsDestructiveOp (SafetyParts (the_action m))
      then refuseGate aid ''never-auto-floor'' NeverAutoFloor
      else pass ''never-auto-floor'')"

definition stateful_gate :: "Request \<Rightarrow> ActionManifest \<Rightarrow> string \<Rightarrow> unit step" where
  "stateful_gate r m aid =
     (if rq_Band r \<noteq> BandPollPause \<and> IsStatefulWorkload (SafetyParts (the_action m))
      then refuseGate aid ''stateful-floor'' StatefulFloor
      else pass ''stateful-floor'')"

definition structure_gate :: "Interceptor \<Rightarrow> Request \<Rightarrow> ActionManifest \<Rightarrow> string \<Rightarrow> unit step" where
  "structure_gate i r m aid =
     (if \<not> rq_Gated r then refuseGate aid ''structure'' Ungated
      else if Assert (ic_hash i) m aid \<noteq> None then refuseGate aid ''structure'' ActionMismatch
      else pass ''structure'')"

definition params_of :: "Action \<Rightarrow> params" where
  "params_of a = map_of (params_list a)"

definition schema_gate :: "Interceptor \<Rightarrow> Request \<Rightarrow> ActionManifest \<Rightarrow> string \<Rightarrow> unit step" where
  "schema_gate i r m aid =
     (case Lookup (ic_registry i) (ic_overlay i) (ac_OpClass (the_action m)) of
        None \<Rightarrow> goOn ()
      | Some spec \<Rightarrow>
          if rq_Argv r = [] \<or> Kind spec = EffectAWXLaunch then
            (case ValidateArgs spec (params_of (the_action m)) of
               Some e \<Rightarrow> refuseGate aid ''structure-schema'' (ParamSchema e)
             | None \<Rightarrow> pass ''structure-schema'')
          else goOn ())"

definition evidence_gate :: "Request \<Rightarrow> string \<Rightarrow> unit step" where
  "evidence_gate r aid =
     (if \<not> anyBoundEvidence (rq_Evidence r) then refuseGate aid ''evidence'' EvidenceUnbound else pass ''evidence'')"

definition territory_ruling :: "Request \<Rightarrow> ActionManifest \<Rightarrow> gate_result" where
  "territory_ruling r m =
     (let a = the_action m in
      Permit (rq_Acknowledged r) True (IsDestructiveOp [ac_Op a, ac_OpClass a]) [ac_Target a, ac_Op a, ac_OpClass a])"

definition territory_gate :: "Request \<Rightarrow> ActionManifest \<Rightarrow> string \<Rightarrow> unit step" where
  "territory_gate r m aid =
     (let res = territory_ruling r m in
      if \<not> gr_allow res then refuseGate aid ''territory'' (TerritoryBlocked (gr_Reason res)) else pass ''territory'')"

definition verifiability_gate :: "Request \<Rightarrow> string \<Rightarrow> unit step" where
  "verifiability_gate r aid =
     (if rq_Observe r = None then refuseGate aid ''verifiability'' Unverifiable else pass ''verifiability'')"

definition resolveObjectGroups :: "Interceptor \<Rightarrow> string \<Rightarrow> string list" where
  "resolveObjectGroups i host = (case ic_objectGroups i of None \<Rightarrow> [] | Some fn \<Rightarrow> if host = [] then [] else fn host)"

definition policy_input :: "Interceptor \<Rightarrow> Request \<Rightarrow> ActionManifest \<Rightarrow> mode \<Rightarrow> EvalInput" where
  "policy_input i r m md =
     (let a = the_action m in
      \<lparr>ei_OpClass = ac_OpClass a, ei_Argv = join '' '' (rq_Argv r), ei_Host = ac_Target a, ei_Resource = [],
       ei_Groups = resolveObjectGroups i (ac_Target a), ei_DeviceClass = [], ei_Territory = [],
       ei_Reversible = ac_Reversible a, ei_InvertsForward = (rq_InvertsActionID r \<noteq> []), ei_Confidence = rq_Confidence r,
       ei_Band = rq_Band r, ei_Mode = md, ei_ActionID = am_ActionID m, ei_ExternalRef = rq_ExternalRef r,
       ei_Principal = ''runner:'' @ rq_ExternalRef r\<rparr>)"

text \<open>What the chain does with a decision; the three trail events follow a pass.\<close>

definition policy_ruling :: "Request \<Rightarrow> string \<Rightarrow> PolicyDecision \<times> eval_error option \<Rightarrow> unit step" where
  "policy_ruling r aid d =
     (case snd d of
        Some err \<Rightarrow> refuseGate aid ''policy'' (PolicyError err)
      | None \<Rightarrow>
          andThen
            (let v = pd_verdict (fst d) in
             if v = VerdictAuto then goOn ()
             else if v = VerdictApprove then
               (if \<not> rq_Approved r then refuseGate aid ''policy'' PolicyNeedsApproval
                else record_row ''policy-approve-honored'' aid None False)
             else if v = VerdictDeny then refuseGate aid ''policy'' PolicyDenied
             else refuseGate aid ''policy'' (PolicyUnknown v))
            (\<lambda>_. inOrder [pass ''policy'', pass ''policy-band'', pass ''graduation'']))"

definition policy_gate :: "Interceptor \<Rightarrow> Request \<Rightarrow> ActionManifest \<Rightarrow> string \<Rightarrow> unit step" where
  "policy_gate i r m aid =
     (case ic_decider i of
        None \<Rightarrow>
          andThen (ask AskedMayActuate (ic_mayActuate i))
            (\<lambda>can. if can then refuse aid PolicyNotWired else goOn ())
      | Some decide \<Rightarrow>
          (\<lambda>s. let md = (case ic_modeNow i of None \<Rightarrow> ModeShadow | Some f \<Rightarrow> f (is_trace s));
                   inp = policy_input i r m md
               in andThen (ask (AskedPolicy inp) (\<lambda>t. decide t inp)) (policy_ruling r aid) s))"

definition compose_gate :: "Interceptor \<Rightarrow> ActionManifest \<Rightarrow> string \<Rightarrow> unit step" where
  "compose_gate i m aid =
     (case ic_composer i of
        None \<Rightarrow> pass ''authn-compose''
      | Some f \<Rightarrow>
          andThen (ask (AskedComposer (ac_Target (the_action m))) (\<lambda>t. f t (ac_Target (the_action m))))
            (\<lambda>res. case res of Inl e \<Rightarrow> refuseGate aid ''authn-compose'' (NoIdentity e) | Inr _ \<Rightarrow> pass ''authn-compose''))"

definition breaker_gate :: "Interceptor \<Rightarrow> string \<Rightarrow> unit step" where
  "breaker_gate i aid =
     (case ic_breaker i of
        None \<Rightarrow> goOn ()
      | Some tripped \<Rightarrow>
          andThen (ask AskedBreaker tripped)
            (\<lambda>is_open. if is_open then andThen (emitEvent ForcedShadow) (\<lambda>_. refuseGate aid ''breaker'' BreakerOpen)
                       else pass ''breaker''))"

definition chokepoint_gate :: "Interceptor \<Rightarrow> string \<Rightarrow> unit step" where
  "chokepoint_gate i aid =
     andThen (ask AskedChokepoint (ic_guardMutation i))
       (\<lambda>err. if err \<noteq> None then refuseGate aid ''mode-chokepoint'' MutationDisabled else pass ''mode-chokepoint'')"

definition host_gate :: "Interceptor \<Rightarrow> ActionManifest \<Rightarrow> string \<Rightarrow> unit step" where
  "host_gate i m aid =
     (case ic_host i of
        None \<Rightarrow> goOn ()
      | Some h \<Rightarrow>
          (let ah = trim_space h; target = trim_space (ac_Target (the_action m)) in
           if ah \<noteq> [] \<and> ah \<noteq> target then refuseGate aid ''host-match'' (WrongHost ah target) else pass ''host-match''))"

definition gates :: "Interceptor \<Rightarrow> Request \<Rightarrow> ActionManifest \<Rightarrow> string \<Rightarrow> unit step list" where
  "gates i r m aid =
     [admission_gate r aid, floor_gate m aid, stateful_gate r m aid, structure_gate i r m aid, schema_gate i r m aid,
      evidence_gate r aid, territory_gate r m aid, verifiability_gate r aid, policy_gate i r m aid, compose_gate i m aid,
      breaker_gate i aid, chokepoint_gate i aid, host_gate i m aid]"

section \<open>Before the effect\<close>

definition reachability_gate :: "Interceptor \<Rightarrow> ActionManifest \<Rightarrow> string \<Rightarrow> unit step" where
  "reachability_gate i m aid =
     (case ic_prober i of
        None \<Rightarrow> goOn ()
      | Some probe \<Rightarrow>
          (let target = trim_space (ac_Target (the_action m)) in
           if target = [] then refuseGate aid ''reachability'' EmptyTarget
           else andThen (ask (Probed target) (\<lambda>t. probe t target))
                  (\<lambda>(reachable, detail). if \<not> reachable then refuseGate aid ''reachability'' (Unreachable detail)
                                           else pass ''reachability'')))"

text \<open>A read that is tried once more when it fails.\<close>

definition read_twice :: "event \<Rightarrow> (trace \<Rightarrow> 'a \<times> bool) \<Rightarrow> ('a \<times> bool) step" where
  "read_twice e f = andThen (ask e f) (\<lambda>res. if snd res then goOn res else ask e f)"

type_synonym baseline = "ObservedAlert list \<times> (string \<Rightarrow> bool)"

text \<open>Both arms of the baseline: the observed pairs and the anomalous hosts. An arm that failed contributes nothing.\<close>

definition baseline_gate :: "Request \<Rightarrow> string \<Rightarrow> baseline step" where
  "baseline_gate r aid =
     (case rq_Observe r of
        None \<Rightarrow> refuseGate aid ''verifiability-backstop'' Unverifiable
      | Some observe \<Rightarrow>
          andThen (read_twice Observed observe) (\<lambda>pre.
          andThen (case rq_PreAnomalous r of None \<Rightarrow> goOn (\<lambda>_. False, False) | Some f \<Rightarrow> read_twice ReadPreAnomalous f) (\<lambda>anom.
            if \<not> snd pre \<and> \<not> snd anom then refuseGate aid ''baseline'' NoBaseline
            else andThen (pass ''baseline'')
                   (\<lambda>_. goOn (if snd pre then fst pre else [], if snd anom then fst anom else (\<lambda>_. False))))))"

definition necessity_gate :: "Request \<Rightarrow> string \<Rightarrow> unit step" where
  "necessity_gate r aid =
     (case rq_StillFaulted r of
        None \<Rightarrow> refuseGate aid ''necessity'' NecessityUnwired
      | Some f \<Rightarrow>
          andThen (ask ReadStillFaulted f)
            (\<lambda>(stillFaulted, necessityOK).
               if \<not> necessityOK then refuseGate aid ''necessity'' NecessityUnread
               else if \<not> stillFaulted then refuseGate aid ''necessity'' NoLongerNecessary
               else pass ''necessity''))"

definition capture_state :: "Request \<Rightarrow> string \<Rightarrow> PreState option step" where
  "capture_state r aid =
     (case rq_CaptureState r of
        None \<Rightarrow> goOn None
      | Some f \<Rightarrow>
          andThen (read_twice CapturedState f)
            (\<lambda>(p, captured). if captured then goOn (Some p)
                               else andThen (record_row ''pre-state-capture-gap'' aid None False) (\<lambda>_. goOn None)))"

section \<open>The effect\<close>

definition disturb :: "unit step" where
  "disturb s = (Inr (), s\<lparr>is_disturbed := True\<rparr>)"

definition execute_failed :: "string \<Rightarrow> refusal \<Rightarrow> bool \<Rightarrow> unit step" where
  "execute_failed aid why cancelled =
     inOrder [disturb, emitGate ''execute'' ''refuse'', record_row ''refuse'' aid (Some why) True,
              stop ((refused_outcome aid why)\<lparr>ot_Cancelled := cancelled\<rparr>)]"

definition execute :: "Interceptor \<Rightarrow> Request \<Rightarrow> string \<Rightarrow> unit step" where
  "execute i r aid =
     andThen (ask (Executed (rq_Argv r) (rq_Stdin r)) (\<lambda>t. ic_exec i t (rq_Argv r) (rq_Stdin r)))
       (\<lambda>res. case res of
          Inl (CancelledErr e) \<Rightarrow> execute_failed aid (ExecCancelled e) True
        | Inl (OtherErr e) \<Rightarrow> execute_failed aid (ExecFailed e) False
        | Inr er \<Rightarrow>
            if er_ExitCode er \<noteq> 0 then execute_failed aid (ExecExit (er_ExitCode er)) False
            else if er_NoOp er then
              inOrder [emitGate ''execute'' ''no-op'', record_row ''actuate:no-op'' aid None False,
                       stop \<lparr>ot_Executed = False, ot_Refused = False, ot_Reason = AlreadyInState, ot_Verdict = [],
                             ot_ActionID = aid, ot_RateLimited = False, ot_Cancelled = False\<rparr>]
            else pass ''execute'')"

section \<open>After the effect\<close>

definition record_pre_state :: "Interceptor \<Rightarrow> string \<Rightarrow> PreState option \<Rightarrow> unit step" where
  "record_pre_state i aid p =
     (case (ic_preStates i, p) of
        (Some f, Some st) \<Rightarrow>
          andThen (ask PreStateRecorded (\<lambda>t. f t aid st))
            (\<lambda>err. if err \<noteq> None then record_row ''pre-state-record-failed'' aid None False else goOn ())
      | _ \<Rightarrow> goOn ())"

definition record_exec_log :: "Interceptor \<Rightarrow> Request \<Rightarrow> string \<Rightarrow> unit step" where
  "record_exec_log i r aid =
     (case ic_execLog i of
        None \<Rightarrow> goOn ()
      | Some f \<Rightarrow>
          andThen (ask ExecLogged (\<lambda>t. f t aid (rq_Argv r)))
            (\<lambda>res. case res of
               Inl _ \<Rightarrow> record_row ''exec-log-failed'' aid None False
             | Inr (fwd, _) \<Rightarrow> if fwd \<noteq> [] then record_row ''exec-log'' aid None False else goOn ()))"

text \<open>JSON of a string slice; the empty vector is the nil slice.\<close>

definition json_argv :: "string list \<Rightarrow> string" where
  "json_argv argv = (if argv = [] then ''null'' else ''['' @ join '','' (map json_str argv) @ '']'')"

definition record_stage :: "Interceptor \<Rightarrow> string \<Rightarrow> string \<Rightarrow> manifest_error option step" where
  "record_stage i stage payload s =
     (case Record_stage (ic_hash i) (is_manifest s) stage (Some payload) of
        (err, m) \<Rightarrow> (Inr err, s\<lparr>is_manifest := m\<rparr>))"

definition record_execution :: "Interceptor \<Rightarrow> string \<Rightarrow> verdict \<Rightarrow> bool \<Rightarrow> string \<Rightarrow> unit step" where
  "record_execution i aid v verified label =
     (case ic_executions i of
        None \<Rightarrow> goOn ()
      | Some f \<Rightarrow>
          andThen (ask (ExecutionRecorded v verified) (\<lambda>t. f t v verified))
            (\<lambda>err. if err \<noteq> None then record_row (''execution-record-failed:'' @ label) aid None False else goOn ()))"

definition recordGraduation :: "Interceptor \<Rightarrow> string \<Rightarrow> string \<Rightarrow> verdict \<Rightarrow> bool \<Rightarrow> unit step" where
  "recordGraduation i opClass aid v verified =
     (case ic_grad i of
        None \<Rightarrow> goOn ()
      | Some f \<Rightarrow>
          (let oc = OutcomeFromVerdict v verified in
           if oc \<noteq> OutcomeDeviated then goOn ()
           else andThen (ask (GraduationRecorded opClass oc) (\<lambda>t. f t opClass oc))
                  (\<lambda>res. case res of
                     Inl _ \<Rightarrow> record_row (''graduation-record-failed:'' @ outcome_string oc) aid None False
                   | Inr rr \<Rightarrow> if rs_Promoted rr \<or> rs_Demoted rr then record_row (''graduation:'' @ outcome_string oc) aid None False
                                else goOn ())))"

definition chain_gap :: "Interceptor \<Rightarrow> string \<Rightarrow> verdict \<Rightarrow> bool \<Rightarrow> string \<Rightarrow> Outcome step" where
  "chain_gap i aid v verified label =
     andThen (inOrder [record_row (''chain-integrity-gap:'' @ v) aid None False,
                       tripBreaker i (''chain-integrity gap on '' @ aid),
                       record_execution i aid v verified label])
       (\<lambda>_. stop (executed_outcome aid v ChainGap))"

definition commit_verdict :: "Interceptor \<Rightarrow> string \<Rightarrow> verdict \<Rightarrow> bool \<Rightarrow> unit step" where
  "commit_verdict i aid v verified =
     (if \<not> verified then record_row ''verdict-withheld:unverifiable'' aid None False
      else case ic_verdicts i of
        None \<Rightarrow> goOn ()
      | Some f \<Rightarrow>
          andThen (ask (VerdictCommitted v) (\<lambda>t. f t v))
            (\<lambda>err. if err = None then goOn ()
                    else inOrder [record_row (''verdict-persist-failed:'' @ v) aid None False,
                                  (if v = VerdictDeviation then tripBreaker i (''deviation verdict (verdict persist failed) on '' @ aid)
                                   else goOn ()),
                                  stop (executed_outcome aid v VerdictNotPersisted)]))"

definition conclude :: "Interceptor \<Rightarrow> Request \<Rightarrow> ActionManifest \<Rightarrow> string \<Rightarrow> verdict \<Rightarrow> bool \<Rightarrow> string \<Rightarrow> Outcome step" where
  "conclude i r m aid v verified label =
     andThen (inOrder [commit_verdict i aid v verified,
                       record_execution i aid v verified label,
                       record_row (''execute:'' @ label) aid None False,
                       (if v = VerdictDeviation then tripBreaker i (''deviation verdict on '' @ aid) else goOn ()),
                       recordGraduation i (ac_OpClass (the_action m)) aid v verified])
       (\<lambda>_. goOn (executed_outcome aid (if verified then v else []) NoReason))"

definition verify_effect :: "Interceptor \<Rightarrow> Request \<Rightarrow> ActionManifest \<Rightarrow> string \<Rightarrow> baseline \<Rightarrow> Outcome step" where
  "verify_effect i r m aid base =
     andThen (record_stage i StageExecuted (json_argv (rq_Argv r))) (\<lambda>execRecErr.
     andThen (ask Observed (case rq_Observe r of None \<Rightarrow> (\<lambda>_. ([], False)) | Some f \<Rightarrow> f)) (\<lambda>(observed, verified).
       let v = vd_Verdict (ComputeVerdictDetailScoped (rq_Prediction r) observed (fst base) (snd base) (rq_HostSite r));
           label = (if verified then v else ''unverifiable'')
       in andThen (emitGate ''verify'' label) (\<lambda>_.
          andThen (record_stage i StageVerified (json_str v)) (\<lambda>verRecErr. \<lambda>s.
            if execRecErr \<noteq> None \<or> verRecErr \<noteq> None \<or> VerifyStages (ic_hash i) (is_manifest s) \<noteq> None
            then chain_gap i aid v verified label s
            else conclude i r m aid v verified label s))))"

definition effect :: "Interceptor \<Rightarrow> Request \<Rightarrow> ActionManifest \<Rightarrow> string \<Rightarrow> Outcome step" where
  "effect i r m aid =
     andThen (reachability_gate i m aid) (\<lambda>_.
     andThen (baseline_gate r aid) (\<lambda>base.
     andThen (necessity_gate r aid) (\<lambda>_.
     andThen (capture_state r aid) (\<lambda>preState.
     andThen (execute i r aid) (\<lambda>_.
     andThen (record_pre_state i aid preState) (\<lambda>_.
     andThen (record_exec_log i r aid) (\<lambda>_.
       verify_effect i r m aid base)))))))"

section \<open>The chain\<close>

text \<open>The durable admission around the effect; its release runs however the effect returns.\<close>

definition with_admission :: "Interceptor \<Rightarrow> Request \<Rightarrow> ActionManifest \<Rightarrow> string \<Rightarrow> Outcome step \<Rightarrow> Outcome step" where
  "with_admission i r m aid body =
     (case ic_admission i of
        None \<Rightarrow> body
      | Some admit \<Rightarrow>
          (let target = ac_Target (the_action m); ref = rq_ExternalRef r in
           andThen (ask (AdmissionAsked target ref) (\<lambda>t. admit t target ref))
             (\<lambda>err. case err of
                Some e \<Rightarrow> refuseGate aid ''target-admission'' (AdmissionRefused e)
              | None \<Rightarrow>
                  (\<lambda>s. case andThen (pass ''target-admission'') (\<lambda>_. body) s of
                     (res, s') \<Rightarrow>
                       (res, s'\<lparr>is_trace := is_trace s' @ [AdmissionReleased target ref (is_disturbed s')]\<rparr>)))))"

text \<open>The limiter's lease around all of that.\<close>

definition with_lease :: "Interceptor \<Rightarrow> Request \<Rightarrow> ActionManifest \<Rightarrow> string \<Rightarrow> Outcome step \<Rightarrow> Outcome step" where
  "with_lease i r m aid body s =
     (case Limiter.Admit (ic_now i (is_trace s)) (rq_ExternalRef r) (ac_Target (the_action m)) (is_limiter s) of
        (Inl why, l) \<Rightarrow>
          andThen (inOrder [emitGate ''actuation-limit'' ''refuse'', record_row ''refuse'' aid (Some (LimitRefused why)) True])
            (\<lambda>_. stop ((refused_outcome aid (LimitRefused why))\<lparr>ot_RateLimited := True\<rparr>)) (s\<lparr>is_limiter := l\<rparr>)
      | (Inr lease, l) \<Rightarrow>
          (case andThen (inOrder [emitEvent LeaseGranted, pass ''actuation-limit'']) (\<lambda>_. body) (s\<lparr>is_limiter := l\<rparr>) of
             (res, s') \<Rightarrow>
               (res, s'\<lparr>is_limiter := map_option (\<lambda>l. snd (Release lease l)) (is_limiter s'),
                        is_trace := is_trace s' @ [LeaseReleased]\<rparr>)))"

definition chain :: "Interceptor \<Rightarrow> Request \<Rightarrow> ActionManifest \<Rightarrow> Outcome step" where
  "chain i r m =
     (let aid = am_ActionID m in
      andThen (inOrder (gates i r m aid)) (\<lambda>_. with_lease i r m aid (with_admission i r m aid (effect i r m aid))))"

definition chain_SelfTest :: "Interceptor \<Rightarrow> bool" where
  "chain_SelfTest i = ic_wired i"

definition outcome_of :: "Outcome + Outcome \<Rightarrow> Outcome" where
  "outcome_of res = (case res of Inl out \<Rightarrow> out | Inr out \<Rightarrow> out)"

text \<open>
  \<^verbatim>\<open>Do\<close>: an unwired chain is an error; otherwise an outcome. The trace starts empty, and the limiter goes
  in and comes out with the state.
\<close>

definition Do :: "Interceptor \<Rightarrow> Request \<Rightarrow> istate \<Rightarrow> Outcome option \<times> istate" where
  "Do i r s =
     (if \<not> chain_SelfTest i then (None, s)
      else case rq_Manifest r of
        None \<Rightarrow>
          (case record_row ''refuse'' [] (Some NilManifest) True s of
             (_, s') \<Rightarrow> (Some (refused_outcome [] NilManifest), s'))
      | Some m \<Rightarrow> (case chain i r m (s\<lparr>is_manifest := m\<rparr>) of (res, s') \<Rightarrow> (Some (outcome_of res), s')))"

end
