(* ===== verification/Interceptor_Facts.thy ===== *)
theory Interceptor_Facts
  imports Interceptor
begin

text \<open>
  The reasoning about the interception chain: a weakest-precondition calculus for its steps, a specification of
  every gate (what a refusal looks like, and what a pass proves), and how they compose into the chain.
\<close>

section \<open>A calculus of steps\<close>

definition wp :: "'a step \<Rightarrow> (Outcome + 'a \<Rightarrow> istate \<Rightarrow> bool) \<Rightarrow> istate \<Rightarrow> bool" where
  "wp m Q s \<longleftrightarrow> (case m s of (res, s') \<Rightarrow> Q res s')"

named_theorems wp_rules \<open>how each step combinator transforms a postcondition\<close>

lemma wp_goOn [wp_rules]: "wp (goOn x) Q s \<longleftrightarrow> Q (Inr x) s"
  by (simp add: wp_def goOn_def)

lemma wp_stop [wp_rules]: "wp (stop out) Q s \<longleftrightarrow> Q (Inl out) s"
  by (simp add: wp_def stop_def)

lemma wp_emitEvent [wp_rules]: "wp (emitEvent e) Q s \<longleftrightarrow> Q (Inr ()) (s\<lparr>is_trace := is_trace s @ [e]\<rparr>)"
  by (simp add: wp_def emitEvent_def)

lemma wp_ask [wp_rules]: "wp (ask e f) Q s \<longleftrightarrow> Q (Inr (f (is_trace s))) (s\<lparr>is_trace := is_trace s @ [e]\<rparr>)"
  by (simp add: wp_def ask_def)

lemma wp_andThen [wp_rules]:
  "wp (andThen m f) Q s \<longleftrightarrow> wp m (\<lambda>res s'. case res of Inl out \<Rightarrow> Q (Inl out) s' | Inr x \<Rightarrow> wp (f x) Q s') s"
  by (auto simp: wp_def andThen_def split: prod.splits sum.splits)

lemma wp_disturb [wp_rules]: "wp disturb Q s \<longleftrightarrow> Q (Inr ()) (s\<lparr>is_disturbed := True\<rparr>)"
  by (simp add: wp_def disturb_def)

lemma wp_if [wp_rules]: "wp (if b then m else n) Q s \<longleftrightarrow> (if b then wp m Q s else wp n Q s)"
  by simp

lemma wp_mono:
  assumes "wp m P s" and "\<And>res s'. P res s' \<Longrightarrow> Q res s'"
  shows "wp m Q s"
  using assms by (auto simp: wp_def split: prod.splits)

lemma wpD: "wp m Q s \<Longrightarrow> m s = (res, s') \<Longrightarrow> Q res s'"
  by (simp add: wp_def)

lemma wp_record_row [wp_rules]:
  "wp (record_row d aid why w) Q s \<longleftrightarrow>
     Q (Inr ()) (s\<lparr>is_trace := is_trace s @ [LedgerRow (''actuate:'' @ d) (if aid = [] then ''(no-action-id)'' else aid) why w]\<rparr>)"
  by (simp add: record_row_def wp_rules)

lemma wp_pass [wp_rules]: "wp (pass g) Q s \<longleftrightarrow> Q (Inr ()) (s\<lparr>is_trace := is_trace s @ [GateVerdict g ''pass'']\<rparr>)"
  by (simp add: pass_def emitGate_def wp_rules)

lemma wp_emitGate [wp_rules]: "wp (emitGate g v) Q s \<longleftrightarrow> Q (Inr ()) (s\<lparr>is_trace := is_trace s @ [GateVerdict g v]\<rparr>)"
  by (simp add: emitGate_def wp_rules)

section \<open>What a step appends\<close>

text \<open>The state \<open>t\<close> comes after \<open>s\<close>: events were appended, all of them of the kind \<open>A\<close>, and the limiter is as it was.\<close>

definition ext :: "(event \<Rightarrow> bool) \<Rightarrow> istate \<Rightarrow> istate \<Rightarrow> bool" where
  "ext A s t \<longleftrightarrow> (\<exists>es. is_trace t = is_trace s @ es \<and> list_all A es) \<and> is_limiter t = is_limiter s"

lemma ext_refl [simp]: "ext A s s"
  by (simp add: ext_def)

lemma ext_trans: "ext A s t \<Longrightarrow> ext A t u \<Longrightarrow> ext A s u"
  by (auto simp: ext_def)

lemma ext_mono: "ext A s t \<Longrightarrow> (\<And>e. A e \<Longrightarrow> B e) \<Longrightarrow> ext B s t"
  unfolding ext_def by (metis list.pred_mono_strong)

lemma ext_lit [simp]: "ext A s (s\<lparr>is_trace := is_trace s @ es\<rparr>) \<longleftrightarrow> list_all A es"
  by (auto simp: ext_def)

lemma ext_disturbed [simp]:
  "ext A s (t\<lparr>is_disturbed := b\<rparr>) = ext A s t" "ext A (s\<lparr>is_disturbed := b\<rparr>) t = ext A s t"
  "ext A s (t\<lparr>is_manifest := m\<rparr>) = ext A s t" "ext A (s\<lparr>is_manifest := m\<rparr>) t = ext A s t"
  by (simp_all add: ext_def)

text \<open>The events of an effect and of what follows one.\<close>

fun is_effect :: "event \<Rightarrow> bool" where
  "is_effect (Executed _ _) = True"
| "is_effect PreStateRecorded = True"
| "is_effect ExecLogged = True"
| "is_effect (Tripped_by _) = True"
| "is_effect (VerdictCommitted _) = True"
| "is_effect (ExecutionRecorded _ _) = True"
| "is_effect (GraduationRecorded _ _) = True"
| "is_effect _ = False"

fun is_exec :: "event \<Rightarrow> bool" where
  "is_exec (Executed _ _) = True"
| "is_exec _ = False"

definition quiet :: "event \<Rightarrow> bool" where
  "quiet e \<longleftrightarrow> \<not> is_effect e"

lemma quiet_simps [simp]:
  "quiet (LedgerRow d a w b)" "quiet (GateVerdict g v)" "quiet AskedMayActuate" "quiet (AskedPolicy x)" "quiet (AskedComposer h)"
  "quiet AskedBreaker" "quiet ForcedShadow" "quiet AskedChokepoint" "quiet LeaseGranted" "quiet LeaseReleased"
  "quiet (AdmissionAsked h ref)" "quiet (AdmissionReleased h ref d')" "quiet (Probed h)" "quiet Observed" "quiet ReadPreAnomalous"
  "quiet ReadStillFaulted" "quiet CapturedState"
  by (simp_all add: quiet_def)

text \<open>Something held at some point of the trace.\<close>

definition once :: "(trace \<Rightarrow> bool) \<Rightarrow> trace \<Rightarrow> bool" where
  "once P t \<longleftrightarrow> (\<exists>u. prefix u t \<and> P u)"

lemma once_now: "P t \<Longrightarrow> once P (t @ es)"
  by (auto simp: once_def prefix_def)

lemma once_here: "P t \<Longrightarrow> once P t"
  by (auto simp: once_def)

lemma once_append: "once P t \<Longrightarrow> once P (t @ es)"
  unfolding once_def by (meson prefix_prefix)

definition stable :: "(trace \<Rightarrow> bool) \<Rightarrow> bool" where
  "stable C \<longleftrightarrow> (\<forall>t es. C t \<longrightarrow> C (t @ es))"

lemma stable_once [simp]: "stable (once P)"
  by (simp add: stable_def once_append)

lemma stable_const [simp]: "stable (\<lambda>t. b)"
  by (simp add: stable_def)

section \<open>Gates\<close>

text \<open>A refusal on record: not executed, and its reason on a withheld ledger row.\<close>

definition refused_on_record :: "string \<Rightarrow> Outcome \<Rightarrow> trace \<Rightarrow> bool" where
  "refused_on_record aid out t \<longleftrightarrow>
     ot_Refused out \<and> \<not> ot_Executed out \<and> ot_ActionID out = aid \<and> ot_Verdict out = []
     \<and> (\<exists>why. ot_Reason out = RefusedBecause why
          \<and> LedgerRow ''actuate:refuse'' (if aid = [] then ''(no-action-id)'' else aid) (Some why) True \<in> set t)"

lemma refused_append: "refused_on_record aid out t \<Longrightarrow> refused_on_record aid out (t @ es)"
  by (auto simp: refused_on_record_def)

definition gate_post :: "string \<Rightarrow> ('a \<Rightarrow> trace \<Rightarrow> bool) \<Rightarrow> istate \<Rightarrow> Outcome + 'a \<Rightarrow> istate \<Rightarrow> bool" where
  "gate_post aid C s res s' \<longleftrightarrow>
     ext quiet s s'
     \<and> (case res of Inl out \<Rightarrow> refused_on_record aid out (is_trace s') | Inr x \<Rightarrow> C x (is_trace s'))"

definition gate_ok :: "string \<Rightarrow> 'a step \<Rightarrow> ('a \<Rightarrow> trace \<Rightarrow> bool) \<Rightarrow> bool" where
  "gate_ok aid m C \<longleftrightarrow> (\<forall>s. wp m (gate_post aid C s) s)"

lemma gate_post_refuse [simp]:
  "gate_post aid C s (Inl (refused_outcome aid why))
     (s\<lparr>is_trace := is_trace s @ es @ [LedgerRow ''actuate:refuse'' (if aid = [] then ''(no-action-id)'' else aid) (Some why) True]\<rparr>)
     \<longleftrightarrow> list_all quiet es"
  by (auto simp: gate_post_def refused_on_record_def refused_outcome_def)

lemma gate_post_pass [simp]:
  "gate_post aid C s (Inr x) (s\<lparr>is_trace := is_trace s @ es\<rparr>) \<longleftrightarrow> list_all quiet es \<and> C x (is_trace s @ es)"
  by (simp add: gate_post_def)

lemma gate_post_goOn [simp]: "gate_post aid C s (Inr x) s \<longleftrightarrow> C x (is_trace s)"
  by (simp add: gate_post_def)

lemma wp_refuseGate [wp_rules]:
  "wp (refuseGate aid g why) Q s \<longleftrightarrow>
     Q (Inl (refused_outcome aid why))
       (s\<lparr>is_trace := is_trace s @ [GateVerdict g ''refuse'',
           LedgerRow ''actuate:refuse'' (if aid = [] then ''(no-action-id)'' else aid) (Some why) True]\<rparr>)"
  by (simp add: refuseGate_def refuse_def wp_rules)

lemma wp_refuse [wp_rules]:
  "wp (refuse aid why) Q s \<longleftrightarrow>
     Q (Inl (refused_outcome aid why))
       (s\<lparr>is_trace := is_trace s @ [LedgerRow ''actuate:refuse'' (if aid = [] then ''(no-action-id)'' else aid) (Some why) True]\<rparr>)"
  by (simp add: refuse_def wp_rules)

lemma gate_post_refuses [simp]:
  "gate_post aid C s (Inl (refused_outcome aid why))
     (s\<lparr>is_trace := is_trace s @ [LedgerRow ''actuate:refuse'' (if aid = [] then ''(no-action-id)'' else aid) (Some why) True]\<rparr>)"
  "gate_post aid C s (Inl (refused_outcome aid why))
     (s\<lparr>is_trace := is_trace s @ [a, LedgerRow ''actuate:refuse'' (if aid = [] then ''(no-action-id)'' else aid) (Some why) True]\<rparr>)
     = quiet a"
  "gate_post aid C s (Inl (refused_outcome aid why))
     (s\<lparr>is_trace := is_trace s @ [a, b, LedgerRow ''actuate:refuse'' (if aid = [] then ''(no-action-id)'' else aid) (Some why) True]\<rparr>)
     = (quiet a \<and> quiet b)"
  "gate_post aid C s (Inl (refused_outcome aid why))
     (s\<lparr>is_trace := is_trace s @ [a, b, c, LedgerRow ''actuate:refuse'' (if aid = [] then ''(no-action-id)'' else aid) (Some why) True]\<rparr>)
     = (quiet a \<and> quiet b \<and> quiet c)"
  using gate_post_refuse [of aid C s why "[]"] gate_post_refuse [of aid C s why "[a]"] gate_post_refuse [of aid C s why "[a, b]"]
    gate_post_refuse [of aid C s why "[a, b, c]"]
  by simp_all

lemma gate_ok_bind:
  assumes "gate_ok aid m C" and "\<And>x. stable (C x)" and "\<And>x. gate_ok aid (f x) (\<lambda>y t. C x t \<longrightarrow> D y t)"
  shows "gate_ok aid (andThen m f) D"
  unfolding gate_ok_def
proof
  fix s :: istate
  have "wp m (gate_post aid C s) s" using assms(1) by (simp add: gate_ok_def)
  then show "wp (andThen m f) (gate_post aid D s) s" unfolding wp_andThen
  proof (rule wp_mono)
    fix res s'
    assume g: "gate_post aid C s res s'"
    show "case res of Inl out \<Rightarrow> gate_post aid D s (Inl out) s' | Inr x \<Rightarrow> wp (f x) (gate_post aid D s) s'"
    proof (cases res)
      case (Inl out)
      with g show ?thesis by (simp add: gate_post_def)
    next
      case (Inr x)
      have "wp (f x) (gate_post aid (\<lambda>y t. C x t \<longrightarrow> D y t) s') s'" using assms(3) by (simp add: gate_ok_def)
      moreover have "C x (is_trace s'')" if "ext quiet s' s''" for s''
        using g Inr assms(2) [of x] that unfolding stable_def by (auto simp only: gate_post_def ext_def sum.case)
      ultimately have "wp (f x) (gate_post aid D s) s'"
        using g Inr by (elim wp_mono) (auto simp: gate_post_def intro: ext_trans split: sum.splits)
      with Inr show ?thesis by simp
    qed
  qed
qed

lemma gate_ok_weaken: "gate_ok aid m C \<Longrightarrow> (\<And>x t. C x t \<Longrightarrow> D x t) \<Longrightarrow> gate_ok aid m D"
  unfolding gate_ok_def wp_def gate_post_def by (simp split: prod.splits sum.splits)

lemma gate_ok_then:
  assumes "gate_ok aid m C" and "\<And>x. gate_ok aid (f x) D" and "\<And>x. stable (C x)"
  shows "gate_ok aid (andThen m f) (\<lambda>y t. (\<exists>x. C x t) \<and> D y t)"
  by (rule gate_ok_bind [OF assms(1,3)]) (auto intro: gate_ok_weaken [OF assms(2)])

lemma gate_ok_inOrder:
  assumes "list_all2 (\<lambda>m C. gate_ok aid m (\<lambda>_. C) \<and> stable C) ms Cs"
  shows "gate_ok aid (inOrder ms) (\<lambda>_ t. list_all (\<lambda>C. C t) Cs)"
  using assms
proof (induction rule: list_all2_induct)
  case Nil
  show ?case by (simp add: gate_ok_def wp_rules)
next
  case (Cons m ms C Cs)
  from gate_ok_then [of aid m "\<lambda>_. C" "\<lambda>_. inOrder ms" "\<lambda>_ t. list_all (\<lambda>C. C t) Cs"] Cons
  show ?case by simp
qed

section \<open>What each gate proves\<close>

definition mode_at :: "Interceptor \<Rightarrow> trace \<Rightarrow> mode" where
  "mode_at i t = (case ic_modeNow i of None \<Rightarrow> ModeShadow | Some f \<Rightarrow> f t)"

text \<open>
  The policy engine allows the action at this point: it decides auto, or approve with an approval on record. An
  unwired engine is only passed while the mode permits no actuation.
\<close>

definition policy_allows :: "Interceptor \<Rightarrow> Request \<Rightarrow> ActionManifest \<Rightarrow> trace \<Rightarrow> bool" where
  "policy_allows i r m t \<longleftrightarrow>
     (case ic_decider i of
        None \<Rightarrow> \<not> ic_mayActuate i t
      | Some decide \<Rightarrow>
          (let d = decide t (policy_input i r m (mode_at i t)) in
           snd d = None \<and> (pd_verdict (fst d) = VerdictAuto \<or> pd_verdict (fst d) = VerdictApprove \<and> rq_Approved r)))"

definition identity_resolves :: "Interceptor \<Rightarrow> ActionManifest \<Rightarrow> trace \<Rightarrow> bool" where
  "identity_resolves i m t \<longleftrightarrow>
     (case ic_composer i of None \<Rightarrow> True | Some f \<Rightarrow> \<exists>rule. f t (ac_Target (the_action m)) = Inr rule)"

definition breaker_closed :: "Interceptor \<Rightarrow> trace \<Rightarrow> bool" where
  "breaker_closed i t \<longleftrightarrow> (case ic_breaker i of None \<Rightarrow> True | Some tripped \<Rightarrow> \<not> tripped t)"

definition host_matches :: "Interceptor \<Rightarrow> ActionManifest \<Rightarrow> bool" where
  "host_matches i m \<longleftrightarrow>
     (case ic_host i of None \<Rightarrow> True | Some h \<Rightarrow> trim_space h = [] \<or> trim_space h = trim_space (ac_Target (the_action m)))"

definition schema_holds :: "Interceptor \<Rightarrow> Request \<Rightarrow> ActionManifest \<Rightarrow> bool" where
  "schema_holds i r m \<longleftrightarrow>
     (case Lookup (ic_registry i) (ic_overlay i) (ac_OpClass (the_action m)) of
        None \<Rightarrow> True
      | Some spec \<Rightarrow> rq_Argv r \<noteq> [] \<and> Kind spec \<noteq> EffectAWXLaunch \<or> ValidateArgs spec (params_of (the_action m)) = None)"

definition gate_conditions :: "Interceptor \<Rightarrow> Request \<Rightarrow> ActionManifest \<Rightarrow> (trace \<Rightarrow> bool) list" where
  "gate_conditions i r m =
     [\<lambda>_. rq_Band r = BandPollPause \<longrightarrow> rq_Approved r,
      \<lambda>_. \<not> IsNeverAuto (ac_OpClass (the_action m)) \<and> ac_Reversible (the_action m) \<and> \<not> IsDestructiveOp (SafetyParts (the_action m)),
      \<lambda>_. IsStatefulWorkload (SafetyParts (the_action m)) \<longrightarrow> rq_Band r = BandPollPause,
      \<lambda>_. rq_Gated r \<and> Assert (ic_hash i) m (am_ActionID m) = None,
      \<lambda>_. schema_holds i r m,
      \<lambda>_. \<exists>e \<in> set (rq_Evidence r). evidence_Bound e,
      \<lambda>_. gr_allow (territory_ruling r m),
      \<lambda>_. rq_Observe r \<noteq> None,
      once (policy_allows i r m),
      once (identity_resolves i m),
      once (breaker_closed i),
      once (\<lambda>t. ic_guardMutation i t = None),
      \<lambda>_. host_matches i m]"

lemma anyBoundEvidence_iff: "anyBoundEvidence es \<longleftrightarrow> (\<exists>e \<in> set es. evidence_Bound e)"
  by (induction es) auto

lemma gate_oks:
  "gate_ok aid (admission_gate r aid) (\<lambda>_ _. rq_Band r = BandPollPause \<longrightarrow> rq_Approved r)"
  "gate_ok aid (floor_gate m aid) (\<lambda>_ _. \<not> IsNeverAuto (ac_OpClass (the_action m)) \<and> ac_Reversible (the_action m)
      \<and> \<not> IsDestructiveOp (SafetyParts (the_action m)))"
  "gate_ok aid (stateful_gate r m aid) (\<lambda>_ _. IsStatefulWorkload (SafetyParts (the_action m)) \<longrightarrow> rq_Band r = BandPollPause)"
  "gate_ok aid (structure_gate i r m aid) (\<lambda>_ _. rq_Gated r \<and> Assert (ic_hash i) m aid = None)"
  "gate_ok aid (schema_gate i r m aid) (\<lambda>_ _. schema_holds i r m)"
  "gate_ok aid (evidence_gate r aid) (\<lambda>_ _. \<exists>e \<in> set (rq_Evidence r). evidence_Bound e)"
  "gate_ok aid (territory_gate r m aid) (\<lambda>_ _. gr_allow (territory_ruling r m))"
  "gate_ok aid (verifiability_gate r aid) (\<lambda>_ _. rq_Observe r \<noteq> None)"
  "gate_ok aid (host_gate i m aid) (\<lambda>_ _. host_matches i m)"
  by (simp_all add: gate_ok_def wp_rules Let_def schema_holds_def host_matches_def anyBoundEvidence_iff
      admission_gate_def floor_gate_def stateful_gate_def structure_gate_def schema_gate_def evidence_gate_def
      territory_gate_def verifiability_gate_def host_gate_def split: option.split)

lemma gate_ok_compose: "gate_ok aid (compose_gate i m aid) (\<lambda>_. once (identity_resolves i m))"
  by (auto simp: gate_ok_def wp_rules compose_gate_def identity_resolves_def split: option.split sum.split intro!: once_now)

lemma gate_ok_breaker: "gate_ok aid (breaker_gate i aid) (\<lambda>_. once (breaker_closed i))"
  using once_here [of "breaker_closed i"]
  by (auto simp: gate_ok_def wp_rules breaker_gate_def breaker_closed_def split: option.split intro!: once_now)

lemma gate_ok_chokepoint: "gate_ok aid (chokepoint_gate i aid) (\<lambda>_. once (\<lambda>t. ic_guardMutation i t = None))"
  by (auto simp: gate_ok_def wp_rules chokepoint_gate_def intro!: once_now)

lemma gate_ok_policy: "gate_ok aid (policy_gate i r m aid) (\<lambda>_. once (policy_allows i r m))"
proof (cases "ic_decider i")
  case None
  then show ?thesis by (auto simp: gate_ok_def wp_rules policy_gate_def policy_allows_def intro!: once_now)
next
  case (Some decide)
  show ?thesis unfolding gate_ok_def
  proof
    fix s :: istate
    let ?d = "decide (is_trace s) (policy_input i r m (mode_at i (is_trace s)))"
    have w: "wp (policy_gate i r m aid) Q s
        \<longleftrightarrow> wp (policy_ruling r aid ?d) Q (s\<lparr>is_trace := is_trace s @ [AskedPolicy (policy_input i r m (mode_at i (is_trace s)))]\<rparr>)" for Q
      using Some by (simp add: policy_gate_def mode_at_def wp_def andThen_def ask_def Let_def)
    have "snd ?d = None \<and> (pd_verdict (fst ?d) = VerdictAuto \<or> pd_verdict (fst ?d) = VerdictApprove \<and> rq_Approved r)
        \<Longrightarrow> once (policy_allows i r m) (is_trace s @ es)" for es
      using Some by (intro once_now) (simp add: policy_allows_def Let_def)
    then show "wp (policy_gate i r m aid) (gate_post aid (\<lambda>_. once (policy_allows i r m)) s) s"
      by (simp add: w policy_ruling_def wp_rules Let_def split: option.split)
  qed
qed

lemma gates_ok: "gate_ok (am_ActionID m) (inOrder (gates i r m (am_ActionID m))) (\<lambda>_ t. list_all (\<lambda>C. C t) (gate_conditions i r m))"
  unfolding gates_def gate_conditions_def
  by (rule gate_ok_inOrder) (simp add: gate_oks [simplified] gate_ok_policy gate_ok_compose gate_ok_breaker gate_ok_chokepoint)

section \<open>Before the effect\<close>

definition target_reachable :: "Interceptor \<Rightarrow> ActionManifest \<Rightarrow> trace \<Rightarrow> bool" where
  "target_reachable i m t \<longleftrightarrow>
     (case ic_prober i of None \<Rightarrow> True | Some probe \<Rightarrow> fst (probe t (trim_space (ac_Target (the_action m)))))"

definition baseline_read :: "Request \<Rightarrow> trace \<Rightarrow> bool" where
  "baseline_read r t \<longleftrightarrow>
     (case rq_Observe r of None \<Rightarrow> False | Some f \<Rightarrow> snd (f t)) \<or> (case rq_PreAnomalous r of None \<Rightarrow> False | Some f \<Rightarrow> snd (f t))"

definition still_needed :: "Request \<Rightarrow> trace \<Rightarrow> bool" where
  "still_needed r t \<longleftrightarrow> (case rq_StillFaulted r of None \<Rightarrow> False | Some f \<Rightarrow> f t = (True, True))"

lemma gate_ok_reachability: "gate_ok aid (reachability_gate i m aid) (\<lambda>_. once (target_reachable i m))"
  using once_here [of "target_reachable i m"]
  by (auto simp: gate_ok_def wp_rules reachability_gate_def target_reachable_def Let_def split: option.split prod.split intro!: once_now)

lemma gate_ok_necessity: "gate_ok aid (necessity_gate r aid) (\<lambda>_. once (still_needed r))"
  by (auto simp: gate_ok_def wp_rules necessity_gate_def still_needed_def split: option.split prod.split intro!: once_now)

lemma wp_read_twice [wp_rules]:
  "wp (read_twice e f) Q s \<longleftrightarrow>
     (if snd (f (is_trace s)) then Q (Inr (f (is_trace s))) (s\<lparr>is_trace := is_trace s @ [e]\<rparr>)
      else Q (Inr (f (is_trace s @ [e]))) (s\<lparr>is_trace := is_trace s @ [e, e]\<rparr>))"
  by (simp add: read_twice_def wp_rules)

lemma gate_ok_read_twice:
  assumes "quiet e"
  shows "gate_ok aid (read_twice e f) (\<lambda>res t. snd res \<longrightarrow> once (\<lambda>t. snd (f t)) t)"
  using assms once_now [of "\<lambda>t. snd (f t)" "t @ [e]" "[e]" for t]
  by (auto simp: gate_ok_def wp_rules intro: once_now)

lemma once_mono: "once P t \<Longrightarrow> (\<And>t. P t \<Longrightarrow> Q t) \<Longrightarrow> once Q t"
  by (auto simp: once_def)

lemma stable_imp [simp]: "stable C \<Longrightarrow> stable (\<lambda>t. b \<longrightarrow> C t)"
  by (simp add: stable_def)

lemma gate_ok_baseline: "gate_ok aid (baseline_gate r aid) (\<lambda>_. once (baseline_read r))"
proof (cases "rq_Observe r")
  case None
  then show ?thesis by (simp add: baseline_gate_def gate_ok_def wp_rules)
next
  case (Some observe)
  have arm: "gate_ok aid (case rq_PreAnomalous r of None \<Rightarrow> goOn (\<lambda>_. False, False) | Some f \<Rightarrow> read_twice ReadPreAnomalous f)
      (\<lambda>res t. snd res \<longrightarrow> once (baseline_read r) t)"
  proof (cases "rq_PreAnomalous r")
    case None
    then show ?thesis by (simp add: gate_ok_def wp_rules)
  next
    case (Some f)
    then have "snd (f t) \<Longrightarrow> baseline_read r t" for t by (simp add: baseline_read_def)
    with Some gate_ok_read_twice [of ReadPreAnomalous aid f] show ?thesis
      by (auto elim!: gate_ok_weaken intro: once_mono)
  qed
  have obs: "gate_ok aid (read_twice Observed observe) (\<lambda>res t. snd res \<longrightarrow> once (baseline_read r) t)"
    using Some gate_ok_read_twice [of Observed aid observe]
    by (auto elim!: gate_ok_weaken once_mono simp: baseline_read_def)
  show ?thesis
    unfolding baseline_gate_def Some option.case
    by (rule gate_ok_bind [OF obs], simp, rule gate_ok_bind [OF arm], simp) (auto simp: gate_ok_def wp_rules once_append)
qed

lemma gate_ok_capture: "gate_ok aid (capture_state r aid) (\<lambda>_ _. True)"
  by (auto simp: gate_ok_def wp_rules capture_state_def split: option.split prod.split)

section \<open>After the effect\<close>

definition row_label :: "string \<Rightarrow> string" where
  "row_label aid = (if aid = [] then ''(no-action-id)'' else aid)"

text \<open>Events that may follow the effect: anything but a second effect.\<close>

definition after :: "event \<Rightarrow> bool" where
  "after e \<longleftrightarrow> \<not> is_exec e"

lemma quiet_after: "quiet e \<Longrightarrow> after e"
  by (cases e) (auto simp: quiet_def after_def)

text \<open>A step that only appends events, and what it says of its result and of the events it appends.\<close>

definition adds :: "'a step \<Rightarrow> (Outcome + 'a \<Rightarrow> trace \<Rightarrow> bool) \<Rightarrow> bool" where
  "adds m P \<longleftrightarrow>
     (\<forall>s. wp m (\<lambda>res s'. (\<exists>es. is_trace s' = is_trace s @ es \<and> list_all after es \<and> P res es) \<and> is_limiter s' = is_limiter s) s)"

lemma adds_then:
  assumes "adds m P" and "\<And>x. adds (f x) (Q x)" and "\<And>out es. P (Inl out) es \<Longrightarrow> R (Inl out) es"
    and "\<And>x res es es'. P (Inr x) es \<Longrightarrow> Q x res es' \<Longrightarrow> R res (es @ es')"
  shows "adds (andThen m f) R"
  unfolding adds_def wp_def
proof (clarify)
  fix s res u
  assume run: "andThen m f s = (res, u)"
  obtain r1 s1 where m: "m s = (r1, s1)" by (metis prod.exhaust)
  with assms(1) obtain es where es: "is_trace s1 = is_trace s @ es" "list_all after es" "P r1 es" "is_limiter s1 = is_limiter s"
    by (auto simp: adds_def wp_def split: prod.splits)
  show "(\<exists>es. is_trace u = is_trace s @ es \<and> list_all after es \<and> R res es) \<and> is_limiter u = is_limiter s"
  proof (cases r1)
    case (Inl out)
    with run m es assms(3) show ?thesis by (auto simp: andThen_def)
  next
    case (Inr x)
    with run m have "f x s1 = (res, u)" by (simp add: andThen_def)
    with assms(2) [of x] obtain es' where "is_trace u = is_trace s1 @ es'" "list_all after es'" "Q x res es'" "is_limiter u = is_limiter s1"
      by (auto simp: adds_def wp_def split: prod.splits)
    with es Inr assms(4) show ?thesis by (intro conjI exI [of _ "es @ es'"]) auto
  qed
qed

lemma adds_choice: "adds m P \<Longrightarrow> adds n P \<Longrightarrow> adds (\<lambda>s. if b s then m s else n s) P"
  by (simp add: adds_def wp_def)

lemma adds_weaken: "adds m P \<Longrightarrow> (\<And>res es. P res es \<Longrightarrow> Q res es) \<Longrightarrow> adds m Q"
  unfolding adds_def wp_def by (fastforce split: prod.splits)

lemma adds_emitEvent: "after e \<Longrightarrow> P (Inr ()) [e] \<Longrightarrow> adds (emitEvent e) P"
  by (simp add: adds_def wp_rules)

lemma adds_goOn: "P (Inr x) [] \<Longrightarrow> adds (goOn x) P"
  by (simp add: adds_def wp_rules)

text \<open>
  What a run that computed the verdict \<open>v\<close> may tell others: the ladder hears of nothing but a verified
  deviation, and only this verdict is committed, and only when verified.
\<close>

definition lawful :: "verdict \<Rightarrow> bool \<Rightarrow> trace \<Rightarrow> bool" where
  "lawful v verified es \<longleftrightarrow>
     (\<forall>op oc. GraduationRecorded op oc \<in> set es \<longrightarrow> oc = OutcomeDeviated \<and> v = VerdictDeviation \<and> verified)
     \<and> (\<forall>w. VerdictCommitted w \<in> set es \<longrightarrow> w = v \<and> verified)"

definition breaker_told :: "Interceptor \<Rightarrow> verdict \<Rightarrow> trace \<Rightarrow> bool" where
  "breaker_told i v es \<longleftrightarrow> (v = VerdictDeviation \<and> ic_breaker i \<noteq> None \<longrightarrow> (\<exists>why. Tripped_by why \<in> set es))"

definition on_ledger :: "string \<Rightarrow> trace \<Rightarrow> bool" where
  "on_ledger aid es \<longleftrightarrow> (\<exists>d why w. LedgerRow d (row_label aid) why w \<in> set es)"

lemma lawful_append [simp]: "lawful v verified (es @ fs) \<longleftrightarrow> lawful v verified es \<and> lawful v verified fs"
  by (auto simp: lawful_def)

lemma told_append: "breaker_told i v es \<or> breaker_told i v fs \<Longrightarrow> breaker_told i v (es @ fs)"
  by (auto simp: breaker_told_def)

lemma on_ledger_append [simp]: "on_ledger aid (es @ fs) \<longleftrightarrow> on_ledger aid es \<or> on_ledger aid fs"
  by (auto simp: on_ledger_def)

definition concluded :: "Interceptor \<Rightarrow> string \<Rightarrow> verdict \<Rightarrow> bool \<Rightarrow> Outcome \<Rightarrow> trace \<Rightarrow> bool" where
  "concluded i aid v verified out es \<longleftrightarrow>
     ot_Executed out \<and> \<not> ot_Refused out \<and> ot_ActionID out = aid
     \<and> (ot_Verdict out = v \<or> \<not> verified \<and> ot_Verdict out = [])
     \<and> lawful v verified es \<and> breaker_told i v es \<and> on_ledger aid es"

definition ended :: "(Outcome \<Rightarrow> trace \<Rightarrow> bool) \<Rightarrow> Outcome + 'a \<Rightarrow> trace \<Rightarrow> bool" where
  "ended P res es \<longleftrightarrow> (case res of Inl out \<Rightarrow> P out es | Inr _ \<Rightarrow> True)"

lemmas tail_defs = wp_rules record_execution_def tripBreaker_def recordGraduation_def commit_verdict_def outcome_of_def
  executed_outcome_def row_label_def after_def lawful_def breaker_told_def on_ledger_def concluded_def

lemma deviated_iff: "OutcomeFromVerdict v verified = OutcomeDeviated \<longleftrightarrow> verified \<and> v = VerdictDeviation"
  by (simp add: OutcomeFromVerdict_def tg_consts)

lemma adds_row: "adds (record_row d aid why w) (\<lambda>res es. (\<exists>x. res = Inr x) \<and> lawful v verified es \<and> on_ledger aid es)"
  by (simp add: adds_def tail_defs)

lemma adds_trip: "adds (tripBreaker i why) (\<lambda>res es. (\<exists>x. res = Inr x) \<and> lawful v verified es \<and> breaker_told i v es)"
  by (cases "ic_breaker i") (simp_all add: adds_def tail_defs)

lemma adds_execution: "adds (record_execution i aid v' verified' label) (\<lambda>res es. (\<exists>x. res = Inr x) \<and> lawful v verified es)"
  by (cases "ic_executions i") (auto simp: adds_def tail_defs)

lemma adds_graduation: "adds (recordGraduation i opClass aid v verified) (\<lambda>res es. (\<exists>x. res = Inr x) \<and> lawful v verified es)"
  by (cases "ic_grad i") (auto simp: adds_def tail_defs Let_def deviated_iff split: sum.split)

lemma adds_commit:
  "adds (commit_verdict i aid v verified)
     (\<lambda>res es. case res of Inl out \<Rightarrow> concluded i aid v verified out es | Inr _ \<Rightarrow> lawful v verified es)"
  by (cases "ic_breaker i"; cases "ic_verdicts i"; cases verified) (auto simp: adds_def tail_defs)

lemma adds_chain_gap: "adds (chain_gap i aid v verified label) (\<lambda>res es. concluded i aid v verified (outcome_of res) es)"
  by (cases "ic_executions i"; cases "ic_breaker i") (auto simp: adds_def chain_gap_def tail_defs)

lemma adds_conclude: "adds (conclude i r m aid v verified label) (\<lambda>res es. concluded i aid v verified (outcome_of res) es)"
proof -
  let ?L = "\<lambda>res es. (\<exists>x. res = Inr x) \<and> lawful v verified es"
  have dev: "adds (if v = VerdictDeviation then tripBreaker i why else goOn ()) (\<lambda>res es. (\<exists>x. res = Inr x) \<and> lawful v verified es \<and> breaker_told i v es)" for why
  proof (cases "v = VerdictDeviation")
    case True
    show ?thesis unfolding if_P [OF True] by (rule adds_trip)
  next
    case False
    show ?thesis unfolding if_not_P [OF False] using False by (intro adds_goOn) (simp add: lawful_def breaker_told_def)
  qed
  have fin: "adds (goOn ()) ?L" by (simp add: adds_goOn lawful_def)
  have g: "adds (inOrder [recordGraduation i opc aid v verified]) ?L" for opc
    unfolding inOrder.simps by (rule adds_then [OF adds_graduation fin]) auto
  have t: "adds (inOrder [if v = VerdictDeviation then tripBreaker i why else goOn (), recordGraduation i opc aid v verified])
      (\<lambda>res es. (\<exists>x. res = Inr x) \<and> lawful v verified es \<and> breaker_told i v es)" for why opc
    unfolding inOrder.simps(2) [of _ "[_]"] by (rule adds_then [OF dev g]) (auto intro: told_append)
  have r: "adds (inOrder [record_row d aid None False, if v = VerdictDeviation then tripBreaker i why else goOn (),
        recordGraduation i opc aid v verified])
      (\<lambda>res es. (\<exists>x. res = Inr x) \<and> lawful v verified es \<and> breaker_told i v es \<and> on_ledger aid es)" for d why opc
    unfolding inOrder.simps(2) [of _ "[_, _]"] by (rule adds_then [OF adds_row t]) (auto intro: told_append)
  have e: "adds (inOrder [record_execution i aid v verified label, record_row d aid None False,
        if v = VerdictDeviation then tripBreaker i why else goOn (), recordGraduation i opc aid v verified])
      (\<lambda>res es. (\<exists>x. res = Inr x) \<and> lawful v verified es \<and> breaker_told i v es \<and> on_ledger aid es)" for d why opc
    unfolding inOrder.simps(2) [of _ "[_, _, _]"] by (rule adds_then [OF adds_execution r]) (auto intro: told_append)
  have c: "adds (inOrder [commit_verdict i aid v verified, record_execution i aid v verified label, record_row d aid None False,
        if v = VerdictDeviation then tripBreaker i why else goOn (), recordGraduation i opc aid v verified])
      (\<lambda>res es. case res of Inl out \<Rightarrow> concluded i aid v verified out es
         | Inr _ \<Rightarrow> lawful v verified es \<and> breaker_told i v es \<and> on_ledger aid es)" for d why opc
    unfolding inOrder.simps(2) [of _ "[_, _, _, _]"] by (rule adds_then [OF adds_commit e]) (auto intro: told_append)
  show ?thesis unfolding conclude_def
    by (rule adds_then [OF c adds_goOn [where P = "\<lambda>res es. es = [] \<and> res = Inr (executed_outcome aid (if verified then v else []) NoReason)"]])
       (auto simp: outcome_of_def concluded_def executed_outcome_def)
qed

section \<open>The effect\<close>

text \<open>A failed or empty effect leaves the ladder, the verdict and the breaker alone.\<close>

definition after_effect :: "Interceptor \<Rightarrow> string \<Rightarrow> Outcome \<Rightarrow> trace \<Rightarrow> bool" where
  "after_effect i aid out es \<longleftrightarrow>
     (\<not> ot_Executed out \<and> list_all quiet es \<and> on_ledger aid es
        \<and> (refused_on_record aid out es \<or> \<not> ot_Refused out \<and> ot_Reason out = AlreadyInState \<and> ot_ActionID out = aid \<and> ot_Verdict out = []))
     \<or> (\<exists>v verified. concluded i aid v verified out es)"

definition exec_answer :: "string \<Rightarrow> exec_error + exec_result \<Rightarrow> unit step" where
  "exec_answer aid res =
     (case res of
          Inl (CancelledErr e) \<Rightarrow> execute_failed aid (ExecCancelled e) True
        | Inl (OtherErr e) \<Rightarrow> execute_failed aid (ExecFailed e) False
        | Inr er \<Rightarrow>
            if er_ExitCode er \<noteq> 0 then execute_failed aid (ExecExit (er_ExitCode er)) False
            else if er_NoOp er then
              inOrder [emitGate ''execute'' ''no-op'', record_row ''actuate:no-op'' aid None False,
                       stop \<lparr>ot_Executed = False, ot_Refused = False, ot_Reason = AlreadyInState, ot_Verdict = [],
                             ot_ActionID = aid, ot_RateLimited = False, ot_Cancelled = False\<rparr>]
            else pass ''execute'')"

lemma execute_alt:
  "execute i r aid = andThen (ask (Executed (rq_Argv r) (rq_Stdin r)) (\<lambda>t. ic_exec i t (rq_Argv r) (rq_Stdin r))) (exec_answer aid)"
  unfolding execute_def exec_answer_def ..

definition told_nobody :: "trace \<Rightarrow> bool" where
  "told_nobody es \<longleftrightarrow> (\<forall>v verified. lawful v verified es)"

lemma told_nobody_alt:
  "told_nobody es \<longleftrightarrow> (\<forall>op oc. GraduationRecorded op oc \<notin> set es) \<and> (\<forall>w. VerdictCommitted w \<notin> set es)"
  unfolding told_nobody_def lawful_def by blast

lemma adds_failed: "adds (execute_failed aid why c) (\<lambda>res es. case res of Inl out \<Rightarrow> after_effect i aid out es | Inr _ \<Rightarrow> False)"
  by (auto simp: adds_def execute_failed_def wp_rules after_effect_def outcome_of_def refused_outcome_def refused_on_record_def
      on_ledger_def row_label_def after_def)

lemma adds_exec_answer:
  "adds (exec_answer aid res) (\<lambda>res es. case res of Inl out \<Rightarrow> after_effect i aid out es | Inr _ \<Rightarrow> told_nobody es)"
proof -
  have f: "adds (execute_failed aid why c) (\<lambda>res es. case res of Inl out \<Rightarrow> after_effect i aid out es | Inr _ \<Rightarrow> told_nobody es)" for why c
    by (rule adds_weaken [OF adds_failed [of aid why c i]]) (simp split: sum.splits)
  have n: "adds (inOrder [emitGate ''execute'' ''no-op'', record_row ''actuate:no-op'' aid None False,
                       stop \<lparr>ot_Executed = False, ot_Refused = False, ot_Reason = AlreadyInState, ot_Verdict = [],
                             ot_ActionID = aid, ot_RateLimited = False, ot_Cancelled = False\<rparr>])
      (\<lambda>res es. case res of Inl out \<Rightarrow> after_effect i aid out es | Inr _ \<Rightarrow> told_nobody es)"
    by (auto simp: adds_def wp_rules after_effect_def on_ledger_def row_label_def after_def)
  have p: "adds (pass ''execute'') (\<lambda>res es. case res of Inl out \<Rightarrow> after_effect i aid out es | Inr _ \<Rightarrow> told_nobody es)"
    by (simp add: adds_def wp_rules told_nobody_alt after_def)
  show ?thesis unfolding exec_answer_def
    by (cases res) (simp_all only: sum.case f n p split: exec_error.split if_split, simp_all add: f n p)
qed

lemma adds_pre_state: "adds (record_pre_state i aid p) (\<lambda>res es. (\<exists>x. res = Inr x) \<and> told_nobody es)"
  by (cases "ic_preStates i"; cases p) (auto simp: adds_def record_pre_state_def wp_rules told_nobody_alt after_def)

lemma adds_exec_log: "adds (record_exec_log i r aid) (\<lambda>res es. (\<exists>x. res = Inr x) \<and> told_nobody es)"
  by (cases "ic_execLog i") (auto simp: adds_def record_exec_log_def wp_rules told_nobody_alt after_def split: sum.split prod.split)

lemma adds_stage: "adds (record_stage i stage payload) (\<lambda>res es. (\<exists>x. res = Inr x) \<and> es = [])"
  by (auto simp: adds_def wp_def record_stage_def split: prod.splits)

lemma adds_ask: "after e \<Longrightarrow> adds (ask e f) (\<lambda>res es. (\<exists>x. res = Inr x) \<and> es = [e])"
  by (simp add: adds_def wp_rules)

lemma adds_verify:
  "adds (verify_effect i r m aid base) (\<lambda>res es. \<exists>v verified. concluded i aid v verified (outcome_of res) es)"
proof -
  let ?R = "\<lambda>res es. \<exists>v verified. concluded i aid v verified (outcome_of res) es"
  have pre: "concluded i aid v verified out (es @ es')" if "concluded i aid v verified out es'" "told_nobody es" for v verified out es es'
    using that by (auto simp: concluded_def told_nobody_def intro: told_append)
  have fin: "adds (\<lambda>s. if b s then chain_gap i aid v verified label s else conclude i r m aid v verified label s) ?R" for b v verified label
    by (rule adds_choice; rule adds_weaken, rule adds_chain_gap adds_conclude, blast)
  have ver: "adds (andThen (record_stage i stage payload) (\<lambda>e. \<lambda>s. if b e s then chain_gap i aid v verified label s else conclude i r m aid v verified label s)) ?R"
    for b v verified label stage payload
    by (rule adds_then [OF adds_stage fin]) auto
  have gate: "adds (andThen (emitGate g l) (\<lambda>_. andThen (record_stage i stage payload)
        (\<lambda>e. \<lambda>s. if b e s then chain_gap i aid v verified label s else conclude i r m aid v verified label s))) ?R"
    for g l b v verified label stage payload
  proof (rule adds_then [OF _ ver])
    show "adds (emitGate g l) (\<lambda>res es. (\<exists>x. res = Inr x) \<and> told_nobody es)"
      by (simp add: adds_def wp_rules told_nobody_alt after_def)
  qed (use pre in blast)+
  have obs: "adds (andThen (ask Observed f) (\<lambda>(observed, verified). k observed verified)) ?R"
    if "\<And>observed verified. adds (k observed verified) ?R" for f k
  proof (rule adds_then [OF adds_ask])
    show "adds (case x of (observed, verified) \<Rightarrow> k observed verified) ?R" for x by (cases x) (simp only: prod.case that)
    show "?R res (es @ es')" if "(\<exists>x. Inr x' = Inr x) \<and> es = [Observed]" "?R res es'" for x' res es es'
    proof -
      have "told_nobody es" using that(1) by (simp add: told_nobody_alt)
      with that(2) pre show ?thesis by blast
    qed
  qed (auto simp: after_def)
  show ?thesis unfolding verify_effect_def Let_def
    by (rule adds_then [OF adds_stage obs [OF gate]]) auto
qed

lemma adds_tail:
  "adds (andThen (exec_answer aid ans) (\<lambda>_. andThen (record_pre_state i aid p) (\<lambda>_. andThen (record_exec_log i r aid) (\<lambda>_.
      verify_effect i r m aid base)))) (\<lambda>res es. after_effect i aid (outcome_of res) es)"
proof -
  let ?R = "\<lambda>res es. \<exists>v verified. concluded i aid v verified (outcome_of res) es"
  have pre: "\<exists>v verified. concluded i aid v verified out (es @ es')"
    if "\<exists>v verified. concluded i aid v verified out es'" "told_nobody es" for out es es'
    using that by (auto simp: concluded_def told_nobody_def intro: told_append)
  have l: "adds (andThen (record_exec_log i r aid) (\<lambda>_. verify_effect i r m aid base)) ?R"
    by (rule adds_then [OF adds_exec_log adds_verify]) (use pre in blast)+
  have s: "adds (andThen (record_pre_state i aid p) (\<lambda>_. andThen (record_exec_log i r aid) (\<lambda>_. verify_effect i r m aid base))) ?R"
    by (rule adds_then [OF adds_pre_state l]) (use pre in blast)+
  show ?thesis
  proof (rule adds_then [OF adds_exec_answer [of aid ans i] s], goal_cases)
    case 1
    then show ?case by (simp add: outcome_of_def)
  next
    case 2
    then show ?case unfolding after_effect_def sum.case using pre by blast
  qed
qed

lemma andThen_assoc: "andThen (andThen m f) g = andThen m (\<lambda>x. andThen (f x) g)"
  by (auto simp: andThen_def fun_eq_iff split: prod.splits sum.splits)

section \<open>Around the effect\<close>

text \<open>
  A run either never touched the target and is refused on record, or it called the actuator exactly once, with
  the request's fixed vector, after everything in \<open>C\<close> had been established.
\<close>

definition run_trace :: "Interceptor \<Rightarrow> Request \<Rightarrow> string \<Rightarrow> (trace \<Rightarrow> bool) \<Rightarrow> trace \<Rightarrow> Outcome \<Rightarrow> trace \<Rightarrow> bool" where
  "run_trace i r aid C t0 out t \<longleftrightarrow>
     (\<exists>es. t = t0 @ es \<and> list_all quiet es \<and> refused_on_record aid out t)
     \<or> (\<exists>pre es. t = t0 @ pre @ Executed (rq_Argv r) (rq_Stdin r) # es \<and> list_all quiet pre \<and> C (t0 @ pre)
          \<and> list_all after es \<and> after_effect i aid out es)"

definition run_post :: "Interceptor \<Rightarrow> Request \<Rightarrow> string \<Rightarrow> (trace \<Rightarrow> bool) \<Rightarrow> istate \<Rightarrow> Outcome + Outcome \<Rightarrow> istate \<Rightarrow> bool" where
  "run_post i r aid C s res s' \<longleftrightarrow>
     run_trace i r aid C (is_trace s) (outcome_of res) (is_trace s') \<and> is_limiter s' = is_limiter s"

lemma concluded_append:
  assumes "concluded i aid v verified out es" and "quiet e"
  shows "concluded i aid v verified out (es @ [e])"
proof -
  have "lawful v verified [e]" using assms(2) by (auto simp: lawful_def quiet_def)
  then show ?thesis using assms(1) by (simp add: concluded_def told_append)
qed

lemma after_effect_append:
  assumes "after_effect i aid out es" and "quiet e"
  shows "after_effect i aid out (es @ [e])"
  using assms concluded_append [OF _ assms(2)] refused_append [of aid out es "[e]"] list.pred_inject(1) [of quiet]
  unfolding after_effect_def list_all_append list.pred_inject(2) on_ledger_append by blast

lemma run_trace_append:
  assumes "run_trace i r aid C t0 out t" and "quiet e"
  shows "run_trace i r aid C t0 out (t @ [e])"
  using assms unfolding run_trace_def
proof (elim disjE exE conjE)
  fix pre es
  assume a: "t = t0 @ pre @ Executed (rq_Argv r) (rq_Stdin r) # es" "list_all quiet pre" "C (t0 @ pre)" "list_all after es"
    "after_effect i aid out es"
  show "(\<exists>es. t @ [e] = t0 @ es \<and> list_all quiet es \<and> refused_on_record aid out (t @ [e]))
     \<or> (\<exists>pre es. t @ [e] = t0 @ pre @ Executed (rq_Argv r) (rq_Stdin r) # es \<and> list_all quiet pre \<and> C (t0 @ pre)
          \<and> list_all after es \<and> after_effect i aid out es)"
    using a after_effect_append [OF a(5) assms(2)] quiet_after [OF assms(2)]
    by (intro disjI2 exI [of _ pre] exI [of _ "es @ [e]"]) simp
next
  fix es
  assume a: "t = t0 @ es" "list_all quiet es" "refused_on_record aid out t"
  show "(\<exists>es. t @ [e] = t0 @ es \<and> list_all quiet es \<and> refused_on_record aid out (t @ [e]))
     \<or> (\<exists>pre es. t @ [e] = t0 @ pre @ Executed (rq_Argv r) (rq_Stdin r) # es \<and> list_all quiet pre \<and> C (t0 @ pre)
          \<and> list_all after es \<and> after_effect i aid out es)"
    using a(1,2) assms(2) refused_append [OF a(3), of "[e]"] by (intro disjI1 exI [of _ "es @ [e]"]) simp
qed

lemma run_trace_weaken: "run_trace i r aid C t0 out t \<Longrightarrow> (\<And>t. C t \<Longrightarrow> D t) \<Longrightarrow> run_trace i r aid D t0 out t"
  unfolding run_trace_def by blast

lemma run_trace_prepend:
  assumes "run_trace i r aid D (t0 @ es) out t" and "list_all quiet es" and "\<And>fs. C (t0 @ es @ fs)"
  shows "run_trace i r aid (\<lambda>t. C t \<and> D t) t0 out t"
  using assms(1) unfolding run_trace_def
proof (elim disjE exE conjE)
  fix pre fs
  assume "t = (t0 @ es) @ pre @ Executed (rq_Argv r) (rq_Stdin r) # fs" "list_all quiet pre" "D ((t0 @ es) @ pre)"
    "list_all after fs" "after_effect i aid out fs"
  then show "(\<exists>es. t = t0 @ es \<and> list_all quiet es \<and> refused_on_record aid out t)
     \<or> (\<exists>pre es. t = t0 @ pre @ Executed (rq_Argv r) (rq_Stdin r) # es \<and> list_all quiet pre \<and> (C (t0 @ pre) \<and> D (t0 @ pre))
          \<and> list_all after es \<and> after_effect i aid out es)"
    using assms(2,3) by (intro disjI2 exI [of _ "es @ pre"] exI [of _ fs]) simp
qed (use assms(2) in auto)

lemma gate_then_run:
  assumes "gate_ok aid m C" and "\<And>x. stable (C x)" and "\<And>x s. wp (f x) (run_post i r aid D s) s"
  shows "wp (andThen m f) (run_post i r aid (\<lambda>t. (\<exists>x. C x t) \<and> D t) s) s"
  unfolding wp_andThen
proof (rule wp_mono)
  show "wp m (gate_post aid C s) s" using assms(1) by (simp add: gate_ok_def)
next
  fix res s'
  assume g: "gate_post aid C s res s'"
  then obtain es where es: "is_trace s' = is_trace s @ es" "list_all quiet es" "is_limiter s' = is_limiter s"
    by (auto simp: gate_post_def ext_def)
  show "case res of Inl out \<Rightarrow> run_post i r aid (\<lambda>t. (\<exists>x. C x t) \<and> D t) s (Inl out) s'
      | Inr x \<Rightarrow> wp (f x) (run_post i r aid (\<lambda>t. (\<exists>x. C x t) \<and> D t) s) s'"
  proof (cases res)
    case (Inl out)
    with g es show ?thesis by (auto simp: run_post_def run_trace_def gate_post_def outcome_of_def)
  next
    case (Inr x)
    have c: "\<exists>x. C x (is_trace s @ es @ fs)" for fs
      using g Inr es(1) assms(2) [of x] by (auto simp: gate_post_def stable_def simp flip: append_assoc)
    have "wp (f x) (run_post i r aid D s') s'" by (rule assms(3))
    then have "wp (f x) (run_post i r aid (\<lambda>t. (\<exists>x. C x t) \<and> D t) s) s'"
    proof (rule wp_mono)
      fix res' u
      assume "run_post i r aid D s' res' u"
      then show "run_post i r aid (\<lambda>t. (\<exists>x. C x t) \<and> D t) s res' u"
        using es run_trace_prepend [of i r aid D "is_trace s" es _ _ "\<lambda>t. \<exists>x. C x t"] c by (auto simp: run_post_def)
    qed
    with Inr show ?thesis by simp
  qed
qed

lemma execute_then_run:
  "wp (andThen (execute i r aid) (\<lambda>_. andThen (record_pre_state i aid p) (\<lambda>_. andThen (record_exec_log i r aid) (\<lambda>_.
      verify_effect i r m aid base)))) (run_post i r aid (\<lambda>_. True) s) (s :: istate)"
proof -
  let ?e = "Executed (rq_Argv r) (rq_Stdin r)"
  let ?u = "s\<lparr>is_trace := is_trace s @ [?e]\<rparr>"
  have "wp (andThen (exec_answer aid ans) (\<lambda>_. andThen (record_pre_state i aid p) (\<lambda>_. andThen (record_exec_log i r aid) (\<lambda>_.
      verify_effect i r m aid base)))) (run_post i r aid (\<lambda>_. True) s) ?u" for ans
  proof (rule wp_mono)
    show "wp (andThen (exec_answer aid ans) (\<lambda>_. andThen (record_pre_state i aid p) (\<lambda>_. andThen (record_exec_log i r aid) (\<lambda>_.
      verify_effect i r m aid base)))) (\<lambda>res s'. (\<exists>es. is_trace s' = is_trace ?u @ es \<and> list_all after es
        \<and> after_effect i aid (outcome_of res) es) \<and> is_limiter s' = is_limiter ?u) ?u"
      using adds_tail unfolding adds_def by blast
  next
    fix res and s' :: istate
    assume "(\<exists>es. is_trace s' = is_trace ?u @ es \<and> list_all after es \<and> after_effect i aid (outcome_of res) es)
      \<and> is_limiter s' = is_limiter ?u"
    then show "run_post i r aid (\<lambda>_. True) s res s'"
      unfolding run_post_def run_trace_def by (auto intro: exI [of _ "[]"])
  qed
  then show ?thesis by (simp add: execute_alt andThen_assoc wp_ask wp_andThen [of "ask e f" for e f])
qed

definition effect_conditions :: "Interceptor \<Rightarrow> Request \<Rightarrow> ActionManifest \<Rightarrow> trace \<Rightarrow> bool" where
  "effect_conditions i r m t \<longleftrightarrow> once (target_reachable i m) t \<and> once (baseline_read r) t \<and> once (still_needed r) t"

lemma run_post_weaken: "wp b (run_post i r aid C s) s \<Longrightarrow> (\<And>t. C t \<Longrightarrow> D t) \<Longrightarrow> wp b (run_post i r aid D s) s"
  by (erule wp_mono) (auto simp: run_post_def intro: run_trace_weaken)

lemma effect_run: "wp (effect i r m aid) (run_post i r aid (effect_conditions i r m) s) s"
proof -
  note c = gate_then_run [OF gate_ok_capture stable_const execute_then_run]
  note n = gate_then_run [OF gate_ok_necessity stable_once c]
  note b = gate_then_run [OF gate_ok_baseline stable_once n]
  note e = gate_then_run [OF gate_ok_reachability stable_once b]
  show ?thesis unfolding effect_def by (rule run_post_weaken [OF e]) (simp add: effect_conditions_def)
qed

definition target_admitted :: "Interceptor \<Rightarrow> Request \<Rightarrow> ActionManifest \<Rightarrow> trace \<Rightarrow> bool" where
  "target_admitted i r m t \<longleftrightarrow>
     (case ic_admission i of None \<Rightarrow> True | Some admit \<Rightarrow> admit t (ac_Target (the_action m)) (rq_ExternalRef r) = None)"

lemma admission_run:
  assumes "\<And>s. wp body (run_post i r aid D s) s"
  shows "wp (with_admission i r m aid body) (run_post i r aid (\<lambda>t. once (target_admitted i r m) t \<and> D t) s) s"
proof (cases "ic_admission i")
  case None
  then have "once (target_admitted i r m) t" for t by (intro once_here) (simp add: target_admitted_def)
  with None assms show ?thesis by (auto simp: with_admission_def elim: run_post_weaken)
next
  case (Some admit)
  let ?target = "ac_Target (the_action m)" and ?ref = "rq_ExternalRef r"
  let ?D = "\<lambda>t. once (target_admitted i r m) t \<and> D t"
  have pass: "gate_ok aid (pass ''target-admission'') (\<lambda>_ _. True)" by (simp add: gate_ok_def wp_rules)
  have granted: "wp (andThen (pass ''target-admission'') (\<lambda>_. body)) (run_post i r aid D u) u" for u
    by (rule run_post_weaken [OF gate_then_run [OF pass stable_const assms]]) simp
  have released: "wp (\<lambda>s. case andThen (pass ''target-admission'') (\<lambda>_. body) s of
       (res, s') \<Rightarrow> (res, s'\<lparr>is_trace := is_trace s' @ [AdmissionReleased ?target ?ref (is_disturbed s')]\<rparr>))
     (run_post i r aid D u) u" for u
    using granted [of u] by (auto simp: wp_def run_post_def run_trace_append split: prod.splits)
  show ?thesis
    unfolding wp_def
  proof (clarify)
    fix res s'
    assume run: "with_admission i r m aid body s = (res, s')"
    let ?u = "s\<lparr>is_trace := is_trace s @ [AdmissionAsked ?target ?ref]\<rparr>"
    have pre: "run_post i r aid ?D s res v" if "run_post i r aid D ?u res v" "admit (is_trace s) ?target ?ref = None" for v
      using that Some run_trace_prepend [of i r aid D "is_trace s" "[AdmissionAsked ?target ?ref]" _ _ "once (target_admitted i r m)"]
        once_now [of "target_admitted i r m" "is_trace s"] by (auto simp: run_post_def target_admitted_def)
    show "run_post i r aid ?D s res s'"
    proof (cases "admit (is_trace s) ?target ?ref")
      case None
      with run Some released [of ?u] pre [of s'] show ?thesis
        by (simp add: with_admission_def andThen_def [of "ask e f" for e f] ask_def wp_def Let_def split: prod.splits)
    next
      case e: (Some e)
      have "refuseGate aid ''target-admission'' (AdmissionRefused e) ?u = (res, s')"
        using run Some e by (simp add: with_admission_def andThen_def [of "ask e f" for e f] ask_def Let_def)
      then show ?thesis
        by (auto simp: refuseGate_def refuse_def andThen_def emitGate_def emitEvent_def record_row_def stop_def run_post_def run_trace_def
            outcome_of_def refused_on_record_def refused_outcome_def)
    qed
  qed
qed

text \<open>What the lease does to the limiter: charged on admission, its in-flight slots returned at the end.\<close>

definition lease_settled :: "Interceptor \<Rightarrow> Request \<Rightarrow> ActionManifest \<Rightarrow> istate \<Rightarrow> istate \<Rightarrow> bool" where
  "lease_settled i r m s s' \<longleftrightarrow>
     (case Limiter.Admit (ic_now i (is_trace s)) (rq_ExternalRef r) (ac_Target (the_action m)) (is_limiter s) of
        (Inl _, l) \<Rightarrow> is_limiter s' = l
      | (Inr lease, l) \<Rightarrow> is_limiter s' = map_option (\<lambda>l. snd (Release lease l)) l)"

definition lease_granted :: "trace \<Rightarrow> bool" where
  "lease_granted t \<longleftrightarrow> LeaseGranted \<in> set t"

lemma lease_run:
  assumes "\<And>s. wp body (run_post i r aid D s) s" and "with_lease i r m aid body s = (res, s')"
  shows "run_trace i r aid (\<lambda>t. lease_granted t \<and> D t) (is_trace s) (outcome_of res) (is_trace s')" and "lease_settled i r m s s'"
proof -
  obtain ans l where ad: "Limiter.Admit (ic_now i (is_trace s)) (rq_ExternalRef r) (ac_Target (the_action m)) (is_limiter s) = (ans, l)"
    by (metis prod.exhaust)
  have "run_trace i r aid (\<lambda>t. lease_granted t \<and> D t) (is_trace s) (outcome_of res) (is_trace s') \<and> lease_settled i r m s s'"
  proof (cases ans)
    case (Inl why)
    with assms(2) ad show ?thesis
      by (auto simp: with_lease_def andThen_def emitGate_def emitEvent_def record_row_def stop_def goOn_def outcome_of_def
          run_trace_def refused_on_record_def refused_outcome_def lease_settled_def)
  next
    case (Inr lease)
    let ?u = "s\<lparr>is_limiter := l, is_trace := is_trace s @ [LeaseGranted, GateVerdict ''actuation-limit'' ''pass'']\<rparr>"
    obtain res1 s1 where b: "body ?u = (res1, s1)" by (metis prod.exhaust)
    have out: "res = res1" "s' = s1\<lparr>is_limiter := map_option (\<lambda>l. snd (Release lease l)) (is_limiter s1), is_trace := is_trace s1 @ [LeaseReleased]\<rparr>"
      using assms(2) ad Inr b by (simp_all add: with_lease_def andThen_def emitGate_def emitEvent_def pass_def goOn_def)
    have body: "run_trace i r aid D (is_trace ?u) (outcome_of res1) (is_trace s1)" "is_limiter s1 = is_limiter ?u"
      using wpD [OF assms(1) b] by (simp_all add: run_post_def)
    have "run_trace i r aid (\<lambda>t. lease_granted t \<and> D t) (is_trace s) (outcome_of res1) (is_trace s1)"
      using body(1) by (intro run_trace_prepend [where es = "[LeaseGranted, GateVerdict ''actuation-limit'' ''pass'']"]) (simp_all add: lease_granted_def)
    then have "run_trace i r aid (\<lambda>t. lease_granted t \<and> D t) (is_trace s) (outcome_of res) (is_trace s')"
      using out run_trace_append by simp
    then show ?thesis using out body(2) ad Inr by (simp add: lease_settled_def)
  qed
  then show "run_trace i r aid (\<lambda>t. lease_granted t \<and> D t) (is_trace s) (outcome_of res) (is_trace s')" and "lease_settled i r m s s'"
    by simp_all
qed

section \<open>The whole chain\<close>

text \<open>Everything the chain has established by the time the actuator is called.\<close>

definition cleared :: "Interceptor \<Rightarrow> Request \<Rightarrow> ActionManifest \<Rightarrow> trace \<Rightarrow> bool" where
  "cleared i r m t \<longleftrightarrow>
     list_all (\<lambda>C. C t) (gate_conditions i r m) \<and> lease_granted t \<and> once (target_admitted i r m) t \<and> effect_conditions i r m t"

definition slots_kept :: "ActuationLimiter option \<Rightarrow> ActuationLimiter option \<Rightarrow> bool" where
  "slots_kept l l' \<longleftrightarrow>
     (case (l, l') of
        (None, None) \<Rightarrow> True
      | (Some a, Some b) \<Rightarrow> counters_ok b \<and> (\<forall>k. in_flight b k = in_flight a k)
      | _ \<Rightarrow> False)"

lemma settled_keeps_slots:
  assumes "lease_settled i r m s s'" and "\<And>l. is_limiter s = Some l \<Longrightarrow> counters_ok l"
  shows "slots_kept (is_limiter s) (is_limiter s')"
proof (cases "is_limiter s")
  case None
  with assms(1) have "is_limiter s' = None" by (simp add: lease_settled_def Limiter.Admit_def)
  with None show ?thesis by (simp add: slots_kept_def)
next
  case (Some l)
  let ?now = "ic_now i (is_trace s)" and ?ref = "rq_ExternalRef r" and ?target = "ac_Target (the_action m)"
  have ok: "counters_ok l" using assms(2) Some .
  obtain ans l1 where ad: "Admit_live ?now ?ref ?target l = (ans, l1)" by (metis prod.exhaust)
  show ?thesis
  proof (cases ans)
    case (Inl why)
    then have "is_limiter s' = Some l1" using assms(1) Some ad by (simp add: lease_settled_def Limiter.Admit_def)
    moreover have "lm_inFlight l1 = lm_inFlight l" using Admit_live_refused(1) ad Inl by blast
    ultimately show ?thesis using ok Some by (simp add: slots_kept_def counters_ok_cong [of l1 l] in_flight_cong [of l1 l])
  next
    case (Inr lease)
    let ?sk = "scopeKey ''session'' ?ref" and ?tk = "scopeKey ''target'' ?target"
    note f = Admit_live_admitted [OF ad [unfolded Inr]]
    have l': "is_limiter s' = Some (release_key ?tk (release_key ?sk l1))"
      using assms(1) Some ad Inr f(1) by (simp add: lease_settled_def Limiter.Admit_def Release_def)
    note b1 = bump_facts [OF ok, of ?sk]
    note b2 = bump_facts [OF b1(1), of ?tk]
    have ok1: "counters_ok l1" using b2(1) counters_ok_cong [OF f(6)] by simp
    have fl: "in_flight l1 k = in_flight l k + (if k = ?sk \<or> k = ?tk then 1 else 0)" for k
      using in_flight_cong [OF f(6), of k] by (auto simp: b2(2) b1(2))
    have nn: "in_flight l k \<ge> 0" for k using ok by (auto simp: counters_ok_def in_flight_def split: option.splits dest!: map_of_SomeD)
    have p: "in_flight l1 ?sk > 0" "in_flight l1 ?tk > 0" using fl nn by (simp_all add: add_nonneg_pos)
    note rel = release_pair [OF ok1 p scopes_differ(1)]
    show ?thesis using l' Some rel(1,2) fl by (simp add: slots_kept_def)
  qed
qed

lemma chain_run:
  assumes "chain i r m s = (res, s')"
  shows "run_trace i r (am_ActionID m) (cleared i r m) (is_trace s) (outcome_of res) (is_trace s')"
    and "(\<And>l. is_limiter s = Some l \<Longrightarrow> counters_ok l) \<Longrightarrow> is_limiter s' = is_limiter s \<or> slots_kept (is_limiter s) (is_limiter s')"
proof -
  let ?aid = "am_ActionID m"
  obtain g s1 where g: "inOrder (gates i r m ?aid) s = (g, s1)" by (metis prod.exhaust)
  have post: "gate_post ?aid (\<lambda>_ t. list_all (\<lambda>C. C t) (gate_conditions i r m)) s g s1"
    using gates_ok [of m i r] g by (auto simp: gate_ok_def dest: wpD)
  then obtain es where es: "is_trace s1 = is_trace s @ es" "list_all quiet es" "is_limiter s1 = is_limiter s"
    by (auto simp: gate_post_def ext_def)
  have "run_trace i r ?aid (cleared i r m) (is_trace s) (outcome_of res) (is_trace s')
      \<and> (is_limiter s' = is_limiter s \<or> lease_settled i r m s1 s')"
  proof (cases g)
    case (Inl out)
    with assms g have "res = Inl out" "s' = s1" by (simp_all add: chain_def Let_def andThen_def)
    with Inl post es show ?thesis by (auto simp: run_trace_def gate_post_def outcome_of_def)
  next
    case (Inr x)
    with assms g have w: "with_lease i r m ?aid (with_admission i r m ?aid (effect i r m ?aid)) s1 = (res, s')"
      by (simp add: chain_def Let_def andThen_def)
    note run = lease_run [OF admission_run [OF effect_run] w]
    have c: "list_all (\<lambda>C. C (is_trace s @ es @ fs)) (gate_conditions i r m)" for fs
      using post Inr es(1) once_append [of _ "is_trace s @ es" fs] by (auto simp: gate_post_def gate_conditions_def)
    show ?thesis
      using run_trace_prepend [OF run(1) [unfolded es(1)] es(2), of "\<lambda>t. list_all (\<lambda>C. C t) (gate_conditions i r m)"] c run(2)
      by (auto elim!: run_trace_weaken simp: cleared_def)
  qed
  then show "run_trace i r ?aid (cleared i r m) (is_trace s) (outcome_of res) (is_trace s')"
    and "(\<And>l. is_limiter s = Some l \<Longrightarrow> counters_ok l) \<Longrightarrow> is_limiter s' = is_limiter s \<or> slots_kept (is_limiter s) (is_limiter s')"
    using settled_keeps_slots [of i r m s1 s'] es(3) by auto
qed

section \<open>A concrete run\<close>

definition demo_request_action :: Action where
  "demo_request_action = \<lparr>ac_Target = ''w1'', ac_OpClass = ''reload'', ac_Op = ''up'', ac_Params = None, ac_Reversible = True\<rparr>"

definition demo_manifest :: ActionManifest where
  "demo_manifest = seal ''id'' demo_request_action BandAuto ''p'' ''q''"

definition demo_interceptor :: Interceptor where
  "demo_interceptor =
     \<lparr>ic_wired = True, ic_hash = (\<lambda>_. ''id''), ic_registry = Map.empty, ic_overlay = Map.empty, ic_now = (\<lambda>t. int (length t)),
      ic_mayActuate = (\<lambda>_. True), ic_guardMutation = (\<lambda>_. None),
      ic_decider = Some (\<lambda>_ inp. ((failClosedDecision inp [] [])\<lparr>pd_verdict := VerdictAuto\<rparr>, None)),
      ic_modeNow = None, ic_objectGroups = None, ic_composer = None, ic_breaker = Some (\<lambda>_. False), ic_host = None,
      ic_admission = None, ic_prober = None, ic_exec = (\<lambda>_ _ _. Inr \<lparr>er_ExitCode = 0, er_NoOp = False\<rparr>), ic_preStates = None,
      ic_execLog = None, ic_verdicts = None, ic_executions = None, ic_grad = None\<rparr>"

text \<open>The alert that the run does not predict, seen only after the effect.\<close>

definition demo_observe :: "trace \<Rightarrow> ObservedAlert list \<times> bool" where
  "demo_observe t = (if list_ex is_exec t then [\<lparr>oa_Host = ''db9'', oa_Rule = ''HostDown'', oa_Site = []\<rparr>] else [], True)"

definition demo_request :: Request where
  "demo_request =
     \<lparr>rq_Manifest = Some demo_manifest, rq_ExternalRef = ''inc-1'', rq_InvertsActionID = [], rq_Gated = True,
      rq_Argv = [''up''], rq_Stdin = [],
      rq_Evidence = [\<lparr>ev_ToolResultID = ''t1'', ev_Captured = True, ev_Successful = True, ev_Recent = True, ev_Relevant = True\<rparr>],
      rq_Prediction = \<lparr>pr_ActionID = [], pr_PlanHash = [], pr_TargetHost = ''w1'', pr_Site = [], pr_PredictedHosts = [], pr_PredictedRules = []\<rparr>,
      rq_Observe = Some demo_observe, rq_PreAnomalous = None, rq_StillFaulted = Some (\<lambda>_. (True, True)), rq_CaptureState = None,
      rq_HostSite = None, rq_Confidence = Fin 1, rq_Acknowledged = {}, rq_Approved = False, rq_Band = BandAuto\<rparr>"

definition demo_start :: istate where
  "demo_start = \<lparr>is_trace = [], is_limiter = Some NewActuationLimiter, is_manifest = demo_manifest, is_disturbed = False\<rparr>"

lemma demo_clear:
  "\<not> IsNeverAuto (ac_OpClass demo_request_action)" "\<not> IsDestructiveOp (SafetyParts demo_request_action)"
  "\<not> IsStatefulWorkload (SafetyParts demo_request_action)" "gr_allow (territory_ruling demo_request demo_manifest)"
  "Assert (\<lambda>_. ''id'') demo_manifest ''id'' = None"
  by code_simp+

lemma demo_fields [simp]: "am_Action demo_manifest = demo_request_action" "am_ActionID demo_manifest = ''id''" "am_sealed demo_manifest" "am_Stages demo_manifest = []"
  by (simp_all add: demo_manifest_def seal_def)

lemma demo_gates:
  "\<exists>es. inOrder (gates demo_interceptor demo_request demo_manifest ''id'') (demo_start\<lparr>is_manifest := demo_manifest\<rparr>)
    = (Inr (), demo_start\<lparr>is_manifest := demo_manifest, is_trace := es\<rparr>) \<and> \<not> list_ex is_exec es"
  using demo_clear
  by (simp add: gates_def andThen_def goOn_def emitEvent_def ask_def pass_def emitGate_def admission_gate_def floor_gate_def
      stateful_gate_def structure_gate_def schema_gate_def evidence_gate_def territory_gate_def verifiability_gate_def policy_gate_def policy_ruling_def compose_gate_def
      breaker_gate_def chokepoint_gate_def host_gate_def Let_def Lookup_def evidence_Bound_def demo_interceptor_def demo_request_def demo_start_def
      demo_request_action_def)

lemma demo_verdict:
  "vd_Verdict (ComputeVerdictDetailScoped (rq_Prediction demo_request) [\<lparr>oa_Host = ''db9'', oa_Rule = ''HostDown'', oa_Site = []\<rparr>] [] (\<lambda>_. False) None) = VerdictDeviation"
  by code_simp

lemma demo_id: "ID (\<lambda>_. ''id'') demo_request_action = Inr ''id''"
  by code_simp

lemma demo_admit: "\<exists>lease l. Limiter.Admit now ref target (Some NewActuationLimiter) = (Inr lease, Some l)"
  by (simp add: Limiter.Admit_def NewActuationLimiter_def Admit_live_def check_scope_def in_flight_def pruneAtOrBefore_def
        DefaultActuationLimits_def Let_def)

lemma demo_run:
  "case Do demo_interceptor demo_request demo_start of (res, s') \<Rightarrow>
     (case res of None \<Rightarrow> False | Some out \<Rightarrow> ot_Executed out \<and> ot_Verdict out = VerdictDeviation) \<and> list_ex is_exec (is_trace s')"
proof -
  obtain es where g: "inOrder (gates demo_interceptor demo_request demo_manifest ''id'') (demo_start\<lparr>is_manifest := demo_manifest\<rparr>)
    = (Inr (), demo_start\<lparr>is_manifest := demo_manifest, is_trace := es\<rparr>)" and q: "\<not> list_ex is_exec es"
    using demo_gates by blast
  obtain lease l where ad: "Limiter.Admit (int (length es)) ''inc-1'' ''w1'' (Some NewActuationLimiter) = (Inr lease, Some l)"
    using demo_admit by blast
  have s: "chain_SelfTest demo_interceptor" "rq_Manifest demo_request = Some demo_manifest" by (simp_all add: chain_SelfTest_def demo_interceptor_def demo_request_def)
  have e: "case with_lease demo_interceptor demo_request demo_manifest ''id'' (with_admission demo_interceptor demo_request demo_manifest ''id''
      (effect demo_interceptor demo_request demo_manifest ''id'')) (demo_start\<lparr>is_manifest := demo_manifest, is_trace := es\<rparr>) of (res, s') \<Rightarrow>
      ot_Executed (outcome_of res) \<and> ot_Verdict (outcome_of res) = VerdictDeviation \<and> list_ex is_exec (is_trace s')"
    using q ad demo_verdict demo_id
    by (simp add: with_lease_def with_admission_def effect_def reachability_gate_def baseline_gate_def read_twice_def necessity_gate_def
      capture_state_def execute_def record_pre_state_def record_exec_log_def verify_effect_def record_stage_def Record_stage_def
      payloadHash_def stageOrder_def order_or_zero_def VerifyStages_def Assert_def conclude_def commit_verdict_def record_execution_def
      tripBreaker_def recordGraduation_def executed_outcome_def outcome_of_def demo_observe_def
      andThen_def goOn_def emitEvent_def ask_def pass_def emitGate_def record_row_def Let_def
      demo_interceptor_def demo_request_def demo_start_def demo_request_action_def tg_consts)
  show ?thesis unfolding Do_def using s g e by (simp add: chain_def Let_def andThen_def [of "inOrder m" for m] split: prod.splits)
qed

section \<open>Properties\<close>

lemma Do_cases:
  assumes "Do i r s = (Some out, s')" and "is_trace s = []"
  obtains (no_manifest) "rq_Manifest r = None" "out = refused_outcome [] NilManifest"
      "is_trace s' = [LedgerRow ''actuate:refuse'' ''(no-action-id)'' (Some NilManifest) True]" "is_limiter s' = is_limiter s"
    | (untouched) m where "rq_Manifest r = Some m" "list_all quiet (is_trace s')" "refused_on_record (am_ActionID m) out (is_trace s')"
    | (touched) m pre es where "rq_Manifest r = Some m" "is_trace s' = pre @ Executed (rq_Argv r) (rq_Stdin r) # es" "list_all quiet pre"
        "cleared i r m pre" "list_all after es" "after_effect i (am_ActionID m) out es"
proof (cases "rq_Manifest r")
  case None
  with assms that(1) show thesis by (auto simp: Do_def record_row_def emitEvent_def split: if_splits)
next
  case (Some m)
  with assms(1) obtain res where c: "chain i r m (s\<lparr>is_manifest := m\<rparr>) = (res, s')" "out = outcome_of res"
    by (auto simp: Do_def split: if_splits prod.splits)
  have "run_trace i r (am_ActionID m) (cleared i r m) [] out (is_trace s')" using chain_run(1) [OF c(1)] assms(2) c(2) by simp
  then show thesis unfolding run_trace_def using Some that(2,3) by auto
qed

lemma quiet_not_exec: "list_all quiet es \<Longrightarrow> e \<in> set es \<Longrightarrow> \<not> is_exec e"
  by (cases e) (auto simp: list_all_iff quiet_def)

text \<open>
  C1. The actuator is called only when every gate has passed. Whatever the collaborators answer and however their
  answers change during the run, if the trace contains an effect then it is the request's fixed vector, it
  is the only one, and before it: the action is approved or not of the poll band, off the never-auto floor,
  reversible, not destructive, voted on if stateful, predicted, the very action that was sealed, backed by bound
  evidence and inside an acknowledged territory; the policy engine allowed it, an identity resolved, the breaker
  was closed, the mode permitted mutation, the leaf is bound to this host, the limiter and the target admission
  let it in, the target was reachable, a baseline was read, and the fault was still there.
\<close>

theorem effect_needs_every_gate:
  assumes "Do i r s = (Some out, s')" and "is_trace s = []" and "Executed argv stdin \<in> set (is_trace s')"
  shows "\<exists>m pre es. rq_Manifest r = Some m \<and> is_trace s' = pre @ Executed argv stdin # es
    \<and> argv = rq_Argv r \<and> stdin = rq_Stdin r \<and> (\<forall>e \<in> set (pre @ es). \<not> is_exec e)
    \<and> (rq_Band r = BandPollPause \<longrightarrow> rq_Approved r)
    \<and> \<not> IsNeverAuto (ac_OpClass (am_Action m)) \<and> ac_Reversible (am_Action m) \<and> \<not> IsDestructiveOp (SafetyParts (am_Action m))
    \<and> (IsStatefulWorkload (SafetyParts (am_Action m)) \<longrightarrow> rq_Band r = BandPollPause)
    \<and> rq_Gated r \<and> Assert (ic_hash i) m (am_ActionID m) = None \<and> schema_holds i r m
    \<and> (\<exists>e \<in> set (rq_Evidence r). evidence_Bound e) \<and> gr_allow (territory_ruling r m)
    \<and> once (policy_allows i r m) pre \<and> once (identity_resolves i m) pre \<and> once (breaker_closed i) pre
    \<and> once (\<lambda>t. ic_guardMutation i t = None) pre \<and> host_matches i m
    \<and> LeaseGranted \<in> set pre \<and> once (target_admitted i r m) pre
    \<and> once (target_reachable i m) pre \<and> once (baseline_read r) pre \<and> once (still_needed r) pre"
  using assms(1,2)
proof (cases rule: Do_cases)
  case no_manifest
  with assms(3) show ?thesis by simp
next
  case (untouched m)
  with assms(3) show ?thesis using quiet_not_exec [OF untouched(2) assms(3)] by simp
next
  case (touched m pre es)
  have none: "\<not> is_exec e" if "e \<in> set (pre @ es)" for e
    using that quiet_not_exec [OF touched(3)] touched(5) by (auto simp: list_all_iff after_def)
  from none [of "Executed argv stdin"] have "argv = rq_Argv r \<and> stdin = rq_Stdin r" using assms(3) touched(2) by auto
  then show ?thesis using touched(1,2) none touched(4)
    by (intro exI [of _ m] exI [of _ pre] exI [of _ es])
       (simp add: cleared_def gate_conditions_def effect_conditions_def lease_granted_def)
qed

theorem effect_needs_every_gate_witness:
  "\<exists>out s' pre. Do demo_interceptor demo_request demo_start = (Some out, s') \<and> prefix pre (is_trace s')
     \<and> once (breaker_closed demo_interceptor) pre \<and> LeaseGranted \<in> set pre"
proof -
  obtain out s' where d: "Do demo_interceptor demo_request demo_start = (Some out, s')" and e: "list_ex is_exec (is_trace s')"
    using demo_run by (auto split: prod.splits option.splits)
  from e obtain argv stdin where x: "Executed argv stdin \<in> set (is_trace s')" by (auto simp: list_ex_iff elim: is_exec.elims)
  have "is_trace demo_start = []" by (simp add: demo_start_def)
  from effect_needs_every_gate [OF d this x] d show ?thesis by (metis prefixI)
qed



text \<open>
  C5. What a run tells others. A verdict of deviation trips the breaker on every path that returns it, when one is
  wired. The immediate observation may demote but never promote: the graduation ladder hears of nothing but a
  deviation. A committed verdict is the verdict of an executed run.
\<close>

theorem deviation_trips_never_promotes:
  assumes "Do i r s = (Some out, s')" and "is_trace s = []"
  shows "(ot_Verdict out = VerdictDeviation \<and> ic_breaker i \<noteq> None \<longrightarrow> (\<exists>why. Tripped_by why \<in> set (is_trace s')))
    \<and> (\<forall>op oc. GraduationRecorded op oc \<in> set (is_trace s') \<longrightarrow> oc = OutcomeDeviated \<and> ot_Verdict out = VerdictDeviation)
    \<and> (\<forall>v. VerdictCommitted v \<in> set (is_trace s') \<longrightarrow> ot_Executed out \<and> ot_Verdict out = v)"
proof -
  have q: "Tripped_by why \<notin> set es" "GraduationRecorded op oc \<notin> set es" "VerdictCommitted v \<notin> set es"
    if "list_all quiet es" for why op oc v es
    using that by (auto simp: list_all_iff quiet_def)
  have ne: "VerdictDeviation \<noteq> []" by (simp add: tg_consts)
  from assms show ?thesis
  proof (cases rule: Do_cases)
    case no_manifest
    then show ?thesis using ne by (simp add: refused_outcome_def)
  next
    case (untouched m)
    show ?thesis using q [OF untouched(2)] untouched(3) ne by (auto simp: refused_on_record_def)
  next
    case (touched m pre es)
    from touched(6) show ?thesis unfolding after_effect_def
    proof (elim disjE exE)
      fix v verified
      assume c: "concluded i (am_ActionID m) v verified out es"
      then have v: "ot_Verdict out = v \<or> \<not> verified \<and> ot_Verdict out = []" "lawful v verified es" "breaker_told i v es" "ot_Executed out"
        by (simp_all add: concluded_def)
      show ?thesis using v ne q [OF touched(3)] touched(2) unfolding lawful_def breaker_told_def by fastforce
    next
      assume a: "\<not> ot_Executed out \<and> list_all quiet es \<and> on_ledger (am_ActionID m) es
          \<and> (refused_on_record (am_ActionID m) out es \<or> \<not> ot_Refused out \<and> ot_Reason out = AlreadyInState
               \<and> ot_ActionID out = am_ActionID m \<and> ot_Verdict out = [])"
      then have "ot_Verdict out = []" by (auto simp: refused_on_record_def)
      with a ne q [OF touched(3)] q [of es] touched(2) show ?thesis by auto
    qed
  qed
qed

theorem deviation_trips_never_promotes_witness:
  "\<exists>out s' why. Do demo_interceptor demo_request demo_start = (Some out, s') \<and> ot_Verdict out = VerdictDeviation
     \<and> Tripped_by why \<in> set (is_trace s')"
proof -
  obtain out s' where d: "Do demo_interceptor demo_request demo_start = (Some out, s')" "ot_Verdict out = VerdictDeviation"
    using demo_run by (auto split: prod.splits option.splits)
  have "is_trace demo_start = []" "ic_breaker demo_interceptor \<noteq> None" by (simp_all add: demo_start_def demo_interceptor_def)
  from deviation_trips_never_promotes [OF d(1) this(1)] this(2) d show ?thesis by blast
qed

text \<open>
  C19. The in-flight slots are always returned. Whatever the outcome, the limiter counts as many actuations in flight
  under every key after the run as before it.
\<close>

theorem lease_always_returned:
  assumes "Do i r s = (Some out, s')" and "is_limiter s = Some l" and "counters_ok l"
  shows "\<exists>l'. is_limiter s' = Some l' \<and> (\<forall>k. in_flight l' k = in_flight l k)"
proof (cases "rq_Manifest r")
  case None
  with assms show ?thesis by (auto simp: Do_def record_row_def emitEvent_def split: if_splits)
next
  case (Some m)
  with assms(1) obtain res where c: "chain i r m (s\<lparr>is_manifest := m\<rparr>) = (res, s')"
    by (auto simp: Do_def split: if_splits prod.splits)
  have "is_limiter s' = is_limiter s \<or> slots_kept (is_limiter s) (is_limiter s')"
    using chain_run(2) [OF c] assms(2,3) by simp
  with assms(2) show ?thesis by (auto simp: slots_kept_def split: option.splits)
qed

theorem lease_always_returned_witness:
  "\<exists>out s' l'. Do demo_interceptor demo_request demo_start = (Some out, s') \<and> ot_Executed out
     \<and> is_limiter s' = Some l' \<and> in_flight l' (scopeKey ''target'' ''w1'') = 0"
proof -
  obtain out s' where d: "Do demo_interceptor demo_request demo_start = (Some out, s')" "ot_Executed out"
    using demo_run by (auto split: prod.splits option.splits)
  have "is_limiter demo_start = Some NewActuationLimiter" "counters_ok NewActuationLimiter" "in_flight NewActuationLimiter k = 0" for k
    by (simp_all add: demo_start_def NewActuationLimiter_def counters_ok_def in_flight_def)
  from lease_always_returned [OF d(1) this(1,2)] this(3) d show ?thesis by metis
qed

text \<open>
  A verified deviation whose verdict could not be persisted is lost to everyone but the breaker: the run
  returns without a per-execution row and without the demotion of its class, though both recorders are
  there and the comments of the code ask for a row on every path.
\<close>

theorem persist_failure_skips_demotion:
  "case conclude (i\<lparr>ic_verdicts := Some (\<lambda>_ _. Some err)\<rparr>) r m aid VerdictDeviation True label s of (res, s') \<Rightarrow>
     \<exists>es. is_trace s' = is_trace s @ es \<and> outcome_of res = executed_outcome aid VerdictDeviation VerdictNotPersisted
       \<and> (\<forall>op oc. GraduationRecorded op oc \<notin> set es) \<and> (\<forall>v b. ExecutionRecorded v b \<notin> set es)"
  by (cases "ic_breaker i")
     (simp_all add: conclude_def commit_verdict_def tripBreaker_def andThen_def ask_def emitEvent_def record_row_def goOn_def stop_def outcome_of_def)

end
