(* ===== verification/Recon.thy ===== *)
theory Recon
  imports Mode "HOL-Library.AList" "HOL-Library.Multiset"
begin

text \<open>
  The read-lane volume meter, \<^verbatim>\<open>core/safety/recon_budget.go\<close>: its budget, admission, metering with the burst
  alarm that forces the mode to Shadow, the halt, the boot seed and the reported posture. The clock is an
  argument, the mutex is the atomicity of each operation, and \<^const>\<open>None\<close> is the nil governor. The session
  counters are an association list, a Go map whose entries the snapshot counts. Texts of refusals and log
  lines are left out; the kill is told no reason.

  The agent loop asks for admission, dispatches the read and meters it afterwards
  (\<^verbatim>\<open>agent/loop.go\<close>, lines 686 to 706), so other investigations run between the two calls. The last section
  lets any number of investigations interleave and shows how far the bounds hold.
\<close>

section \<open>The budget\<close>

record ReconBudget =
  rb_PerSession :: int
  rb_PerHour :: int
  rb_Burst :: int
  rb_BurstWindow :: duration
  rb_BurstPerSession :: int
  rb_FanoutObserve :: int

definition reconHourWindow :: duration where [tg_consts]: "reconHourWindow = 3600 * 1000000000"

definition DefaultReconBudget :: ReconBudget where
  "DefaultReconBudget =
     \<lparr>rb_PerSession = 25, rb_PerHour = 500, rb_Burst = 150, rb_BurstWindow = 5 * 60 * 1000000000,
      rb_BurstPerSession = 12, rb_FanoutObserve = 12\<rparr>"

definition sane :: "ReconBudget \<Rightarrow> ReconBudget" where
  "sane b =
     (let d = DefaultReconBudget in
      \<lparr>rb_PerSession = (if rb_PerSession b \<le> 0 then rb_PerSession d else rb_PerSession b),
       rb_PerHour = (if rb_PerHour b \<le> 0 then rb_PerHour d else rb_PerHour b),
       rb_Burst = (if rb_Burst b \<le> 0 then rb_Burst d else rb_Burst b),
       rb_BurstWindow = (if rb_BurstWindow b \<le> 0 then rb_BurstWindow d else rb_BurstWindow b),
       rb_BurstPerSession = (if rb_BurstPerSession b < 0 then 0 else rb_BurstPerSession b),
       rb_FanoutObserve = (if rb_FanoutObserve b < 0 then 0 else rb_FanoutObserve b)\<rparr>)"

datatype ReconRefusal =
    RefusedHalt string string
  | RefusedSession string int int
  | RefusedHour string int int duration
  | RefusedBurst string int int duration


section \<open>The governor\<close>

record reconRead =
  rr_at :: instant
  rr_session :: string
  rr_target :: string

record reconSession =
  rs_reads :: int
  rs_targets :: "string list"
  rs_lastUsed :: instant
  rs_fanoutHot :: bool

record 'm ReconGovernor =
  rg_budget :: ReconBudget
  rg_kill :: "('m \<Rightarrow> 'm) option"
  rg_window :: "reconRead list"
  rg_sessions :: "(string \<times> reconSession) list"
  rg_halted :: bool
  rg_haltWhy :: string
  rg_burstHot :: bool
  rg_burstEpisodeLimit :: int
  rg_reads :: "64 word"
  rg_refusals :: "64 word"
  rg_bursts :: "64 word"
  rg_fanoutFlags :: "64 word"

definition NewReconGovernor :: "ReconBudget \<Rightarrow> ('m \<Rightarrow> 'm) option \<Rightarrow> 'm ReconGovernor" where
  "NewReconGovernor b kl =
     \<lparr>rg_budget = sane b, rg_kill = kl, rg_window = [], rg_sessions = [], rg_halted = False, rg_haltWhy = [],
      rg_burstHot = False, rg_burstEpisodeLimit = 0, rg_reads = 0, rg_refusals = 0, rg_bursts = 0, rg_fanoutFlags = 0\<rparr>"

definition recon_Budget :: "'m ReconGovernor option \<Rightarrow> ReconBudget" where
  "recon_Budget g =
     (case g of
        None \<Rightarrow> \<lparr>rb_PerSession = 0, rb_PerHour = 0, rb_Burst = 0, rb_BurstWindow = 0, rb_BurstPerSession = 0, rb_FanoutObserve = 0\<rparr>
      | Some g \<Rightarrow> rg_budget g)"

definition seededSession :: string where [tg_consts]: "seededSession = ''<seeded>''"

definition recon_prune :: "instant \<Rightarrow> 'm ReconGovernor \<Rightarrow> 'm ReconGovernor" where
  "recon_prune now g =
     (let cut = now - reconHourWindow in
      g\<lparr>rg_window := filter (\<lambda>r. cut < rr_at r) (rg_window g),
        rg_sessions := filter (\<lambda>(_, s). \<not> rs_lastUsed s < cut) (rg_sessions g)\<rparr>)"

text \<open>Go's 64-bit product.\<close>

definition go_mul :: "int \<Rightarrow> int \<Rightarrow> int" where
  "go_mul a b = sint (word_of_int (a * b) :: 64 word)"

definition burst_reads :: "instant \<Rightarrow> 'm ReconGovernor \<Rightarrow> reconRead list" where
  "burst_reads now g = filter (\<lambda>r. \<not> rr_at r < now - rb_BurstWindow (rg_budget g)) (rg_window g)"

definition investigates :: "string \<Rightarrow> bool" where
  "investigates s \<longleftrightarrow> s \<noteq> [] \<and> s \<noteq> seededSession"

definition burstState :: "instant \<Rightarrow> string \<Rightarrow> 'm ReconGovernor \<Rightarrow> int \<times> int \<times> int" where
  "burstState now asking g =
     (let rs = burst_reads now g;
          seen = remdups (filter investigates (asking # map rr_session rs));
          reads = int (length rs);
          investigations = int (length seen);
          limit = rb_Burst (rg_budget g);
          scaled = go_mul (rb_BurstPerSession (rg_budget g)) investigations;
          limit = (if scaled > limit then scaled else limit);
          limit = (if rg_burstHot g \<and> rg_burstEpisodeLimit g > 0 \<and> rg_burstEpisodeLimit g < limit
                   then rg_burstEpisodeLimit g else limit)
      in (reads, limit, investigations))"

definition distinctTargetsSince :: "instant \<Rightarrow> 'm ReconGovernor \<Rightarrow> int" where
  "distinctTargetsSince from g =
     int (length (remdups (map rr_target (filter (\<lambda>r. rr_target r \<noteq> [] \<and> \<not> rr_at r < from) (rg_window g)))))"

definition refuse_read :: "ReconRefusal \<Rightarrow> 'm ReconGovernor \<Rightarrow> ReconRefusal option \<times> 'm ReconGovernor" where
  "refuse_read r g = (Some r, g\<lparr>rg_refusals := rg_refusals g + 1\<rparr>)"

definition session_reads :: "string \<Rightarrow> 'm ReconGovernor \<Rightarrow> int" where
  "session_reads s g = (case map_of (rg_sessions g) s of None \<Rightarrow> 0 | Some x \<Rightarrow> rs_reads x)"

definition recon_Admit_live :: "instant \<Rightarrow> string \<Rightarrow> 'm ReconGovernor \<Rightarrow> ReconRefusal option \<times> 'm ReconGovernor" where
  "recon_Admit_live now session g0 =
     (let g = recon_prune now g0; b = rg_budget g; n = int (length (rg_window g)) in
      if rg_halted g then refuse_read (RefusedHalt session (rg_haltWhy g)) g
      else if map_of (rg_sessions g) session \<noteq> None \<and> session_reads session g \<ge> rb_PerSession b
      then refuse_read (RefusedSession session (session_reads session g) (rb_PerSession b)) g
      else if n \<ge> rb_PerHour b then refuse_read (RefusedHour session n (rb_PerHour b) reconHourWindow) g
      else case burstState now session g of
             (nb, bound, _) \<Rightarrow> if nb \<ge> bound then refuse_read (RefusedBurst session nb bound (rb_BurstWindow b)) g else (None, g))"

definition recon_Admit :: "instant \<Rightarrow> string \<Rightarrow> 'm ReconGovernor option \<Rightarrow> ReconRefusal option \<times> 'm ReconGovernor option" where
  "recon_Admit now session g =
     (case g of None \<Rightarrow> (None, None) | Some g \<Rightarrow> map_prod id Some (recon_Admit_live now session g))"

definition fresh_session :: reconSession where
  "fresh_session = \<lparr>rs_reads = 0, rs_targets = [], rs_lastUsed = 0, rs_fanoutHot = False\<rparr>"

text \<open>The session's counter after one more read, and whether its fan-out flag rises.\<close>

definition spend :: "instant \<Rightarrow> string \<Rightarrow> int \<Rightarrow> reconSession \<Rightarrow> bool \<times> reconSession" where
  "spend now target ceil s =
     (let s = s\<lparr>rs_reads := rs_reads s + 1, rs_lastUsed := now,
                rs_targets := (if target \<noteq> [] then List.insert target (rs_targets s) else rs_targets s)\<rparr>;
          fire = (ceil > 0 \<and> \<not> rs_fanoutHot s \<and> int (length (rs_targets s)) \<ge> ceil)
      in (fire, if fire then s\<lparr>rs_fanoutHot := True\<rparr> else s))"

definition meter_read :: "instant \<Rightarrow> string \<Rightarrow> string \<Rightarrow> 'm ReconGovernor \<Rightarrow> 'm ReconGovernor" where
  "meter_read now session target g0 =
     (let g = recon_prune now g0;
          g = g\<lparr>rg_window := rg_window g @ [\<lparr>rr_at = now, rr_session = session, rr_target = target\<rparr>], rg_reads := rg_reads g + 1\<rparr>;
          s = (case map_of (rg_sessions g) session of None \<Rightarrow> fresh_session | Some s \<Rightarrow> s)
      in case spend now target (rb_FanoutObserve (rg_budget g)) s of
           (fire, s') \<Rightarrow> g\<lparr>rg_sessions := AList.update session s' (rg_sessions g),
                            rg_fanoutFlags := rg_fanoutFlags g + (if fire then 1 else 0)\<rparr>)"

text \<open>The burst test after the read is in the window: the first result says whether an episode opens.\<close>

definition burst_alarm :: "instant \<Rightarrow> string \<Rightarrow> 'm ReconGovernor \<Rightarrow> bool \<times> 'm ReconGovernor" where
  "burst_alarm now session g =
     (case burstState now session g of
        (n, bound, _) \<Rightarrow>
          if n \<ge> bound
          then (if \<not> rg_burstHot g
                then (True, g\<lparr>rg_burstHot := True, rg_burstEpisodeLimit := bound, rg_bursts := rg_bursts g + 1\<rparr>)
                else (False, g))
          else (False, g\<lparr>rg_burstHot := False, rg_burstEpisodeLimit := 0\<rparr>))"

definition recon_Record_live :: "instant \<Rightarrow> string \<Rightarrow> string \<Rightarrow> 'm ReconGovernor \<Rightarrow> 'm \<Rightarrow> 'm ReconGovernor \<times> 'm" where
  "recon_Record_live now session target g m =
     (case burst_alarm now session (meter_read now session target g) of
        (fire, g') \<Rightarrow> (g', if fire then (case rg_kill g' of None \<Rightarrow> m | Some k \<Rightarrow> k m) else m))"

definition recon_Record :: "instant \<Rightarrow> string \<Rightarrow> string \<Rightarrow> 'm ReconGovernor option \<Rightarrow> 'm \<Rightarrow> 'm ReconGovernor option \<times> 'm" where
  "recon_Record now session target g m =
     (case g of None \<Rightarrow> (None, m) | Some g \<Rightarrow> map_prod Some id (recon_Record_live now session target g m))"

definition recon_Halt :: "string \<Rightarrow> 'm ReconGovernor option \<Rightarrow> 'm ReconGovernor option" where
  "recon_Halt why =
     map_option (\<lambda>g. g\<lparr>rg_halted := True, rg_haltWhy := (if rg_haltWhy g = [] then why else rg_haltWhy g)\<rparr>)"

definition recon_Halted :: "'m ReconGovernor option \<Rightarrow> bool" where
  "recon_Halted g = (case g of None \<Rightarrow> False | Some g \<Rightarrow> rg_halted g)"

text \<open>The durable record of reads, oldest first, as the query answers it: an error or the times of its rows.\<close>

definition seed_reads :: "instant \<Rightarrow> instant list \<Rightarrow> reconRead list" where
  "seed_reads now ats = map (\<lambda>t. \<lparr>rr_at = (if t > now then now else t), rr_session = seededSession, rr_target = []\<rparr>) ats"

definition SeedFromLedger ::
    "instant \<Rightarrow> (instant \<Rightarrow> string + instant list) option \<Rightarrow> 'm ReconGovernor option \<Rightarrow> (string + nat) \<times> 'm ReconGovernor option" where
  "SeedFromLedger now l go =
     (case (go, l) of
        (Some g, Some readsSince) \<Rightarrow>
          (case readsSince (now - reconHourWindow) of
             Inl e \<Rightarrow> (Inl e, Some g)
           | Inr ats \<Rightarrow> (Inr (length ats), Some (recon_prune now (g\<lparr>rg_window := rg_window g @ seed_reads now ats\<rparr>))))
      | _ \<Rightarrow> (Inr 0, go))"

record ReconSnapshot =
  sn_Reads :: "64 word"
  sn_Refusals :: "64 word"
  sn_Bursts :: "64 word"
  sn_FanoutFlags :: "64 word"
  sn_Halted :: bool
  sn_ReadsHour :: int
  sn_ReadsBurst :: int
  sn_TargetsHour :: int
  sn_PerHourLimit :: int
  sn_BurstLimit :: int
  sn_BurstInvestigations :: int
  sn_SessionLimit :: int
  sn_FanoutObserve :: int
  sn_LiveSessions :: int
  sn_BurstWindowIs :: duration

definition recon_Snapshot :: "instant \<Rightarrow> 'm ReconGovernor option \<Rightarrow> ReconSnapshot \<times> 'm ReconGovernor option" where
  "recon_Snapshot now go =
     (case go of
        None \<Rightarrow> (\<lparr>sn_Reads = 0, sn_Refusals = 0, sn_Bursts = 0, sn_FanoutFlags = 0, sn_Halted = False, sn_ReadsHour = 0,
                  sn_ReadsBurst = 0, sn_TargetsHour = 0, sn_PerHourLimit = 0, sn_BurstLimit = 0, sn_BurstInvestigations = 0,
                  sn_SessionLimit = 0, sn_FanoutObserve = 0, sn_LiveSessions = 0, sn_BurstWindowIs = 0\<rparr>, None)
      | Some g0 \<Rightarrow>
          (let g = recon_prune now g0; b = rg_budget g in
           case burstState now [] g of
             (nb, bound, invs) \<Rightarrow>
               (\<lparr>sn_Reads = rg_reads g, sn_Refusals = rg_refusals g, sn_Bursts = rg_bursts g,
                      sn_FanoutFlags = rg_fanoutFlags g, sn_Halted = rg_halted g, sn_ReadsHour = int (length (rg_window g)),
                      sn_ReadsBurst = nb, sn_TargetsHour = distinctTargetsSince (now - reconHourWindow) g,
                      sn_PerHourLimit = rb_PerHour b, sn_BurstLimit = bound, sn_BurstInvestigations = invs,
                      sn_SessionLimit = rb_PerSession b, sn_FanoutObserve = rb_FanoutObserve b,
                      sn_LiveSessions = int (length (rg_sessions g)), sn_BurstWindowIs = rb_BurstWindow b\<rparr>, Some g)))"


section \<open>Facts\<close>

lemma sane_positive [simp]: "0 < rb_PerSession (sane b)" "0 < rb_PerHour (sane b)" "0 < rb_Burst (sane b)"
  by (simp_all add: sane_def DefaultReconBudget_def Let_def)

lemma prune_sel [simp]:
  "rg_budget (recon_prune now g) = rg_budget g" "rg_kill (recon_prune now g) = rg_kill g"
  "rg_halted (recon_prune now g) = rg_halted g" "rg_haltWhy (recon_prune now g) = rg_haltWhy g"
  "rg_burstHot (recon_prune now g) = rg_burstHot g"
  "rg_burstEpisodeLimit (recon_prune now g) = rg_burstEpisodeLimit g"
  "rg_window (recon_prune now g) = filter (\<lambda>r. now - reconHourWindow < rr_at r) (rg_window g)"
  "rg_sessions (recon_prune now g) = filter (\<lambda>(_, s). \<not> rs_lastUsed s < now - reconHourWindow) (rg_sessions g)"
  by (simp_all add: recon_prune_def Let_def)

lemma meter_sel [simp]:
  "rg_budget (meter_read now x t g) = rg_budget g" "rg_kill (meter_read now x t g) = rg_kill g"
  "rg_halted (meter_read now x t g) = rg_halted g"
  "rg_burstHot (meter_read now x t g) = rg_burstHot g"
  "rg_burstEpisodeLimit (meter_read now x t g) = rg_burstEpisodeLimit g"
  "rg_window (meter_read now x t g) =
     filter (\<lambda>r. now - reconHourWindow < rr_at r) (rg_window g) @ [\<lparr>rr_at = now, rr_session = x, rr_target = t\<rparr>]"
  by (simp_all add: meter_read_def Let_def split: prod.split option.split)

lemma alarm_sel [simp]:
  "rg_budget (snd (burst_alarm now x g)) = rg_budget g" "rg_kill (snd (burst_alarm now x g)) = rg_kill g"
  "rg_halted (snd (burst_alarm now x g)) = rg_halted g" "rg_window (snd (burst_alarm now x g)) = rg_window g"
  "rg_sessions (snd (burst_alarm now x g)) = rg_sessions g"
  by (simp_all add: burst_alarm_def split: prod.split)

lemma record_live_fst: "fst (recon_Record_live now x t g m) = snd (burst_alarm now x (meter_read now x t g))"
  by (simp add: recon_Record_live_def split: prod.split)

text \<open>Admission is exactly: not halted, and each of the three counts below its bound.\<close>

lemma admit_live_cases:
  obtains (refused) r where "recon_Admit_live now x g = (Some r, (recon_prune now g)\<lparr>rg_refusals := rg_refusals (recon_prune now g) + 1\<rparr>)"
  | (admitted) "recon_Admit_live now x g = (None, recon_prune now g)" and "\<not> rg_halted g"
      and "map_of (rg_sessions (recon_prune now g)) x \<noteq> None \<Longrightarrow> session_reads x (recon_prune now g) < rb_PerSession (rg_budget g)"
      and "int (length (rg_window (recon_prune now g))) < rb_PerHour (rg_budget g)"
      and "fst (burstState now x (recon_prune now g)) < fst (snd (burstState now x (recon_prune now g)))"
proof (cases "recon_Admit_live now x g")
  case (Pair r g')
  then show ?thesis
    by (cases r; cases "burstState now x (recon_prune now g)")
      (auto simp: recon_Admit_live_def refuse_read_def Let_def split: if_splits intro: refused admitted)
qed

lemma map_of_filter_val:
  assumes "distinct (map fst xs)"
  shows "map_of (filter (\<lambda>(_, v). P v) xs) k = (case map_of xs k of None \<Rightarrow> None | Some v \<Rightarrow> if P v then Some v else None)"
  using assms
proof (induction xs)
  case (Cons x xs)
  obtain a v where x: "x = (a, v)" by (cases x)
  have "map_of xs a = None" using Cons.prems x by (simp add: map_of_eq_None_iff)
  with Cons x show ?case by (auto split: option.splits)
qed simp

lemma record_live_halted [simp]: "rg_halted (fst (recon_Record_live now x t g m)) = rg_halted g"
  by (simp add: record_live_fst)

section \<open>Investigations that interleave\<close>

text \<open>
  The read lane as the loops use it: an investigation asks for one read at a time, at most \<open>k\<close> admitted
  reads are being dispatched at once, and a dispatched read is metered when its tool returns. The
  operator's halt, the posture read and any change of the mode may come at any time. The history lists
  every metered read.
\<close>

record 'm lane =
  ln_gov :: "'m ReconGovernor"
  ln_mode :: 'm
  ln_now :: instant
  ln_out :: "string list"
  ln_hist :: "reconRead list"

inductive lane_step :: "nat \<Rightarrow> 'm lane \<Rightarrow> 'm lane \<Rightarrow> bool" for k :: nat where
  tick: "0 \<le> d \<Longrightarrow> lane_step k l (l\<lparr>ln_now := ln_now l + d\<rparr>)"
| admitted: "x \<notin> set (ln_out l) \<Longrightarrow> length (ln_out l) < k \<Longrightarrow> recon_Admit (ln_now l) x (Some (ln_gov l)) = (None, Some g) \<Longrightarrow>
    lane_step k l (l\<lparr>ln_gov := g, ln_out := x # ln_out l\<rparr>)"
| refused: "recon_Admit (ln_now l) x (Some (ln_gov l)) = (Some r, Some g) \<Longrightarrow> lane_step k l (l\<lparr>ln_gov := g\<rparr>)"
| metered: "x \<in> set (ln_out l) \<Longrightarrow> recon_Record (ln_now l) x t (Some (ln_gov l)) (ln_mode l) = (Some g, m) \<Longrightarrow>
    lane_step k l (l\<lparr>ln_gov := g, ln_mode := m, ln_out := remove1 x (ln_out l),
                      ln_hist := ln_hist l @ [\<lparr>rr_at = ln_now l, rr_session = x, rr_target = t\<rparr>]\<rparr>)"
| halt: "recon_Halt why (Some (ln_gov l)) = Some g \<Longrightarrow> lane_step k l (l\<lparr>ln_gov := g\<rparr>)"
| posture: "recon_Snapshot (ln_now l) (Some (ln_gov l)) = (sn, Some g) \<Longrightarrow> lane_step k l (l\<lparr>ln_gov := g\<rparr>)"
| mode: "lane_step k l (l\<lparr>ln_mode := m\<rparr>)"

definition lane_init :: "'m ReconGovernor \<Rightarrow> 'm \<Rightarrow> instant \<Rightarrow> 'm lane" where
  "lane_init g m now = \<lparr>ln_gov = g, ln_mode = m, ln_now = now, ln_out = [], ln_hist = []\<rparr>"

definition reads_in :: "instant \<Rightarrow> reconRead list \<Rightarrow> int" where
  "reads_in t rs = int (length (filter (\<lambda>r. t - reconHourWindow < rr_at r \<and> rr_at r \<le> t) rs))"

abbreviation of_session :: "string \<Rightarrow> reconRead list \<Rightarrow> reconRead list" where
  "of_session x rs \<equiv> filter (\<lambda>r. rr_session r = x) rs"

text \<open>
  The invariant: the governor's window is the recent part of the history, counters cover the recent reads
  of their session, and every bound leaves room for the reads that are being dispatched.
\<close>

abbreviation recent :: "instant \<Rightarrow> reconRead list \<Rightarrow> reconRead list" where
  "recent now rs \<equiv> filter (\<lambda>r. now - reconHourWindow < rr_at r) rs"

definition window_ok :: "ReconBudget \<Rightarrow> nat \<Rightarrow> 'm lane \<Rightarrow> bool" where
  "window_ok b k l \<longleftrightarrow>
     rg_budget (ln_gov l) = b \<and> (\<forall>r \<in> set (ln_hist l). rr_at r \<le> ln_now l)
     \<and> recent (ln_now l) (rg_window (ln_gov l)) = recent (ln_now l) (ln_hist l)
     \<and> int (length (recent (ln_now l) (ln_hist l))) + int (length (ln_out l)) \<le> rb_PerHour b + int k - 1
     \<and> (\<forall>t. reads_in t (ln_hist l) \<le> rb_PerHour b + int k - 1)"

definition counter_ok :: "ReconBudget \<Rightarrow> 'm lane \<Rightarrow> string \<Rightarrow> bool" where
  "counter_ok b l x \<longleftrightarrow>
     int (length (of_session x (recent (ln_now l) (ln_hist l)))) \<le> session_reads x (ln_gov l)
     \<and> session_reads x (ln_gov l) + (if x \<in> set (ln_out l) then 1 else 0) \<le> rb_PerSession b
     \<and> (\<forall>s. map_of (rg_sessions (ln_gov l)) x = Some s \<longrightarrow> (\<forall>r \<in> set (ln_hist l). rr_session r = x \<longrightarrow> rr_at r \<le> rs_lastUsed s))
     \<and> (\<forall>t. reads_in t (of_session x (ln_hist l)) \<le> rb_PerSession b)"

definition lane_inv :: "ReconBudget \<Rightarrow> nat \<Rightarrow> 'm lane \<Rightarrow> bool" where
  "lane_inv b k l \<longleftrightarrow>
     distinct (map fst (rg_sessions (ln_gov l))) \<and> distinct (ln_out l) \<and> window_ok b k l \<and> (\<forall>x. counter_ok b l x)"

lemma length_filter_imp: "(\<And>r. r \<in> set rs \<Longrightarrow> P r \<Longrightarrow> Q r) \<Longrightarrow> length (filter P rs) \<le> length (filter Q rs)"
  by (induction rs) auto

lemma reads_in_snoc:
  assumes "\<forall>r \<in> set rs. rr_at r \<le> now" and "rr_at a = now"
    and "int (length (filter (\<lambda>r. now - reconHourWindow < rr_at r) rs)) + 1 \<le> c" and "reads_in t rs \<le> c"
  shows "reads_in t (rs @ [a]) \<le> c"
proof (cases "now \<le> t")
  case True
  have "length (filter (\<lambda>r. t - reconHourWindow < rr_at r \<and> rr_at r \<le> t) rs) \<le> length (filter (\<lambda>r. now - reconHourWindow < rr_at r) rs)"
    using True by (intro length_filter_imp) auto
  with assms True show ?thesis by (auto simp: reads_in_def)
qed (use assms in \<open>auto simp: reads_in_def\<close>)

lemma spend_sel [simp]: "rs_reads (snd (spend now t c s)) = rs_reads s + 1" "rs_lastUsed (snd (spend now t c s)) = now"
  by (simp_all add: spend_def Let_def)

lemma meter_sessions:
  "rg_sessions (meter_read now x t g) =
     AList.update x (snd (spend now t (rb_FanoutObserve (rg_budget g))
       (case map_of (rg_sessions (recon_prune now g)) x of None \<Rightarrow> fresh_session | Some s \<Rightarrow> s))) (rg_sessions (recon_prune now g))"
  by (simp add: meter_read_def Let_def split: prod.split)

lemma meter_reads:
  "session_reads y (meter_read now x t g) = session_reads y (recon_prune now g) + (if y = x then 1 else 0)"
  by (simp add: session_reads_def meter_sessions update_conv' fresh_session_def del: prune_sel split: option.split)

lemma inv_prune:
  assumes inv: "lane_inv b k l" and pos: "0 < rb_PerSession b"
    and g: "rg_budget g = b" "rg_window g = rg_window (recon_prune (ln_now l) (ln_gov l))"
      "rg_sessions g = rg_sessions (recon_prune (ln_now l) (ln_gov l))"
  shows "lane_inv b k (l\<lparr>ln_gov := g\<rparr>)"
proof -
  have d: "distinct (map fst (rg_sessions (ln_gov l)))" using inv by (simp add: lane_inv_def)
  let ?cut = "ln_now l - reconHourWindow"
  have m: "map_of (rg_sessions g) x = (case map_of (rg_sessions (ln_gov l)) x of None \<Rightarrow> None | Some v \<Rightarrow> if rs_lastUsed v < ?cut then None else Some v)" for x
    using g(3) by (simp add: map_of_filter_val [OF d] split: option.split)
  have "counter_ok b (l\<lparr>ln_gov := g\<rparr>) x" for x
  proof -
    have c: "counter_ok b l x" using inv by (simp add: lane_inv_def)
    show ?thesis
    proof (cases "map_of (rg_sessions g) x")
      case None
      have "of_session x (recent (ln_now l) (ln_hist l)) = []"
      proof (cases "map_of (rg_sessions (ln_gov l)) x")
        case (Some v)
        with None m [of x] have "rs_lastUsed v < ?cut" by (simp split: if_splits)
        with c Some show ?thesis by (force simp: counter_ok_def filter_empty_conv)
      qed (use c in \<open>simp add: counter_ok_def session_reads_def\<close>)
      with None c pos show ?thesis by (auto simp: counter_ok_def session_reads_def)
    next
      case (Some v)
      with m [of x] have "map_of (rg_sessions (ln_gov l)) x = Some v" by (auto split: option.splits if_splits)
      with Some c show ?thesis by (simp add: counter_ok_def session_reads_def)
    qed
  qed
  moreover have "distinct (map fst (rg_sessions g))" using d g(3) by (simp add: distinct_map_filter)
  ultimately show ?thesis using inv g(1,2) by (simp add: lane_inv_def window_ok_def)
qed

lemma inv_tick:
  assumes inv: "lane_inv b k l" and d: "0 \<le> d"
  shows "lane_inv b k (l\<lparr>ln_now := ln_now l + d\<rparr>)"
proof -
  let ?t = "ln_now l + d"
  have f: "recent ?t rs = recent ?t (recent (ln_now l) rs)" for rs using d by (auto intro!: filter_cong)
  have w: "window_ok b k l" and c: "counter_ok b l x" for x using inv by (simp_all add: lane_inv_def)
  have "recent ?t (rg_window (ln_gov l)) = recent ?t (ln_hist l)"
    using w f [of "rg_window (ln_gov l)"] f [of "ln_hist l"] by (simp add: window_ok_def)
  moreover have "length (recent ?t (ln_hist l)) \<le> length (recent (ln_now l) (ln_hist l))"
    using d by (intro length_filter_imp) auto
  moreover have "rr_at r \<le> ?t" if "r \<in> set (ln_hist l)" for r using w d that by (fastforce simp: window_ok_def)
  ultimately have "window_ok b k (l\<lparr>ln_now := ?t\<rparr>)"
    using w by (simp add: window_ok_def)
  moreover have "counter_ok b (l\<lparr>ln_now := ?t\<rparr>) x" for x
  proof -
    have "length (of_session x (recent ?t (ln_hist l))) \<le> length (of_session x (recent (ln_now l) (ln_hist l)))"
      using d by (simp, intro length_filter_imp) auto
    with c [of x] show ?thesis by (simp add: counter_ok_def)
  qed
  ultimately show ?thesis using inv by (simp add: lane_inv_def)
qed

lemma inv_admit:
  assumes inv: "lane_inv b k l" and "x \<notin> set (ln_out l)" and "length (ln_out l) < k"
    and "session_reads x (ln_gov l) < rb_PerSession b" and "int (length (recent (ln_now l) (ln_hist l))) < rb_PerHour b"
  shows "lane_inv b k (l\<lparr>ln_out := x # ln_out l\<rparr>)"
proof -
  have c: "counter_ok b l y" for y using inv by (simp add: lane_inv_def)
  have "counter_ok b (l\<lparr>ln_out := x # ln_out l\<rparr>) y" for y
    using c [of y] assms(4) by (auto simp: counter_ok_def)
  moreover have "window_ok b k (l\<lparr>ln_out := x # ln_out l\<rparr>)"
    using inv assms(3,5) by (simp add: lane_inv_def window_ok_def)
  ultimately show ?thesis using inv assms(2) by (simp add: lane_inv_def)
qed

lemma inv_meter:
  assumes inv: "lane_inv b k l" and x: "x \<in> set (ln_out l)" and g: "rg_budget g = b"
    "rg_window g = recent (ln_now l) (rg_window (ln_gov l)) @ [\<lparr>rr_at = ln_now l, rr_session = x, rr_target = t\<rparr>]"
    "rg_sessions g = AList.update x s (rg_sessions (ln_gov l))"
    "\<And>y. session_reads y g = session_reads y (ln_gov l) + (if y = x then 1 else 0)" and s: "rs_lastUsed s = ln_now l"
  shows "lane_inv b k (l\<lparr>ln_gov := g, ln_mode := m, ln_out := remove1 x (ln_out l),
                          ln_hist := ln_hist l @ [\<lparr>rr_at = ln_now l, rr_session = x, rr_target = t\<rparr>]\<rparr>)" (is "lane_inv b k ?l")
proof -
  let ?a = "\<lparr>rr_at = ln_now l, rr_session = x, rr_target = t\<rparr>"
  have hour: "0 < reconHourWindow" by (simp add: reconHourWindow_def)
  have w: "window_ok b k l" and c: "counter_ok b l y" and dist: "distinct (ln_out l)" for y
    using inv by (simp_all add: lane_inv_def)
  have len: "length (ln_out l) = Suc (length (remove1 x (ln_out l)))"
    using x by (simp add: length_remove1) (metis Suc_pred length_pos_if_in_set)
  have "reads_in u (ln_hist l @ [?a]) \<le> rb_PerHour b + int k - 1" for u
    by (rule reads_in_snoc [where now = "ln_now l"]) (use w len in \<open>simp_all add: window_ok_def\<close>)
  then have "window_ok b k ?l" using w len hour g(1,2) by (auto simp: window_ok_def)
  moreover have "counter_ok b ?l y" for y
  proof -
    have "reads_in u (of_session y (ln_hist l) @ [a]) \<le> rb_PerSession b" if "y = x" and "rr_at a = ln_now l" for u a
      by (rule reads_in_snoc [where now = "ln_now l"])
        (use w c [of y] x that in \<open>auto simp: window_ok_def counter_ok_def conj_commute\<close>)
    with c [of y] w x dist hour g(3,4) s show ?thesis
      by (auto simp: counter_ok_def window_ok_def update_conv')
  qed
  ultimately show ?thesis using inv g(3) by (simp add: lane_inv_def distinct_update)
qed

lemma lane_step_inv:
  assumes "lane_step k l l'" and inv: "lane_inv b k l" and pos: "0 < rb_PerSession b"
  shows "lane_inv b k l'"
  using assms(1)
proof cases
  case (tick d)
  then show ?thesis using inv_tick [OF inv] by simp
next
  case (admitted x g)
  let ?l = "l\<lparr>ln_gov := recon_prune (ln_now l) (ln_gov l)\<rparr>"
  have b: "rg_budget (ln_gov l) = b" using inv by (simp add: lane_inv_def window_ok_def)
  have p: "lane_inv b k ?l" by (rule inv_prune [OF inv pos]) (simp_all add: b)
  from admitted(4) have a: "recon_Admit_live (ln_now l) x (ln_gov l) = (None, g)" by (simp add: recon_Admit_def map_prod_def split: prod.splits)
  have "session_reads x (recon_prune (ln_now l) (ln_gov l)) < rb_PerSession b"
    and "int (length (rg_window (recon_prune (ln_now l) (ln_gov l)))) < rb_PerHour b" and g: "g = recon_prune (ln_now l) (ln_gov l)"
    using a b pos by (cases rule: admit_live_cases [of "ln_now l" x "ln_gov l"]; auto simp: session_reads_def split: option.splits)+
  moreover have "recent (ln_now l) (rg_window (ln_gov l)) = recent (ln_now l) (ln_hist l)"
    using inv by (simp add: lane_inv_def window_ok_def)
  ultimately have "lane_inv b k (?l\<lparr>ln_out := x # ln_out ?l\<rparr>)"
    by (intro inv_admit [OF p]) (use admitted in simp_all)
  with admitted(1) g show ?thesis by simp
next
  case (refused x r g)
  have b: "rg_budget (ln_gov l) = b" using inv by (simp add: lane_inv_def window_ok_def)
  from refused(2) have "recon_Admit_live (ln_now l) x (ln_gov l) = (Some r, g)" by (simp add: recon_Admit_def map_prod_def split: prod.splits)
  then show ?thesis unfolding refused(1)
    by (cases rule: admit_live_cases [of "ln_now l" x "ln_gov l"]) (auto simp: b intro!: inv_prune [OF inv pos])
next
  case (metered x t g m)
  let ?p = "recon_prune (ln_now l) (ln_gov l)" let ?l = "l\<lparr>ln_gov := ?p\<rparr>"
  have b: "rg_budget (ln_gov l) = b" using inv by (simp add: lane_inv_def window_ok_def)
  have p: "lane_inv b k ?l" by (rule inv_prune [OF inv pos]) (simp_all add: b)
  from metered(3) have "fst (recon_Record_live (ln_now l) x t (ln_gov l) (ln_mode l)) = g"
    by (cases "recon_Record_live (ln_now l) x t (ln_gov l) (ln_mode l)") (simp add: recon_Record_def)
  then have g: "g = snd (burst_alarm (ln_now l) x (meter_read (ln_now l) x t (ln_gov l)))" by (simp add: record_live_fst)
  have r: "session_reads y g = session_reads y ?p + (if y = x then 1 else 0)" for y
    using meter_reads [of y "ln_now l" x t "ln_gov l"] by (simp add: g session_reads_def)
  show ?thesis
    using inv_meter [OF p, of x g t _ m] metered(1,2) r
    by (simp add: g b meter_sessions)
next
  case (halt why g)
  then have "rg_budget g = rg_budget (ln_gov l)" "rg_window g = rg_window (ln_gov l)" "rg_sessions g = rg_sessions (ln_gov l)"
    by (auto simp: recon_Halt_def)
  with halt(1) show ?thesis using inv by (simp add: lane_inv_def window_ok_def counter_ok_def session_reads_def)
next
  case (posture sn g)
  have b: "rg_budget (ln_gov l) = b" using inv by (simp add: lane_inv_def window_ok_def)
  from posture(2) have "g = recon_prune (ln_now l) (ln_gov l)" by (simp add: recon_Snapshot_def Let_def split: prod.splits)
  then show ?thesis using posture(1) by (auto simp: b intro!: inv_prune [OF inv pos])
next
  case (mode m)
  then show ?thesis using inv by (simp add: lane_inv_def window_ok_def counter_ok_def)
qed

lemma lane_run_inv:
  assumes "(lane_step k)\<^sup>*\<^sup>* l l'" and "lane_inv b k l" and "0 < rb_PerSession b"
  shows "lane_inv b k l'"
  using assms by (induction rule: rtranclp_induct) (auto intro: lane_step_inv)

lemma lane_init_inv: "lane_inv (sane b) k (lane_init (NewReconGovernor b kl) m now)"
  by (auto simp: lane_inv_def window_ok_def counter_ok_def lane_init_def NewReconGovernor_def session_reads_def reads_in_def
        intro: add_pos_nonneg less_imp_le)

text \<open>
  C14. The volume bounds hold whatever interleaves: in every rolling hour one investigation makes at most its
  budget of estate reads, and all investigations together at most the hourly budget and one read less than
  may be in dispatch at once, because admission is asked before the read and the read is metered after it.
  With one investigation at a time the hourly budget is exact. A zero or negative budget is the default,
  never no bound.
\<close>

theorem recon_bounded:
  assumes "(lane_step k)\<^sup>*\<^sup>* (lane_init (NewReconGovernor b kl) m now) l"
  shows "reads_in t (ln_hist l) \<le> rb_PerHour (sane b) + int k - 1
    \<and> reads_in t (filter (\<lambda>r. rr_session r = x) (ln_hist l)) \<le> rb_PerSession (sane b)
    \<and> 0 < rb_PerHour (sane b) \<and> 0 < rb_PerSession (sane b)"
proof -
  have "lane_inv (sane b) k l" by (rule lane_run_inv [OF assms lane_init_inv]) simp
  then show ?thesis by (simp add: lane_inv_def window_ok_def counter_ok_def)
qed

text \<open>
  C24. The halt is final: from the moment it is set no read is admitted any more, so the only reads that still
  happen are those already in dispatch, and nothing ever lifts it.
\<close>

theorem recon_halt_final:
  assumes "(lane_step k)\<^sup>*\<^sup>* l l'" and "rg_halted (ln_gov l)"
  shows "rg_halted (ln_gov l') \<and> mset (ln_out l') \<subseteq># mset (ln_out l)
    \<and> length (ln_hist l') + length (ln_out l') = length (ln_hist l) + length (ln_out l)"
  using assms
proof (induction rule: rtranclp_induct)
  case (step l1 l2)
  then have h: "rg_halted (ln_gov l1)" by simp
  from step(2) h have "rg_halted (ln_gov l2) \<and> mset (ln_out l2) \<subseteq># mset (ln_out l1)
    \<and> length (ln_hist l2) + length (ln_out l2) = length (ln_hist l1) + length (ln_out l1)"
  proof cases
    case (admitted x g)
    then show ?thesis using h by (simp add: recon_Admit_def recon_Admit_live_def refuse_read_def Let_def)
  next
    case (refused x r g)
    then show ?thesis using h by (auto simp: recon_Admit_def recon_Admit_live_def refuse_read_def Let_def)
  next
    case (metered x t g m)
    have "length (ln_out l1) = Suc (length (remove1 x (ln_out l1)))"
      using metered(2) by (simp add: length_remove1) (metis Suc_pred length_pos_if_in_set)
    moreover have "rg_halted g" using metered(3) h
      by (cases "recon_Record_live (ln_now l1) x t (ln_gov l1) (ln_mode l1)") (metis (no_types, lifting) fst_conv map_prod_simp option.case(2) option.inject recon_Record_def record_live_halted)
    ultimately show ?thesis using metered(1) by simp
  qed (auto simp: recon_Halt_def recon_Snapshot_def Let_def split: prod.splits)
  with step.IH [OF step.prems] show ?case by auto
qed simp

text \<open>The burst bound without an open episode, and the cap an open episode puts on it.\<close>

lemma burstState_hot:
  assumes "burstState now x g = (n, bound, i)" and "\<not> rg_burstHot g" and "0 < bound"
  shows "burstState now x (g\<lparr>rg_burstHot := True, rg_burstEpisodeLimit := bound, rg_bursts := c\<rparr>) = (n, bound, i)"
  using assms by (auto simp: burstState_def burst_reads_def Let_def)

lemma burstState_cold:
  assumes "burstState now x g = (n, bound, i)"
  shows "\<exists>bound'. burstState now x (g\<lparr>rg_burstHot := False, rg_burstEpisodeLimit := 0\<rparr>) = (n, bound', i) \<and> bound \<le> bound'"
  using assms by (auto simp: burstState_def burst_reads_def Let_def split: if_splits)

lemma burstState_positive:
  assumes "burstState now x g = (n, bound, i)" and "0 < rb_Burst (rg_budget g)"
  shows "0 < bound"
  using assms by (auto simp: burstState_def Let_def split: if_splits)

lemma burstState_capped:
  assumes "rg_burstHot g" and "0 < rg_burstEpisodeLimit g" and "burstState now x g = (n, bound, i)"
  shows "bound \<le> rg_burstEpisodeLimit g \<and> n = int (length (burst_reads now g))"
  using assms by (auto simp: burstState_def Let_def split: if_splits)

lemma meter_pruned [simp]: "recent now (rg_window (meter_read now x t g)) = rg_window (meter_read now x t g)"
  by (simp add: reconHourWindow_def)


section \<open>Witnesses\<close>

definition demo_gov :: "'m ReconGovernor" where
  "demo_gov = NewReconGovernor \<lparr>rb_PerSession = 2, rb_PerHour = 3, rb_Burst = 1, rb_BurstWindow = 0, rb_BurstPerSession = 0, rb_FanoutObserve = 0\<rparr> None"

lemma demo_admits: "recon_Admit 0 ''s1'' (Some (demo_gov :: unit ReconGovernor)) = (None, Some (recon_prune 0 demo_gov))"
proof -
  have "fst (recon_Admit_live 0 ''s1'' (demo_gov :: unit ReconGovernor)) = None" by code_simp
  then show ?thesis
    by (cases rule: admit_live_cases [of 0 "''s1''" "demo_gov :: unit ReconGovernor"]) (simp_all add: recon_Admit_def)
qed

definition demo_lane :: "unit lane" where
  "demo_lane = (lane_init demo_gov () 0)\<lparr>ln_gov := recon_prune 0 demo_gov, ln_out := [''s1'']\<rparr>"

lemma demo_lane_reached: "lane_step 1 (lane_init demo_gov () 0) demo_lane"
  using lane_step.admitted [of "''s1''" "lane_init demo_gov () 0" 1 "recon_prune 0 demo_gov"] demo_admits
  by (simp add: demo_lane_def lane_init_def)

theorem recon_bounded_witness:
  "\<exists>l. (lane_step 1)\<^sup>*\<^sup>* (lane_init (demo_gov :: unit ReconGovernor) () 0) l \<and> ln_hist l \<noteq> [] \<and> reads_in 0 (ln_hist l) \<le> 3
     \<and> reads_in 0 (filter (\<lambda>r. rr_session r = ''s1'') (ln_hist l)) \<le> 2"
proof -
  obtain g m where r: "recon_Record 0 ''s1'' ''h'' (Some (ln_gov demo_lane)) () = (Some g, m)"
    by (cases "recon_Record_live 0 ''s1'' ''h'' (ln_gov demo_lane) ()") (simp add: recon_Record_def)
  obtain l where l: "lane_step 1 demo_lane l" "ln_hist l \<noteq> []"
    using lane_step.metered [of "''s1''" demo_lane "''h''" g m 1] r by (fastforce simp: demo_lane_def lane_init_def)
  have run: "(lane_step 1)\<^sup>*\<^sup>* (lane_init demo_gov () 0) l" using demo_lane_reached l(1) by (meson converse_rtranclp_into_rtranclp rtranclp.rtrancl_refl)
  show ?thesis
    using recon_bounded [OF run [unfolded demo_gov_def], of 0 "''s1''"] run l(2) by (auto simp: sane_def)
qed

theorem recon_halt_final_witness:
  "\<exists>l l'. (lane_step 1)\<^sup>*\<^sup>* l l' \<and> rg_halted (ln_gov (l :: unit lane)) \<and> rg_halted (ln_gov l') \<and> ln_out l = [''s1''] \<and> ln_out l' = []
     \<and> length (ln_hist l') = length (ln_hist l) + 1"
proof -
  obtain g where "recon_Halt ''stop'' (Some (ln_gov demo_lane)) = Some g" and h: "rg_halted g" by (simp add: recon_Halt_def)
  define l where "l = demo_lane\<lparr>ln_gov := g\<rparr>"
  obtain g' m where r: "recon_Record 0 ''s1'' ''h'' (Some g) () = (Some g', m)"
    by (cases "recon_Record_live 0 ''s1'' ''h'' g ()") (simp add: recon_Record_def)
  obtain l' where l': "lane_step 1 l l'" "ln_out l' = []" "ln_out l = [''s1'']" "rg_halted (ln_gov l)"
    using lane_step.metered [of "''s1''" l "''h''" g' m 1] r h by (fastforce simp: l_def demo_lane_def lane_init_def)
  have run: "(lane_step 1)\<^sup>*\<^sup>* l l'" using l'(1) by blast
  show ?thesis using l' run recon_halt_final [OF run l'(4)] by (intro exI [of _ l] exI [of _ l']) auto
qed


end
