(* ===== verification/Commit_Confirm.thy ===== *)
theory Commit_Confirm
  imports OpSchema Manifest Mode Verify "HOL-Library.AList"
begin

text \<open>
  The armed revert, \<^verbatim>\<open>temporal/runner/commit_confirm.go\<close> with its table \<^verbatim>\<open>core/db/commit_confirm.go\<close>, the part of
  the session workflow that arms it (\<^verbatim>\<open>temporal/runner/workflow.go\<close>) and the sweep that re-adopts a window
  whose timer was lost (\<^verbatim>\<open>cmd/worker/main.go\<close>).

  The table is concrete. Everything else the activities read is an answer of the surroundings that may depend
  on all that happened before: \<open>Deps\<close> holds functions of the log, and every call adds to the log. A database
  statement may fail, or commit and then report a failure. The workflow engine runs an activity again after an
  error, up to its number of attempts, and an attempt that succeeded may be reported as failed. Messages and
  the texts of reasons are left out.
\<close>

section \<open>The table and the surroundings\<close>

definition CommitConfirmArmed :: string where [tg_consts]: "CommitConfirmArmed = ''armed''"
definition CommitConfirmAborted :: string where [tg_consts]: "CommitConfirmAborted = ''aborted''"
definition CommitConfirmElapsedUnconfirmed :: string where [tg_consts]: "CommitConfirmElapsedUnconfirmed = ''elapsed_unconfirmed''"
definition CommitConfirmConfirmed :: string where [tg_consts]: "CommitConfirmConfirmed = ''confirmed''"
definition CommitConfirmHeldUnverifiable :: string where [tg_consts]: "CommitConfirmHeldUnverifiable = ''held_unverifiable''"
definition CommitConfirmReverted :: string where [tg_consts]: "CommitConfirmReverted = ''reverted''"
definition CommitConfirmRevertFailed :: string where [tg_consts]: "CommitConfirmRevertFailed = ''revert_failed''"

record CommitConfirmRow =
  cr_ActionID :: string
  cr_ExternalRef :: string
  cr_OpClass :: string
  cr_TargetHost :: string
  cr_Site :: string
  cr_PlanHash :: string
  cr_State :: string
  cr_WindowSeconds :: int
  cr_ArmedAt :: instant
  cr_DeadlineAt :: instant
  cr_ResolvedAt :: "instant option"
  cr_InverseActionID :: string
  cr_ForwardBand :: string
  cr_ForwardApproved :: bool
  cr_AlertRule :: string

datatype cc_error = CcError string | ErrCommitConfirmResolved

text \<open>
  \<open>RowWritten\<close> is a committed change of a row's state; \<open>Consulted\<close> is a completed consult with its disposition
  and whether the target was seen alerting; \<open>InverseRan\<close> is an execution of the inverse that reported back,
  with whether it executed and its verdict. The other events are calls.
\<close>

datatype cc_event =
    Asked string
  | RowWritten string string string
  | Ledgered string string
  | Fed string string bool
  | Consulted string "bool option"
  | InverseAsked string
  | InverseRan string bool verdict
  | Paged
  | TripAsked
  | ChildStarted
  | ForwardAsked
  | ForwardRan bool

record cc_state =
  cs_rows :: "((string \<times> string) \<times> CommitConfirmRow) list"
  cs_log :: "cc_event list"

record ForwardExecution =
  fe_TargetHost :: string
  fe_Site :: string
  fe_Verdict :: verdict
  fe_Unverifiable :: bool
  fe_ExecutedAt :: instant

record ExecuteResult =
  xr_Executed :: bool
  xr_Verdict :: verdict

record RollbackInput =
  ri_ForwardActionID :: string
  ri_ForwardOpClass :: string
  ri_ForwardOp :: string
  ri_ForwardTarget :: string
  ri_ForwardParams :: "(string \<times> string) list option"
  ri_ForwardReversible :: bool
  ri_ForwardSite :: string
  ri_ForwardExternalRef :: string
  ri_RollbackExternalRef :: string

record RollbackExecuteInput =
  re_In :: RollbackInput
  re_InverseActionID :: string
  re_AutoFired :: bool
  re_ApprovedBasis :: bool

record Deps =
  dp_registry :: registry
  dp_overlay :: registry
  dp_hash :: "string \<Rightarrow> string"
  dp_now :: "cc_event list \<Rightarrow> instant"
  dp_fault :: "cc_event list \<Rightarrow> db_fault"
  dp_lost :: "cc_event list \<Rightarrow> bool"
  dp_giveUp :: "cc_event list \<Rightarrow> bool"
  dp_store :: bool
  dp_getter :: bool
  dp_ledger :: "cc_event list \<Rightarrow> GovDecision \<Rightarrow> string option"
  dp_canary :: "(string \<Rightarrow> string \<Rightarrow> bool) option"
  dp_rung :: "(cc_event list \<Rightarrow> string \<Rightarrow> int) option"
  dp_guest :: "(cc_event list \<Rightarrow> string \<Rightarrow> bool \<times> string \<times> bool) option"
  dp_grad :: "(cc_event list \<Rightarrow> string \<Rightarrow> string \<Rightarrow> bool \<Rightarrow> string option) option"
  dp_executions :: "(cc_event list \<Rightarrow> string \<Rightarrow> string \<Rightarrow> string + ForwardExecution option) option"
  dp_manifests :: "(cc_event list \<Rightarrow> string \<Rightarrow> string + ActionManifest option) option"
  dp_postState :: "(cc_event list \<Rightarrow> string \<Rightarrow> string \<Rightarrow> ObservedAlert list option) option"
  dp_recovered :: "(cc_event list \<Rightarrow> string \<Rightarrow> string \<Rightarrow> instant \<Rightarrow> string + bool) option"
  dp_sink :: "(cc_event list \<Rightarrow> ActionManifest \<Rightarrow> string option) option"
  dp_breaker :: "(cc_event list \<Rightarrow> string option) option"
  dp_notify :: "cc_event list \<Rightarrow> string option"
  dp_timer :: "cc_event list \<Rightarrow> string option"
  dp_start :: "cc_event list \<Rightarrow> string option"
  dp_inverse :: "cc_event list \<Rightarrow> RollbackExecuteInput \<Rightarrow> string + ExecuteResult"
  dp_forward :: "cc_event list \<Rightarrow> string + ExecuteResult"
  dp_verified :: "cc_event list \<Rightarrow> bool"

section \<open>Steps\<close>

text \<open>A step may fail; the state it reaches counts either way.\<close>

type_synonym 'a cc = "cc_state \<Rightarrow> (cc_error + 'a) \<times> cc_state"

definition give :: "'a \<Rightarrow> 'a cc" where "give x s = (Inr x, s)"
definition raise :: "cc_error \<Rightarrow> 'a cc" where "raise e s = (Inl e, s)"

definition seq :: "'a cc \<Rightarrow> ('a \<Rightarrow> 'b cc) \<Rightarrow> 'b cc" where
  "seq m f s = (case m s of (Inl e, s1) \<Rightarrow> (Inl e, s1) | (Inr x, s1) \<Rightarrow> f x s1)"

definition tell :: "cc_event \<Rightarrow> unit cc" where "tell e s = (Inr (), s\<lparr>cs_log := cs_log s @ [e]\<rparr>)"

definition query :: "cc_event \<Rightarrow> (cc_event list \<Rightarrow> 'a) \<Rightarrow> 'a cc" where
  "query e f s = (Inr (f (cs_log s)), s\<lparr>cs_log := cs_log s @ [e]\<rparr>)"

definition orRaise :: "string + 'a \<Rightarrow> 'a cc" where
  "orRaise r = (case r of Inl e \<Rightarrow> raise (CcError e) | Inr x \<Rightarrow> give x)"

definition orError :: "string option \<Rightarrow> unit cc" where
  "orError r = (case r of Some e \<Rightarrow> raise (CcError e) | None \<Rightarrow> give ())"

text \<open>The error of a step as a value.\<close>

definition attempt :: "'a cc \<Rightarrow> (cc_error + 'a) cc" where
  "attempt m s = (case m s of (r, s1) \<Rightarrow> (Inr r, s1))"

primrec retry :: "Deps \<Rightarrow> nat \<Rightarrow> 'a cc \<Rightarrow> 'a cc" where
  "retry d 0 act = raise (CcError ''no attempt left'')"
| "retry d (Suc n) act =
     seq (attempt act) (\<lambda>r.
       seq (query (Asked ''attempt'') (\<lambda>l. (dp_lost d l, dp_giveUp d l))) (\<lambda>(lost, stop).
         case r of
           Inr x \<Rightarrow> if \<not> lost then give x else if stop \<or> n = 0 then raise (CcError ''timeout'') else retry d n act
         | Inl e \<Rightarrow> if stop \<or> n = 0 then raise e else retry d n act))"

section \<open>The store\<close>

definition row_of :: "string \<Rightarrow> string \<Rightarrow> cc_state \<Rightarrow> CommitConfirmRow option" where
  "row_of a x s = map_of (cs_rows s) (a, x)"

definition write_row :: "CommitConfirmRow \<Rightarrow> unit cc" where
  "write_row r s =
     (Inr (), s\<lparr>cs_rows := AList.update (cr_ActionID r, cr_ExternalRef r) r (cs_rows s),
                cs_log := cs_log s @ [RowWritten (cr_ActionID r) (cr_ExternalRef r) (cr_State r)]\<rparr>)"

definition find_row :: "string \<Rightarrow> string \<Rightarrow> CommitConfirmRow option cc" where
  "find_row a x s = (Inr (row_of a x s), s)"

definition store_Get :: "Deps \<Rightarrow> string \<Rightarrow> string \<Rightarrow> CommitConfirmRow cc" where
  "store_Get d a x =
     seq (query (Asked ''select'') (dp_fault d)) (\<lambda>f.
       if f \<noteq> Works then raise (CcError ''get commit_confirm'')
       else seq (find_row a x) (\<lambda>r. case r of None \<Rightarrow> raise (CcError ''no rows'') | Some r \<Rightarrow> give r))"

definition ArmCommitConfirm :: "Deps \<Rightarrow> CommitConfirmRow \<Rightarrow> unit cc" where
  "ArmCommitConfirm d r =
     (if trim_space (cr_ActionID r) = [] \<or> trim_space (cr_ExternalRef r) = [] then raise (CcError ''empty key'')
      else if cr_WindowSeconds r \<le> 0 then raise (CcError ''non-positive window'')
      else seq (query (Asked ''insert'') (\<lambda>l. (dp_fault d l, dp_now d l))) (\<lambda>(f, now).
        if f = Fails then raise (CcError ''insert'')
        else seq (find_row (cr_ActionID r) (cr_ExternalRef r)) (\<lambda>old.
          case old of
            None \<Rightarrow>
              seq (write_row (r\<lparr>cr_State := CommitConfirmArmed, cr_ArmedAt := now,
                                cr_DeadlineAt := now + cr_WindowSeconds r * 1000000000\<rparr>)) (\<lambda>_.
                if f = Works then give () else raise (CcError ''insert''))
          | Some _ \<Rightarrow>
              if f \<noteq> Works then raise (CcError ''insert'')
              else seq (store_Get d (cr_ActionID r) (cr_ExternalRef r)) (\<lambda>got.
                if cr_State got = CommitConfirmArmed \<and> cr_WindowSeconds got = cr_WindowSeconds r then give ()
                else raise (CcError ''refusing to re-arm over a resolved window'')))))"

definition resolvable :: "string \<Rightarrow> bool" where
  "resolvable st \<longleftrightarrow>
     st \<in> {CommitConfirmAborted, CommitConfirmElapsedUnconfirmed, CommitConfirmConfirmed, CommitConfirmHeldUnverifiable,
           CommitConfirmReverted, CommitConfirmRevertFailed}"

definition store_Resolve :: "Deps \<Rightarrow> string \<Rightarrow> string \<Rightarrow> string \<Rightarrow> string \<Rightarrow> unit cc" where
  "store_Resolve d a x st invId =
     (if \<not> resolvable st then raise (CcError ''not a resolvable state'')
      else seq (query (Asked ''update'') (\<lambda>l. (dp_fault d l, dp_now d l))) (\<lambda>(f, now).
        if f = Fails then raise (CcError ''update'')
        else seq (find_row a x) (\<lambda>old.
          case old of
            Some r \<Rightarrow>
              if cr_State r = CommitConfirmArmed \<or> cr_State r = CommitConfirmHeldUnverifiable
              then seq (write_row (r\<lparr>cr_ActionID := a, cr_ExternalRef := x, cr_State := st, cr_ResolvedAt := Some now, cr_InverseActionID := invId\<rparr>)) (\<lambda>_.
                     if f = Works then give () else raise (CcError ''update''))
              else raise (if f = Works then ErrCommitConfirmResolved else CcError ''update'')
          | None \<Rightarrow> raise (if f = Works then ErrCommitConfirmResolved else CcError ''update''))))"

definition OverdueArmed :: "instant \<Rightarrow> duration \<Rightarrow> int \<Rightarrow> cc_state \<Rightarrow> CommitConfirmRow list" where
  "OverdueArmed now slack limit s =
     (let limit = (if limit \<le> 0 then 50 else limit) in
      take (nat limit) (sort_key cr_DeadlineAt
        (filter (\<lambda>r. cr_State r = CommitConfirmArmed \<and> cr_DeadlineAt r < now - slack) (map snd (cs_rows s)))))"

section \<open>Arming\<close>

record ArmCommitConfirmInput =
  ai_ActionID :: string
  ai_ExternalRef :: string
  ai_OpClass :: string
  ai_TargetHost :: string
  ai_Site :: string
  ai_PlanHash :: string
  ai_Band :: string
  ai_Approved :: bool
  ai_AlertRule :: string
  ai_GuestParam :: string

record ArmCommitConfirmResult =
  ar_Eligible :: bool
  ar_WindowSeconds :: int
  ar_MandateRefused :: bool
  ar_NoOpRefused :: bool

definition not_eligible :: ArmCommitConfirmResult where
  "not_eligible = \<lparr>ar_Eligible = False, ar_WindowSeconds = 0, ar_MandateRefused = False, ar_NoOpRefused = False\<rparr>"

definition RungAutoNotice :: int where [tg_consts]: "RungAutoNotice = 1"
definition RungAuto :: int where [tg_consts]: "RungAuto = 2"

definition rungFor :: "Deps \<Rightarrow> string \<Rightarrow> int cc" where
  "rungFor d opClass =
     (case dp_rung d of
        None \<Rightarrow> give RungAuto
      | Some f \<Rightarrow> if trim_space opClass = [] then give RungAuto else query (Asked ''rung'') (\<lambda>l. f l opClass))"

definition ledger_append :: "Deps \<Rightarrow> string \<Rightarrow> string \<Rightarrow> unit cc" where
  "ledger_append d dec a =
     seq (query (Asked ''ledger'') (\<lambda>l. dp_ledger d l \<lparr>gd_Decision = dec, gd_Reason = [], gd_ActionID = a, gd_Withheld = False\<rparr>)) (\<lambda>e.
       seq (orError e) (\<lambda>_. tell (Ledgered dec a)))"

definition guest_or_host :: "string \<Rightarrow> string \<Rightarrow> string" where
  "guest_or_host guest host = (let t = trim_space guest in if t = [] then trim_space host else t)"

text \<open>\<open>want\<close> is the state the class requires before it acts, so its opposite is the state it brings about.\<close>

definition reached :: "string \<Rightarrow> bool \<Rightarrow> bool" where
  "reached want running \<longleftrightarrow> want = RequiresNotRunning \<and> running \<or> want = RequiresRunning \<and> \<not> running"

definition already_desired :: "Deps \<Rightarrow> ArmCommitConfirmInput \<Rightarrow> string \<Rightarrow> bool cc" where
  "already_desired d ai want =
     (case dp_guest d of
        None \<Rightarrow> give False
      | Some f \<Rightarrow>
          if want = [] then give False
          else seq (query (Asked ''guest'') (\<lambda>l. f l (guest_or_host (ai_GuestParam ai) (ai_TargetHost ai)))) (\<lambda>(running, _, ok).
                 give (ok \<and> reached want running)))"

definition ArmCommitConfirmActivity :: "Deps \<Rightarrow> ArmCommitConfirmInput \<Rightarrow> ArmCommitConfirmResult cc" where
  "ArmCommitConfirmActivity d ai =
     (case Lookup (dp_registry d) (dp_overlay d) (ai_OpClass ai) of
        None \<Rightarrow> give not_eligible
      | Some spec \<Rightarrow>
          (case oc_CommitConfirmed spec of
             None \<Rightarrow>
               if (case dp_canary d of None \<Rightarrow> False | Some f \<Rightarrow> f (ai_TargetHost ai) (ai_OpClass ai))
               then give (not_eligible\<lparr>ar_MandateRefused := True\<rparr>)
               else seq (rungFor d (ai_OpClass ai)) (\<lambda>rung.
                      give (not_eligible\<lparr>ar_MandateRefused := (rung = RungAutoNotice)\<rparr>))
           | Some window \<Rightarrow>
               seq (already_desired d ai (oc_RequiresTargetState spec)) (\<lambda>noop.
                 if noop then give (not_eligible\<lparr>ar_NoOpRefused := True\<rparr>)
                 else if trim_space (ai_ActionID ai) = [] \<or> trim_space (ai_ExternalRef ai) = [] then raise (CcError ''empty action identity'')
                 else if \<not> dp_store d then raise (CcError ''no durable store wired'')
                 else seq (ArmCommitConfirm d
                        \<lparr>cr_ActionID = ai_ActionID ai, cr_ExternalRef = ai_ExternalRef ai, cr_OpClass = ai_OpClass ai,
                         cr_TargetHost = ai_TargetHost ai, cr_Site = ai_Site ai, cr_PlanHash = ai_PlanHash ai, cr_State = [],
                         cr_WindowSeconds = window, cr_ArmedAt = 0, cr_DeadlineAt = 0, cr_ResolvedAt = None,
                         cr_InverseActionID = [], cr_ForwardBand = ai_Band ai, cr_ForwardApproved = ai_Approved ai,
                         cr_AlertRule = ai_AlertRule ai\<rparr>) (\<lambda>_.
                      seq (ledger_append d ''commit-confirm:armed'' (ai_ActionID ai)) (\<lambda>_.
                        give (not_eligible\<lparr>ar_Eligible := True, ar_WindowSeconds := window\<rparr>))))))"

section \<open>Resolving\<close>

record ResolveCommitConfirmInput =
  rc_ActionID :: string
  rc_ExternalRef :: string
  rc_State :: string
  rc_InverseActionID :: string

definition commitConfirmRowFor :: "Deps \<Rightarrow> string \<Rightarrow> string \<Rightarrow> CommitConfirmRow cc" where
  "commitConfirmRowFor d a x = (if \<not> dp_getter d then raise (CcError ''recorder cannot load rows'') else store_Get d a x)"

text \<open>Which resolutions reach the graduation ladder, and whether as a clean run.\<close>

definition feeds :: "string \<Rightarrow> bool option" where
  "feeds st =
     (if st = CommitConfirmConfirmed then Some True
      else if st = CommitConfirmReverted \<or> st = CommitConfirmRevertFailed then Some False
      else None)"

definition graduation_feed :: "Deps \<Rightarrow> ResolveCommitConfirmInput \<Rightarrow> unit cc" where
  "graduation_feed d ri =
     (case (feeds (rc_State ri), dp_grad d) of
        (Some clean, Some rec) \<Rightarrow>
          seq (attempt (commitConfirmRowFor d (rc_ActionID ri) (rc_ExternalRef ri))) (\<lambda>row.
            case row of
              Inl _ \<Rightarrow> give ()
            | Inr r \<Rightarrow>
                if trim_space (cr_OpClass r) = [] then give ()
                else seq (query (Fed (cr_OpClass r) (rc_ExternalRef ri) clean) (\<lambda>l. rec l (cr_OpClass r) (rc_ExternalRef ri) clean)) (\<lambda>_. give ()))
      | _ \<Rightarrow> give ())"

definition ResolveCommitConfirmActivity :: "Deps \<Rightarrow> ResolveCommitConfirmInput \<Rightarrow> unit cc" where
  "ResolveCommitConfirmActivity d ri =
     (let ledger_and_feed = seq (ledger_append d (''commit-confirm:'' @ rc_State ri) (rc_ActionID ri)) (\<lambda>_. graduation_feed d ri) in
      if \<not> dp_store d then raise (CcError ''no durable store wired'')
      else seq (attempt (store_Resolve d (rc_ActionID ri) (rc_ExternalRef ri) (rc_State ri) (rc_InverseActionID ri))) (\<lambda>r.
        case r of
          Inr _ \<Rightarrow> ledger_and_feed
        | Inl ErrCommitConfirmResolved \<Rightarrow>
            seq (attempt (commitConfirmRowFor d (rc_ActionID ri) (rc_ExternalRef ri))) (\<lambda>row.
              case row of
                Inl _ \<Rightarrow> raise (CcError ''already resolved but cannot read the winner'')
              | Inr w \<Rightarrow> if cr_State w \<noteq> rc_State ri then give () else ledger_and_feed)
        | Inl e \<Rightarrow> raise e))"

section \<open>The consult\<close>

definition ConsultPending :: string where [tg_consts]: "ConsultPending = ''pending''"
definition ConsultConfirmed :: string where [tg_consts]: "ConsultConfirmed = ''confirmed''"
definition ConsultUnverifiable :: string where [tg_consts]: "ConsultUnverifiable = ''unverifiable''"
definition ConsultDeviation :: string where [tg_consts]: "ConsultDeviation = ''deviation''"

record ConsultCommitConfirmInput =
  co_ActionID :: string
  co_ExternalRef :: string
  co_AlertRule :: string

definition terminus_disposition :: "ForwardExecution option \<Rightarrow> bool \<Rightarrow> string" where
  "terminus_disposition found chainExecuted =
     (case found of
        None \<Rightarrow> if \<not> chainExecuted then ConsultPending else ConsultUnverifiable
      | Some e \<Rightarrow>
          if fe_Unverifiable e then ConsultUnverifiable
          else if fe_Verdict e = VerdictMatch then ConsultConfirmed
          else if fe_Verdict e = VerdictPartial \<or> fe_Verdict e = VerdictDeviation then ConsultDeviation
          else ConsultUnverifiable)"

definition action_param :: "string \<Rightarrow> Action \<Rightarrow> string" where
  "action_param k a = (case map_of (params_list a) k of None \<Rightarrow> [] | Some v \<Rightarrow> v)"

definition manifest_of :: "Deps \<Rightarrow> string \<Rightarrow> ActionManifest option cc" where
  "manifest_of d a =
     (case dp_manifests d of
        None \<Rightarrow> give None
      | Some f \<Rightarrow> seq (query (Asked ''manifest'') (\<lambda>l. f l a)) (\<lambda>r. give (case r of Inl _ \<Rightarrow> None | Inr m \<Rightarrow> m)))"

definition observe_alerting :: "Deps \<Rightarrow> string \<Rightarrow> string \<Rightarrow> bool option cc" where
  "observe_alerting d host site =
     (case dp_postState d of
        None \<Rightarrow> give None
      | Some f \<Rightarrow>
          if host = [] then give None
          else seq (query (Asked ''post-state'') (\<lambda>l. f l host site)) (\<lambda>alerts.
                 give (map_option (\<lambda>as. list_ex (\<lambda>al. oa_Host al = host) as) alerts)))"

text \<open>
  The two durable substitutes for an unobservable post-state: a positive liveness read for a class with a
  required target state, a captured recovery of the incident's rule for a class without one.
\<close>

definition liveness_confirms :: "Deps \<Rightarrow> ActionManifest option \<Rightarrow> string \<Rightarrow> bool cc" where
  "liveness_confirms d m host =
     (case dp_guest d of
        None \<Rightarrow> give False
      | Some f \<Rightarrow>
          (case Lookup (dp_registry d) (dp_overlay d) (case m of None \<Rightarrow> [] | Some m \<Rightarrow> ac_OpClass (am_Action m)) of
             None \<Rightarrow> give False
           | Some spec \<Rightarrow>
               if oc_RequiresTargetState spec = [] then give False
               else seq (query (Asked ''guest'') (\<lambda>l. f l (guest_or_host (case m of None \<Rightarrow> [] | Some m \<Rightarrow> action_param ''guest'' (am_Action m)) host))) (\<lambda>(running, _, ok).
                      give (ok \<and> reached (oc_RequiresTargetState spec) running))))"

definition recovery_confirms :: "Deps \<Rightarrow> ConsultCommitConfirmInput \<Rightarrow> ActionManifest option \<Rightarrow> string \<Rightarrow> ForwardExecution \<Rightarrow> bool cc" where
  "recovery_confirms d co m host e =
     (case dp_recovered d of
        None \<Rightarrow> give False
      | Some f \<Rightarrow>
          if trim_space (co_AlertRule co) = [] \<or> fe_ExecutedAt e = 0 then give False
          else case Lookup (dp_registry d) (dp_overlay d) (case m of None \<Rightarrow> [] | Some m \<Rightarrow> ac_OpClass (am_Action m)) of
                 None \<Rightarrow> give False
               | Some spec \<Rightarrow>
                   if oc_RequiresTargetState spec \<noteq> [] then give False
                   else seq (query (Asked ''recovered'') (\<lambda>l. f l host (co_AlertRule co) (fe_ExecutedAt e))) (\<lambda>r.
                          give (r = Inr True)))"

definition substitute_confirms :: "Deps \<Rightarrow> ConsultCommitConfirmInput \<Rightarrow> ActionManifest option \<Rightarrow> string \<Rightarrow> ForwardExecution option \<Rightarrow> bool cc" where
  "substitute_confirms d co m host found =
     (case found of
        None \<Rightarrow> give False
      | Some e \<Rightarrow>
          if \<not> fe_Unverifiable e then give False
          else seq (liveness_confirms d m host) (\<lambda>live. if live then give True else recovery_confirms d co m host e))"

definition ConsultCommitConfirmActivity :: "Deps \<Rightarrow> ConsultCommitConfirmInput \<Rightarrow> (string \<times> bool option) cc" where
  "ConsultCommitConfirmActivity d co =
     (case dp_executions d of
        None \<Rightarrow> raise (CcError ''no execution reader wired'')
      | Some ex \<Rightarrow>
          seq (query (Asked ''execution'') (\<lambda>l. ex l (co_ActionID co) (co_ExternalRef co))) (\<lambda>r.
          seq (orRaise r) (\<lambda>found.
          seq (manifest_of d (co_ActionID co)) (\<lambda>m.
            let chainExecuted = (case m of None \<Rightarrow> False | Some m \<Rightarrow> list_ex (\<lambda>st. sg_Stage st = StageExecuted) (am_Stages m));
                disp = terminus_disposition found chainExecuted;
                host = (case found of Some e \<Rightarrow> fe_TargetHost e | None \<Rightarrow> (case m of None \<Rightarrow> [] | Some m \<Rightarrow> ac_Target (am_Action m)));
                site = (case found of Some e \<Rightarrow> fe_Site e | None \<Rightarrow> [])
            in seq (observe_alerting d host site) (\<lambda>alerting.
               seq (if disp = ConsultUnverifiable then substitute_confirms d co m host found else give False) (\<lambda>sub.
               let disp = (if sub then ConsultConfirmed else disp) in
               seq (tell (Consulted disp alerting)) (\<lambda>_. give (disp, alerting))))))))"

section \<open>The inverse\<close>

record SealCommitConfirmInverseResult =
  si_Sealed :: bool
  si_InverseActionID :: string
  si_RollbackIn :: "RollbackInput option"
  si_ApprovedBasis :: bool

definition refuse_seal :: SealCommitConfirmInverseResult where
  "refuse_seal = \<lparr>si_Sealed = False, si_InverseActionID = [], si_RollbackIn = None, si_ApprovedBasis = False\<rparr>"

definition rollbackArgvFor :: "OpClassSpec \<Rightarrow> bool \<Rightarrow> params \<Rightarrow> (string list) option" where
  "rollbackArgvFor spec forwardReversible ps =
     (if \<not> forwardReversible then None
      else if oc_SafetyTier spec \<noteq> TierLowReversible then None
      else let op = norm_key (oc_Op spec) in
           if oc_RollbackTemplate spec = [] \<and> op \<noteq> ''restart'' \<and> op \<noteq> ''reload'' then None
           else case RollbackArgv spec ps of
                  Inl _ \<Rightarrow> None
                | Inr argv \<Rightarrow> if argv = [] then None else Some argv)"

definition inverseActionFor :: "RollbackInput \<Rightarrow> Action" where
  "inverseActionFor ri =
     \<lparr>ac_Target = ri_ForwardTarget ri, ac_OpClass = ri_ForwardOpClass ri, ac_Op = ''rollback:'' @ trim_space (ri_ForwardOp ri),
      ac_Params = ri_ForwardParams ri, ac_Reversible = True\<rparr>"

definition commitConfirmBandFromRow :: "string \<Rightarrow> band" where
  "commitConfirmBandFromRow s =
     (if s = band_string BandAuto then BandAuto
      else if s = band_string BandAutoNotice then BandAutoNotice
      else BandPollPause)"

definition PlanHash :: "(string \<Rightarrow> string) \<Rightarrow> string \<Rightarrow> string \<Rightarrow> string" where
  "PlanHash H externalRef actionID = H (externalRef @ CHR 0x00 # actionID)"

definition rollback_params :: "RollbackInput \<Rightarrow> params" where
  "rollback_params ri = map_of (case ri_ForwardParams ri of None \<Rightarrow> [] | Some ps \<Rightarrow> ps)"

text \<open>The blind-mutation guard of an inverse class that requires a target state: may it fire?\<close>

definition inverse_precondition :: "Deps \<Rightarrow> OpClassSpec \<Rightarrow> string \<Rightarrow> bool cc" where
  "inverse_precondition d spec target =
     (let want = oc_RequiresTargetState spec in
      if want = [] then give True
      else case dp_guest d of
             None \<Rightarrow> give False
           | Some f \<Rightarrow>
               seq (query (Asked ''guest'') (\<lambda>l. f l target)) (\<lambda>(running, _, ok).
                 give (ok \<and> \<not> (want = RequiresRunning \<and> \<not> running \<or> want = RequiresNotRunning \<and> running))))"

text \<open>The inverse action, when the declaration of the class allows one.\<close>

definition derive_inverse :: "Deps \<Rightarrow> OpClassSpec \<Rightarrow> RollbackInput \<Rightarrow> Action option" where
  "derive_inverse d spec ri =
     (let invClass = trim_space (oc_RollbackOpClass spec) in
      if invClass \<noteq> [] then
        (case Lookup (dp_registry d) (dp_overlay d) invClass of
           None \<Rightarrow> None
         | Some invSpec \<Rightarrow>
             if oc_SafetyTier invSpec \<noteq> TierLowReversible then None
             else if \<not> ri_ForwardReversible ri then None
             else case spec_Argv invSpec (rollback_params ri) of
                    Inl _ \<Rightarrow> None
                  | Inr argv \<Rightarrow>
                      if argv = [] then None
                      else Some \<lparr>ac_Target = ri_ForwardTarget ri, ac_OpClass = invClass, ac_Op = oc_Op invSpec,
                                 ac_Params = ri_ForwardParams ri, ac_Reversible = True\<rparr>)
      else case rollbackArgvFor spec (ri_ForwardReversible ri) (rollback_params ri) of
             None \<Rightarrow> None
           | Some _ \<Rightarrow> Some (inverseActionFor ri))"

definition seal_inverse :: "Deps \<Rightarrow> CommitConfirmRow \<Rightarrow> OpClassSpec \<Rightarrow> RollbackInput \<Rightarrow> SealCommitConfirmInverseResult cc" where
  "seal_inverse d row spec ri =
     (case derive_inverse d spec ri of
        None \<Rightarrow> give refuse_seal
      | Some undo \<Rightarrow>
          (case New_manifest (dp_hash d) undo (commitConfirmBandFromRow (cr_ForwardBand row))
                  (PlanHash (dp_hash d) (ri_RollbackExternalRef ri) []) [] [] of
             Inl _ \<Rightarrow> raise (CcError ''manifest'')
           | Inr m0 \<Rightarrow>
               (let m = WithProvenance m0 (no_provenance\<lparr>pv_IncidentRef := ri_RollbackExternalRef ri\<rparr>);
                    basis = (cr_ForwardApproved row \<and> trim_space (oc_RollbackOpClass spec) = [])
                in seq (case dp_sink d of None \<Rightarrow> give None | Some f \<Rightarrow> query (Asked ''seal'') (\<lambda>l. f l m)) (\<lambda>e.
                   seq (orError e) (\<lambda>_.
                   seq (ledger_append d ''commit-confirm:inverse-sealed'' (ri_ForwardActionID ri)) (\<lambda>_.
                     give \<lparr>si_Sealed = True, si_InverseActionID = am_ActionID m, si_RollbackIn = Some ri, si_ApprovedBasis = basis\<rparr>))))))"

definition SealCommitConfirmInverseActivity :: "Deps \<Rightarrow> string \<Rightarrow> string \<Rightarrow> SealCommitConfirmInverseResult cc" where
  "SealCommitConfirmInverseActivity d a x =
     (if \<not> dp_store d then raise (CcError ''no durable store wired'')
      else seq (commitConfirmRowFor d a x) (\<lambda>row.
        case dp_manifests d of
          None \<Rightarrow> give refuse_seal
        | Some mf \<Rightarrow>
            seq (query (Asked ''manifest'') (\<lambda>l. mf l a)) (\<lambda>r.
            seq (orRaise r) (\<lambda>fm.
            case (fm, Lookup (dp_registry d) (dp_overlay d) (cr_OpClass row)) of
              (Some fm, Some spec) \<Rightarrow>
                (let act = am_Action fm;
                     invClass = trim_space (oc_RollbackOpClass spec);
                     guest = action_param ''guest'' act;
                     target = (if guest = [] then cr_TargetHost row else guest)
                 in seq (if invClass = [] then give True
                         else case Lookup (dp_registry d) (dp_overlay d) invClass of
                                None \<Rightarrow> give False
                              | Some invSpec \<Rightarrow> inverse_precondition d invSpec target) (\<lambda>ok.
                      if \<not> ok then give refuse_seal
                      else seal_inverse d row spec
                             \<lparr>ri_ForwardActionID = a, ri_ForwardOpClass = cr_OpClass row, ri_ForwardOp = ac_Op act,
                              ri_ForwardTarget = cr_TargetHost row, ri_ForwardParams = ac_Params act, ri_ForwardReversible = ac_Reversible act,
                              ri_ForwardSite = cr_Site row, ri_ForwardExternalRef = x, ri_RollbackExternalRef = ''ccrevert-'' @ x\<rparr>))
            | _ \<Rightarrow> give refuse_seal))))"

definition TripMutationBreakerActivity :: "Deps \<Rightarrow> unit cc" where
  "TripMutationBreakerActivity d =
     (case dp_breaker d of
        None \<Rightarrow> raise (CcError ''no breaker wired'')
      | Some f \<Rightarrow> seq (query TripAsked f) orError)"

section \<open>The dead-man's switch\<close>

record CommitConfirmInput =
  ci_ActionID :: string
  ci_ExternalRef :: string
  ci_WindowSeconds :: int
  ci_AlertRule :: string

text \<open>The child's activities have five attempts, the execution of the inverse one.\<close>

definition resolve :: "Deps \<Rightarrow> CommitConfirmInput \<Rightarrow> string \<Rightarrow> string \<Rightarrow> unit cc" where
  "resolve d ci st invId =
     retry d 5 (ResolveCommitConfirmActivity d
       \<lparr>rc_ActionID = ci_ActionID ci, rc_ExternalRef = ci_ExternalRef ci, rc_State = st, rc_InverseActionID = invId\<rparr>)"

definition page :: "Deps \<Rightarrow> unit cc" where
  "page d = seq (attempt (retry d 5 (seq (query Paged (dp_notify d)) orError))) (\<lambda>_. give ())"

definition consult :: "Deps \<Rightarrow> CommitConfirmInput \<Rightarrow> (string \<times> bool option) cc" where
  "consult d ci =
     retry d 5 (ConsultCommitConfirmActivity d \<lparr>co_ActionID = ci_ActionID ci, co_ExternalRef = ci_ExternalRef ci, co_AlertRule = ci_AlertRule ci\<rparr>)"

definition revert_failed :: "Deps \<Rightarrow> CommitConfirmInput \<Rightarrow> string \<Rightarrow> unit cc" where
  "revert_failed d ci invId =
     seq (resolve d ci CommitConfirmRevertFailed invId) (\<lambda>_.
     seq (page d) (\<lambda>_.
     seq (attempt (retry d 5 (TripMutationBreakerActivity d))) (\<lambda>_. give ())))"

definition run_inverse :: "Deps \<Rightarrow> SealCommitConfirmInverseResult \<Rightarrow> RollbackInput \<Rightarrow> ExecuteResult cc" where
  "run_inverse d sl ri =
     seq (query (InverseAsked (si_InverseActionID sl)) (\<lambda>l. dp_inverse d l
            \<lparr>re_In = ri, re_InverseActionID = si_InverseActionID sl, re_AutoFired = True, re_ApprovedBasis = si_ApprovedBasis sl\<rparr>)) (\<lambda>r.
     seq (orRaise r) (\<lambda>x.
     seq (tell (InverseRan (si_InverseActionID sl) (xr_Executed x) (xr_Verdict x))) (\<lambda>_. give x)))"

definition commitConfirmFireInverse :: "Deps \<Rightarrow> CommitConfirmInput \<Rightarrow> unit cc" where
  "commitConfirmFireInverse d ci =
     seq (attempt (retry d 5 (SealCommitConfirmInverseActivity d (ci_ActionID ci) (ci_ExternalRef ci)))) (\<lambda>sealed.
       case sealed of
         Inl _ \<Rightarrow> revert_failed d ci []
       | Inr sl \<Rightarrow>
           (case si_RollbackIn sl of
              None \<Rightarrow> revert_failed d ci []
            | Some ri \<Rightarrow>
                seq (attempt (retry d 1 (run_inverse d sl ri))) (\<lambda>ex.
                  case ex of
                    Inl _ \<Rightarrow> revert_failed d ci (si_InverseActionID sl)
                  | Inr x \<Rightarrow>
                      if \<not> xr_Executed x then revert_failed d ci (si_InverseActionID sl)
                      else if xr_Verdict x = VerdictMatch
                      then seq (resolve d ci CommitConfirmReverted (si_InverseActionID sl)) (\<lambda>_. page d)
                      else revert_failed d ci (si_InverseActionID sl))))"

definition commitConfirmHoldRechecks :: nat where [tg_consts]: "commitConfirmHoldRechecks = 6"

primrec hold_watch :: "Deps \<Rightarrow> CommitConfirmInput \<Rightarrow> nat \<Rightarrow> unit cc" where
  "hold_watch d ci 0 = page d"
| "hold_watch d ci (Suc n) =
     seq (query (Asked ''timer'') (dp_timer d)) (\<lambda>e.
     seq (orError e) (\<lambda>_.
     seq (attempt (consult d ci)) (\<lambda>c.
       case c of
         Inl _ \<Rightarrow> hold_watch d ci n
       | Inr (_, alerting) \<Rightarrow> if alerting = Some True then commitConfirmFireInverse d ci else hold_watch d ci n)))"

definition commitConfirmHold :: "Deps \<Rightarrow> CommitConfirmInput \<Rightarrow> unit cc" where
  "commitConfirmHold d ci =
     seq (resolve d ci CommitConfirmHeldUnverifiable []) (\<lambda>_.
     seq (page d) (\<lambda>_. hold_watch d ci commitConfirmHoldRechecks))"

definition commitConfirmConsultAndAct :: "Deps \<Rightarrow> CommitConfirmInput \<Rightarrow> bool \<Rightarrow> bool cc" where
  "commitConfirmConsultAndAct d ci atElapse =
     seq (attempt (consult d ci)) (\<lambda>c.
       case c of
         Inl e \<Rightarrow> if \<not> atElapse then give False else raise e
       | Inr (disp, _) \<Rightarrow>
           if disp = ConsultConfirmed then seq (resolve d ci CommitConfirmConfirmed []) (\<lambda>_. give True)
           else if disp = ConsultDeviation then seq (commitConfirmFireInverse d ci) (\<lambda>_. give True)
           else if \<not> atElapse then give False
           else seq (commitConfirmHold d ci) (\<lambda>_. give True))"

text \<open>
  The loop over the selector: the kinds of the signals that are received before the window elapses, in order.
\<close>

fun window_loop :: "Deps \<Rightarrow> CommitConfirmInput \<Rightarrow> string list \<Rightarrow> unit cc" where
  "window_loop d ci [] = seq (commitConfirmConsultAndAct d ci True) (\<lambda>_. give ())"
| "window_loop d ci (kind # kinds) =
     (if kind = ''abort'' then resolve d ci CommitConfirmAborted []
      else if kind = ''confirm-input''
      then seq (commitConfirmConsultAndAct d ci False) (\<lambda>fin. if fin then give () else window_loop d ci kinds)
      else window_loop d ci kinds)"

definition CommitConfirmWorkflow :: "Deps \<Rightarrow> CommitConfirmInput \<Rightarrow> string list \<Rightarrow> unit cc" where
  "CommitConfirmWorkflow d ci signals =
     (if ci_WindowSeconds ci \<le> 0 then raise (CcError ''non-positive window'') else window_loop d ci signals)"

text \<open>What the sweep starts for an overdue window.\<close>

definition adopted :: "CommitConfirmRow \<Rightarrow> CommitConfirmInput" where
  "adopted r = \<lparr>ci_ActionID = cr_ActionID r, ci_ExternalRef = cr_ExternalRef r, ci_WindowSeconds = 60, ci_AlertRule = cr_AlertRule r\<rparr>"

section \<open>The session's side\<close>

datatype forward_outcome = RefusedUnarmable | RefusedNoOp | ForwardResult ExecuteResult "string option"

definition armWindow :: "Deps \<Rightarrow> nat \<Rightarrow> ArmCommitConfirmInput \<Rightarrow> (forward_outcome + bool) cc" where
  "armWindow d n ai =
     seq (attempt (retry d n (ArmCommitConfirmActivity d ai))) (\<lambda>r.
       case r of
         Inl _ \<Rightarrow> give (Inl RefusedUnarmable)
       | Inr ar \<Rightarrow>
           if ar_NoOpRefused ar then give (Inl RefusedNoOp)
           else if ar_MandateRefused ar then give (Inl RefusedUnarmable)
           else if \<not> ar_Eligible ar then give (Inr False)
           else seq (query (Asked ''start'') (dp_start d)) (\<lambda>e.
             case e of
               None \<Rightarrow> seq (tell ChildStarted) (\<lambda>_. give (Inr True))
             | Some _ \<Rightarrow>
                 seq (attempt (retry d n (ResolveCommitConfirmActivity d
                        \<lparr>rc_ActionID = ai_ActionID ai, rc_ExternalRef = ai_ExternalRef ai, rc_State = CommitConfirmAborted, rc_InverseActionID = []\<rparr>))) (\<lambda>_.
                   give (Inl RefusedUnarmable))))"

text \<open>
  The armed forward execution with the signal it sends to the window, if any. An executed effect is followed
  by its verification before the nudge; \<open>dp_verified\<close> says whether the session gets that far.
\<close>

definition forwardArmed :: "Deps \<Rightarrow> nat \<Rightarrow> ArmCommitConfirmInput \<Rightarrow> forward_outcome cc" where
  "forwardArmed d n ai =
     seq (armWindow d n ai) (\<lambda>r.
       case r of
         Inl out \<Rightarrow> give out
       | Inr ccArmed \<Rightarrow>
           seq (retry d 1 (seq (query ForwardAsked (dp_forward d)) (\<lambda>r.
                             seq (orRaise r) (\<lambda>x. seq (tell (ForwardRan (xr_Executed x))) (\<lambda>_. give x))))) (\<lambda>x.
           seq (query (Asked ''verify'') (dp_verified d)) (\<lambda>verified.
             give (ForwardResult x
                     (if \<not> ccArmed then None
                      else if \<not> xr_Executed x then Some ''abort''
                      else if verified then Some ''confirm-input'' else None)))))"

end
