(* ===== verification/Commit_Confirm_Facts.thy ===== *)
theory Commit_Confirm_Facts
  imports Commit_Confirm
begin

text \<open>
  What the armed revert guarantees. The first section gives a calculus of footprints: what a step adds to the
  log, and that the state of every row is what the log says was written last. The properties follow from one
  footprint per activity.
\<close>

section \<open>Footprints\<close>

definition state_of :: "string \<Rightarrow> string \<Rightarrow> cc_state \<Rightarrow> string option" where
  "state_of a x s = map_option cr_State (row_of a x s)"

fun written :: "string \<Rightarrow> string \<Rightarrow> string option \<Rightarrow> cc_event \<Rightarrow> string option" where
  "written a x st (RowWritten b y st') = (if a = b \<and> x = y then Some st' else st)"
| "written a x st _ = st"

definition replay :: "string \<Rightarrow> string \<Rightarrow> cc_event list \<Rightarrow> string option \<Rightarrow> string option" where
  "replay a x es st = foldl (written a x) st es"

lemma replay_simps [simp]: "replay a x [] st = st" "replay a x (e # es) st = replay a x es (written a x st e)"
  "replay a x (es @ fs) st = replay a x fs (replay a x es st)"
  by (simp_all add: replay_def)

definition emits :: "'a cc \<Rightarrow> (cc_error + 'a \<Rightarrow> cc_event list \<Rightarrow> bool) \<Rightarrow> bool" where
  "emits m Q \<longleftrightarrow>
     (\<forall>s. \<exists>es. cs_log (snd (m s)) = cs_log s @ es \<and> (\<forall>a x. state_of a x (snd (m s)) = replay a x es (state_of a x s)) \<and> Q (fst (m s)) es)"

lemma emitsD:
  assumes "emits m Q" and "m s = (r, s')"
  obtains es where "cs_log s' = cs_log s @ es" "\<And>a x. state_of a x s' = replay a x es (state_of a x s)" "Q r es"
  using assms unfolding emits_def by (metis fst_conv snd_conv)

lemma emits_weaken: "emits m P \<Longrightarrow> (\<And>r es. P r es \<Longrightarrow> Q r es) \<Longrightarrow> emits m Q"
  unfolding emits_def by meson

lemma emits_give: "Q (Inr x) [] \<Longrightarrow> emits (give x) Q"
  by (simp add: emits_def give_def)

lemma emits_raise: "Q (Inl e) [] \<Longrightarrow> emits (raise e) Q"
  by (simp add: emits_def raise_def)

lemma state_of_log [simp]: "state_of a x (s\<lparr>cs_log := l\<rparr>) = state_of a x s"
  by (simp add: state_of_def row_of_def)

definition silent :: "cc_event \<Rightarrow> bool" where
  "silent e \<longleftrightarrow> (\<forall>a x st. written a x st e = st)"

lemma silent_simps [simp]: "silent (Asked w)" "silent (Ledgered p q)" "silent (Fed p x c)" "silent (Consulted p al)" "silent (InverseAsked p)"
  "silent (InverseRan p b v)" "silent Paged" "silent TripAsked" "silent ChildStarted" "silent ForwardAsked" "silent (ForwardRan b)"
  by (simp_all add: silent_def)

lemma emits_query: "silent e \<Longrightarrow> (\<And>v. Q (Inr v) [e]) \<Longrightarrow> emits (query e f) Q"
  by (simp add: emits_def query_def silent_def)

lemma emits_tell: "silent e \<Longrightarrow> Q (Inr ()) [e] \<Longrightarrow> emits (tell e) Q"
  by (simp add: emits_def tell_def silent_def)

lemma emits_write:
  assumes "Q (Inr ()) [RowWritten (cr_ActionID r) (cr_ExternalRef r) (cr_State r)]"
  shows "emits (write_row r) Q"
  using assms by (simp add: emits_def write_row_def state_of_def row_of_def update_conv' fun_upd_def)

lemma emits_find: "(\<And>v. Q (Inr v) []) \<Longrightarrow> emits (find_row a x) Q"
  by (simp add: emits_def find_row_def)

lemma emits_seq:
  assumes m: "emits m P" and f: "\<And>x. emits (f x) (F x)"
    and "\<And>e es. P (Inl e) es \<Longrightarrow> Q (Inl e) es" and "\<And>x r es fs. P (Inr x) es \<Longrightarrow> F x r fs \<Longrightarrow> Q r (es @ fs)"
  shows "emits (seq m f) Q"
  unfolding emits_def
proof
  fix s
  obtain r s1 where ms: "m s = (r, s1)" by (cases "m s")
  obtain es where es: "cs_log s1 = cs_log s @ es" "\<And>a x. state_of a x s1 = replay a x es (state_of a x s)" "P r es"
    using emitsD [OF m ms] by metis
  show "\<exists>es. cs_log (snd (seq m f s)) = cs_log s @ es \<and> (\<forall>a x. state_of a x (snd (seq m f s)) = replay a x es (state_of a x s)) \<and> Q (fst (seq m f s)) es"
  proof (cases r)
    case (Inl e)
    then show ?thesis using ms es assms(3) by (auto simp: seq_def)
  next
    case (Inr v)
    obtain r2 s2 where fs: "f v s1 = (r2, s2)" by (cases "f v s1")
    obtain gs where gs: "cs_log s2 = cs_log s1 @ gs" "\<And>a x. state_of a x s2 = replay a x gs (state_of a x s1)" "F v r2 gs"
      using emitsD [OF f fs] by metis
    show ?thesis using ms Inr fs es gs assms(4) by (intro exI [of _ "es @ gs"]) (simp add: seq_def)
  qed
qed

lemma emits_attempt: "emits m (\<lambda>r es. Q (Inr r) es) \<Longrightarrow> emits (attempt m) Q"
  unfolding emits_def attempt_def by (auto split: prod.split) (metis fst_conv snd_conv)

text \<open>Steps all of whose events are of one sort.\<close>

definition only :: "(cc_event \<Rightarrow> bool) \<Rightarrow> 'a cc \<Rightarrow> bool" where
  "only P m \<longleftrightarrow> emits m (\<lambda>_ es. list_all P es)"

named_theorems only_rules \<open>footprints of compound steps\<close>

lemma only_basic [only_rules]:
  "only P (give x)" "only P (raise e)" "only P (find_row a y)"
  "silent e1 \<Longrightarrow> P e1 \<Longrightarrow> only P (query e1 f)" "silent e1 \<Longrightarrow> P e1 \<Longrightarrow> only P (tell e1)"
  "P (RowWritten (cr_ActionID r) (cr_ExternalRef r) (cr_State r)) \<Longrightarrow> only P (write_row r)"
  unfolding only_def by (simp_all add: emits_give emits_raise emits_find emits_query emits_tell emits_write)

lemma only_seq [only_rules]: "only P m \<Longrightarrow> (\<And>x. only P (f x)) \<Longrightarrow> only P (seq m f)"
  unfolding only_def by (rule emits_seq [where P = "\<lambda>_ es. list_all P es" and F = "\<lambda>_ _ es. list_all P es"]) auto

lemma only_attempt [only_rules]: "only P m \<Longrightarrow> only P (attempt m)"
  unfolding only_def by (rule emits_attempt)

lemma only_or [only_rules]: "only P (orRaise r)" "only P (orError o1)"
  by (simp_all add: orRaise_def orError_def only_basic split: sum.split option.split)

lemma only_mono: "only P m \<Longrightarrow> (\<And>e. P e \<Longrightarrow> Q e) \<Longrightarrow> only Q m"
  unfolding only_def by (erule emits_weaken) (auto simp: list_all_iff)

declare retry.simps [simp del]

lemma only_retry [only_rules]:
  assumes "P (Asked ''attempt'')" and "only P act"
  shows "only P (retry d n act)"
proof (induction n)
  case (Suc n)
  have "only P (case r of Inr x \<Rightarrow> if \<not> lost then give x else if stop \<or> n = 0 then raise (CcError ''timeout'') else retry d n act
      | Inl e \<Rightarrow> if stop \<or> n = 0 then raise e else retry d n act)" for r lost stop
    using Suc by (simp add: only_basic split: sum.split)
  then show ?case unfolding retry.simps using assms by (auto intro!: only_seq only_attempt only_basic)
qed (simp add: only_basic retry.simps)

lemma emits_retry_step:
  assumes act: "emits act R" and last: "\<And>r es. R r es \<Longrightarrow> R r (es @ [Asked ''attempt''])"
    and lost: "\<And>v es. R (Inr v) es \<Longrightarrow> R (Inl (CcError ''timeout'')) (es @ [Asked ''attempt''])"
    and again: "n \<noteq> 0 \<Longrightarrow> emits (retry d n act) (\<lambda>r' fs. \<forall>r es. R r es \<longrightarrow> R r' (es @ Asked ''attempt'' # fs))"
  shows "emits (retry d (Suc n) act) R"
proof -
  have inner: "emits (seq (query (Asked ''attempt'') (\<lambda>l. (dp_lost d l, dp_giveUp d l))) (\<lambda>(lost, stop).
         case r of
           Inr x \<Rightarrow> if \<not> lost then give x else if stop \<or> n = 0 then raise (CcError ''timeout'') else retry d n act
         | Inl e \<Rightarrow> if stop \<or> n = 0 then raise e else retry d n act))
       (\<lambda>r' fs. \<forall>es. R r es \<longrightarrow> R r' (es @ fs))" for r
    apply (rule emits_seq [where P = "\<lambda>q es. (\<exists>v. q = Inr v) \<and> es = [Asked ''attempt'']"
          and F = "\<lambda>_ r' fs. \<forall>es. R r es \<longrightarrow> R r' (es @ Asked ''attempt'' # fs)"])
       apply (simp add: emits_query)
      apply (auto split: sum.split prod.split intro!: emits_give emits_raise emits_weaken [OF again] dest: last lost)
    done
  show ?thesis unfolding retry.simps
    by (rule emits_seq [OF emits_attempt [where Q = "\<lambda>r es. \<exists>q. r = Inr q \<and> R q es"] inner]) (use act in \<open>auto intro: emits_weaken\<close>)
qed

lemma emits_once:
  assumes "emits act R" and "\<And>r es. R r es \<Longrightarrow> R r (es @ [Asked ''attempt''])"
    and "\<And>v es. R (Inr v) es \<Longrightarrow> R (Inl (CcError ''timeout'')) (es @ [Asked ''attempt''])"
  shows "emits (retry d 1 act) R"
  unfolding One_nat_def by (rule emits_retry_step) (use assms in auto)

lemma emits_retry:
  assumes act: "emits act R" and last: "\<And>r es. R r es \<Longrightarrow> R r (es @ [Asked ''attempt''])"
    and lost: "\<And>v es. R (Inr v) es \<Longrightarrow> R (Inl (CcError ''timeout'')) (es @ [Asked ''attempt''])"
    and again: "\<And>r r' es fs. R r es \<Longrightarrow> R r' fs \<Longrightarrow> R r' (es @ Asked ''attempt'' # fs)"
  shows "emits (retry d (Suc n) act) R"
proof (induction n)
  case 0
  show ?case by (rule emits_retry_step [OF act last lost]) auto
next
  case (Suc n)
  have "emits (retry d (Suc n) act) (\<lambda>r' fs. \<forall>r es. R r es \<longrightarrow> R r' (es @ Asked ''attempt'' # fs))"
    by (rule emits_weaken [OF Suc.IH]) (auto dest: again)
  then show ?case by (intro emits_retry_step [OF act last lost])
qed

lemma emits_retry5:
  assumes "emits act R" and "\<And>r es. R r es \<Longrightarrow> R r (es @ [Asked ''attempt''])"
    and "\<And>v es. R (Inr v) es \<Longrightarrow> R (Inl (CcError ''timeout'')) (es @ [Asked ''attempt''])"
    and "\<And>r r' es fs. R r es \<Longrightarrow> R r' fs \<Longrightarrow> R r' (es @ Asked ''attempt'' # fs)"
  shows "emits (retry d 5 act) R"
  using emits_retry [where d = d and n = 4, OF assms] by (simp add: eval_nat_numeral)

section \<open>Footprints of the activities\<close>

fun resolving :: "string \<Rightarrow> string \<Rightarrow> string \<Rightarrow> cc_event \<Rightarrow> bool" where
  "resolving a x st (Asked _) \<longleftrightarrow> True"
| "resolving a x st (Ledgered _ _) \<longleftrightarrow> True"
| "resolving a x st (RowWritten b y st') \<longleftrightarrow> b = a \<and> y = x \<and> st' = st"
| "resolving a x st (Fed _ y c) \<longleftrightarrow> y = x \<and> feeds st = Some c"
| "resolving a x st _ \<longleftrightarrow> False"

fun asking :: "cc_event \<Rightarrow> bool" where
  "asking (Asked _) \<longleftrightarrow> True"
| "asking (Ledgered _ _) \<longleftrightarrow> True"
| "asking _ \<longleftrightarrow> False"

lemma only_ledger [only_rules]: "only asking (ledger_append d p a)"
  by (auto simp: ledger_append_def intro!: only_rules)

lemma only_get [only_rules]: "only asking (store_Get d a x)" "only asking (commitConfirmRowFor d a x)"
  by (auto simp: store_Get_def commitConfirmRowFor_def intro!: only_rules split: option.split)

lemma asking_resolving: "asking e \<Longrightarrow> resolving a x st e"
  by (cases e) auto

lemmas only_resolving = only_mono [OF _ asking_resolving]

lemma only_store_resolve: "only (resolving a x st) (store_Resolve d a x st i)"
  by (auto simp: store_Resolve_def intro!: only_rules split: option.split)

lemma only_feed: "only (resolving (rc_ActionID ri) (rc_ExternalRef ri) (rc_State ri)) (graduation_feed d ri)"
  unfolding graduation_feed_def
  by (auto intro!: only_rules only_resolving [OF only_get(2)] split: option.split sum.split)

lemma only_resolve_activity: "only (resolving (rc_ActionID ri) (rc_ExternalRef ri) (rc_State ri)) (ResolveCommitConfirmActivity d ri)"
  unfolding ResolveCommitConfirmActivity_def Let_def
  by (auto intro!: only_rules only_store_resolve only_feed only_resolving [OF only_ledger] only_resolving [OF only_get(2)]
      split: option.split sum.split cc_error.split)

lemma only_resolve: "only (resolving (ci_ActionID ci) (ci_ExternalRef ci) st) (resolve d ci st i)"
  using only_resolve_activity [of "\<lparr>rc_ActionID = ci_ActionID ci, rc_ExternalRef = ci_ExternalRef ci, rc_State = st, rc_InverseActionID = i\<rparr>" d]
  by (auto simp: resolve_def intro!: only_retry)

section \<open>The events of a window\<close>

text \<open>\<open>preceded E F es\<close>: no event of sort \<open>E\<close> comes before one of sort \<open>F\<close>.\<close>

fun preceded :: "(cc_event \<Rightarrow> bool) \<Rightarrow> (cc_event \<Rightarrow> bool) \<Rightarrow> cc_event list \<Rightarrow> bool" where
  "preceded E F [] \<longleftrightarrow> True"
| "preceded E F (e # es) \<longleftrightarrow> \<not> E e \<and> (F e \<or> preceded E F es)"

lemma preceded_append [simp]: "preceded E F (es @ fs) \<longleftrightarrow> preceded E F es \<and> (list_ex F es \<or> preceded E F fs)"
  by (induction es) auto

lemma preceded_never: "list_all (\<lambda>e. \<not> E e) es \<Longrightarrow> preceded E F es"
  by (induction es) auto

lemma preceded_iff: "preceded E F es \<longleftrightarrow> (\<forall>us e vs. es = us @ e # vs \<longrightarrow> E e \<longrightarrow> list_ex F us)"
proof (induction es)
  case (Cons e es)
  show ?case
  proof
    assume "preceded E F (e # es)"
    then show "\<forall>us e' vs. e # es = us @ e' # vs \<longrightarrow> E e' \<longrightarrow> list_ex F us" using Cons by (auto simp: Cons_eq_append_conv)
  next
    assume a: "\<forall>us e' vs. e # es = us @ e' # vs \<longrightarrow> E e' \<longrightarrow> list_ex F us"
    then have "\<not> E e" by force
    moreover have "list_ex F us" if "es = us @ e' # vs" "E e'" "\<not> F e" for us e' vs
      using a [rule_format, of "e # us" e' vs] that by simp
    ultimately show "preceded E F (e # es)" using Cons by auto
  qed
qed simp

fun fires :: "cc_event \<Rightarrow> bool" where
  "fires (InverseAsked _) \<longleftrightarrow> True" | "fires _ \<longleftrightarrow> False"

fun clean_inverse :: "cc_event \<Rightarrow> bool" where
  "clean_inverse (InverseRan _ b v) \<longleftrightarrow> b \<and> v = VerdictMatch" | "clean_inverse _ \<longleftrightarrow> False"

fun writes :: "string \<Rightarrow> cc_event \<Rightarrow> bool" where
  "writes st (RowWritten _ _ st') \<longleftrightarrow> st' = st" | "writes st _ \<longleftrightarrow> False"

fun confirming :: "cc_event \<Rightarrow> bool" where
  "confirming (RowWritten _ _ st) \<longleftrightarrow> st = CommitConfirmConfirmed" | "confirming (Fed _ _ c) \<longleftrightarrow> c" | "confirming _ \<longleftrightarrow> False"

fun reads_confirm :: "cc_event \<Rightarrow> bool" where
  "reads_confirm (Consulted disp _) \<longleftrightarrow> disp = ConsultConfirmed" | "reads_confirm _ \<longleftrightarrow> False"

fun reads_deviation :: "cc_event \<Rightarrow> bool" where
  "reads_deviation (Consulted disp al) \<longleftrightarrow> disp = ConsultDeviation \<or> al = Some True" | "reads_deviation _ \<longleftrightarrow> False"

fun own_row :: "string \<Rightarrow> string \<Rightarrow> cc_event \<Rightarrow> bool" where
  "own_row a x (RowWritten b y _) \<longleftrightarrow> b = a \<and> y = x" | "own_row a x (Fed _ y _) \<longleftrightarrow> y = x" | "own_row a x _ \<longleftrightarrow> True"

definition inversions :: "cc_event list \<Rightarrow> nat" where
  "inversions es = length (filter fires es)"

lemma inversions_simps [simp]: "inversions [] = 0" "inversions (e # es) = (if fires e then 1 else 0) + inversions es"
  "inversions (es @ fs) = inversions es + inversions fs"
  by (simp_all add: inversions_def)

text \<open>
  What holds of everything a window adds to the log, with the result of its run: it writes its own row only,
  confirms only after a confirming consult, fires at most one inverse and only after a consult that read a
  deviation or saw the target alerting, records a revert only after a clean inverse, and when it returns every
  inverse that was not clean has been paged and has asked for the breaker.
\<close>

definition switch_ok :: "Deps \<Rightarrow> string \<Rightarrow> string \<Rightarrow> cc_error + 'a \<Rightarrow> cc_event list \<Rightarrow> bool" where
  "switch_ok d a x r es \<longleftrightarrow>
     list_all (own_row a x) es \<and> preceded confirming reads_confirm es \<and> preceded fires reads_deviation es
     \<and> inversions es \<le> 1 \<and> preceded (writes CommitConfirmReverted) clean_inverse es
     \<and> (\<not> isl r \<longrightarrow> list_ex fires es \<or> list_ex (writes CommitConfirmRevertFailed) es \<longrightarrow>
          list_ex clean_inverse es \<and> \<not> list_ex (writes CommitConfirmRevertFailed) es
          \<or> Paged \<in> set es \<and> (dp_breaker d \<noteq> None \<longrightarrow> TripAsked \<in> set es))"

text \<open>A step that neither confirms, fires, reverts nor fails a revert.\<close>

definition neutral :: "string \<Rightarrow> string \<Rightarrow> cc_event \<Rightarrow> bool" where
  "neutral a x e \<longleftrightarrow> own_row a x e \<and> \<not> confirming e \<and> \<not> fires e \<and> \<not> writes CommitConfirmReverted e \<and> \<not> writes CommitConfirmRevertFailed e"

lemma preceded_all: "(\<And>e. P e \<Longrightarrow> \<not> E e) \<Longrightarrow> list_all P es \<Longrightarrow> preceded E F es"
  by (rule preceded_never) (auto simp: list_all_iff)

lemma inversions_zero: "list_all (\<lambda>e. \<not> fires e) es \<Longrightarrow> inversions es = 0"
  by (induction es) auto

lemma disjoint_sorts [simp]: "reads_confirm e \<Longrightarrow> \<not> confirming e" "reads_deviation e \<Longrightarrow> \<not> fires e" "clean_inverse e \<Longrightarrow> \<not> writes st e"
  by (cases e; simp)+

lemma neutralD:
  assumes "list_all (neutral a x) es"
  shows "list_all (own_row a x) es" "preceded confirming F es" "preceded fires F es" "preceded (writes CommitConfirmReverted) F es"
    "inversions es = 0" "\<not> list_ex fires es" "\<not> list_ex (writes CommitConfirmRevertFailed) es"
  using assms
  by (auto simp: list_all_iff list_ex_iff neutral_def intro!: preceded_never inversions_zero)

lemma switch_ok_neutral: "list_all (neutral a x) es \<Longrightarrow> switch_ok d a x r es"
  by (simp add: switch_ok_def neutralD)

lemma switch_ok_prepend:
  assumes "list_all (neutral a x) es" and "switch_ok d a x r fs"
  shows "switch_ok d a x r (es @ fs)"
  using assms neutralD [OF assms(1)] by (auto simp: switch_ok_def)

lemma switch_ok_append:
  assumes "switch_ok d a x (r :: cc_error + 'a) es" and "\<not> isl r" and "list_all (neutral a x) fs"
  shows "switch_ok d a x (r' :: cc_error + 'b) (es @ fs)"
  using assms neutralD [OF assms(3)] by (auto simp: switch_ok_def)

text \<open>The footprints of the pieces of the switch.\<close>

lemma neutral_asking: "asking e \<Longrightarrow> neutral a x e"
  by (cases e) (auto simp: neutral_def)

lemma neutral_resolving:
  "resolving a x st e \<Longrightarrow> st \<noteq> CommitConfirmConfirmed \<Longrightarrow> st \<noteq> CommitConfirmReverted \<Longrightarrow> st \<noteq> CommitConfirmRevertFailed \<Longrightarrow> neutral a x e"
  by (cases e) (auto simp: neutral_def feeds_def)

lemma only_page: "only (neutral a x) (page d)"
  by (auto simp: page_def neutral_def intro!: only_rules)

lemma emits_trip:
  "emits (TripMutationBreakerActivity d) (\<lambda>_ es. list_all (neutral a x) es \<and> (dp_breaker d \<noteq> None \<longrightarrow> TripAsked \<in> set es))"
proof (cases "dp_breaker d")
  case (Some f)
  have "emits (seq (query TripAsked f) orError) (\<lambda>_ es. list_all (neutral a x) es \<and> TripAsked \<in> set es)"
    by (rule emits_seq [where P = "\<lambda>_ es. es = [TripAsked]" and F = "\<lambda>_ _ es. es = []"])
      (auto simp: neutral_def orError_def intro!: emits_query emits_give emits_raise split: option.split)
  then show ?thesis using Some by (simp add: TripMutationBreakerActivity_def)
qed (simp add: TripMutationBreakerActivity_def emits_raise)

lemma only_reads:
  "only asking (manifest_of d a)" "only asking (observe_alerting d h st)" "only asking (liveness_confirms d m h)"
  "only asking (recovery_confirms d co m h e)"
  by (auto simp: manifest_of_def observe_alerting_def liveness_confirms_def recovery_confirms_def intro!: only_rules split: option.split sum.split)

lemma only_substitute: "only asking (substitute_confirms d co m h found)"
  by (auto simp: substitute_confirms_def intro!: only_rules only_reads split: option.split)

definition consult_post :: "cc_error + string \<times> bool option \<Rightarrow> cc_event list \<Rightarrow> bool" where
  "consult_post r es \<longleftrightarrow>
     list_all (\<lambda>e. asking e \<or> (\<exists>disp al. e = Consulted disp al)) es
     \<and> (\<forall>disp al. r = Inr (disp, al) \<longrightarrow> Consulted disp al \<in> set es)"

lemma emits_only: "only P m \<Longrightarrow> (\<And>r es. list_all P es \<Longrightarrow> Q r es) \<Longrightarrow> emits m Q"
  unfolding only_def by (rule emits_weaken)

lemma consult_bind: "only asking m \<Longrightarrow> (\<And>v. emits (f v) consult_post) \<Longrightarrow> emits (seq m f) consult_post"
  unfolding only_def
  by (erule emits_seq [where F = "\<lambda>_. consult_post"], blast) (auto simp: consult_post_def list_all_iff)

lemma emits_consult_activity: "emits (ConsultCommitConfirmActivity d co) consult_post"
proof (cases "dp_executions d")
  case None
  then show ?thesis by (simp add: ConsultCommitConfirmActivity_def emits_raise consult_post_def)
next
  case (Some ex)
  have t: "emits (seq (tell (Consulted disp al)) (\<lambda>_. give (disp, al))) consult_post" for disp al
    by (rule emits_seq [where P = "\<lambda>_ es. es = [Consulted disp al]" and F = "\<lambda>_ r es. r = Inr (disp, al) \<and> es = []"])
      (auto simp: consult_post_def intro: emits_tell emits_give)
  have sub: "only asking (if disp = ConsultUnverifiable then substitute_confirms d co m h found else give False)" for disp m h found
    by (simp add: only_substitute only_basic)
  show ?thesis
    unfolding ConsultCommitConfirmActivity_def Some option.case Let_def
    by (rule t sub consult_bind only_or only_reads only_basic(4) silent_simps | simp)+
qed

lemma emits_consult: "emits (consult d ci) consult_post"
  unfolding consult_def
  by (rule emits_retry5 [OF emits_consult_activity]) (auto simp: consult_post_def)

lemma consult_neutral: "consult_post r es \<Longrightarrow> list_all (neutral a x) es"
  by (auto simp: consult_post_def list_all_iff neutral_def dest: neutral_asking [unfolded neutral_def])

lemma emits_page: "emits (page d) (\<lambda>r es. list_all (neutral a x) es \<and> Paged \<in> set es)"
proof -
  have "emits (seq (query Paged (dp_notify d)) orError) (\<lambda>_ es. list_all (neutral a x) es \<and> Paged \<in> set es)"
    by (rule emits_seq [where P = "\<lambda>_ es. es = [Paged]" and F = "\<lambda>_ _ es. es = []"])
      (auto simp: neutral_def orError_def intro!: emits_query emits_give emits_raise split: option.split)
  then have "emits (attempt (retry d 5 (seq (query Paged (dp_notify d)) orError))) (\<lambda>_ es. list_all (neutral a x) es \<and> Paged \<in> set es)"
    by (intro emits_attempt emits_retry5) (auto simp: neutral_def)
  then show ?thesis unfolding page_def
    by (rule emits_seq [where F = "\<lambda>_ _ es. es = []"]) (auto intro: emits_give)
qed

text \<open>A failed revert that returns has paged and asked for the breaker.\<close>

definition failing :: "string \<Rightarrow> string \<Rightarrow> cc_event \<Rightarrow> bool" where
  "failing a x e \<longleftrightarrow> own_row a x e \<and> \<not> confirming e \<and> \<not> fires e \<and> \<not> writes CommitConfirmReverted e"

definition loud :: "Deps \<Rightarrow> cc_error + 'a \<Rightarrow> cc_event list \<Rightarrow> bool" where
  "loud d r es \<longleftrightarrow> isl r \<or> Paged \<in> set es \<and> (dp_breaker d \<noteq> None \<longrightarrow> TripAsked \<in> set es)"

lemma failing_neutral: "neutral a x e \<Longrightarrow> failing a x e"
  by (simp add: neutral_def failing_def)

lemma failing_resolving: "resolving a x CommitConfirmRevertFailed e \<Longrightarrow> failing a x e"
  by (cases e) (auto simp: failing_def feeds_def tg_consts)

lemma all_failing: "list_all (neutral a x) es \<Longrightarrow> list_all (failing a x) es"
  by (auto simp: list_all_iff failing_neutral)

lemma emits_revert_failed:
  "emits (revert_failed d ci i) (\<lambda>r es. list_all (failing (ci_ActionID ci) (ci_ExternalRef ci)) es \<and> loud d r es)"
proof -
  let ?N = "neutral (ci_ActionID ci) (ci_ExternalRef ci)" and ?F = "failing (ci_ActionID ci) (ci_ExternalRef ci)"
  have "emits (attempt (retry d 5 (TripMutationBreakerActivity d))) (\<lambda>_ es. list_all ?N es \<and> (dp_breaker d \<noteq> None \<longrightarrow> TripAsked \<in> set es))"
    by (intro emits_attempt emits_retry5 emits_trip) (auto simp: neutral_def)
  then have t: "emits (seq (attempt (retry d 5 (TripMutationBreakerActivity d))) (\<lambda>_. give ()))
      (\<lambda>_ es. list_all ?N es \<and> (dp_breaker d \<noteq> None \<longrightarrow> TripAsked \<in> set es))"
    by (rule emits_seq [where F = "\<lambda>_ _ es. es = []"]) (auto intro: emits_give)
  have p: "emits (seq (page d) (\<lambda>_. seq (attempt (retry d 5 (TripMutationBreakerActivity d))) (\<lambda>_. give ())))
      (\<lambda>r es. list_all ?N es \<and> loud d r es)"
    by (rule emits_seq [OF emits_page t]) (auto simp: loud_def)
  have r: "emits (resolve d ci CommitConfirmRevertFailed i) (\<lambda>_ es. list_all ?F es)"
    by (rule emits_only [OF only_resolve]) (auto simp: list_all_iff failing_resolving)
  show ?thesis unfolding revert_failed_def
    by (rule emits_seq [OF r p]) (auto simp: loud_def list_all_iff failing_neutral)
qed

text \<open>Firing the inverse.\<close>

definition fire_post :: "Deps \<Rightarrow> string \<Rightarrow> string \<Rightarrow> cc_error + 'a \<Rightarrow> cc_event list \<Rightarrow> bool" where
  "fire_post d a x r es \<longleftrightarrow>
     list_all (own_row a x) es \<and> list_all (\<lambda>e. \<not> confirming e) es \<and> inversions es \<le> 1
     \<and> preceded (writes CommitConfirmReverted) clean_inverse es
     \<and> (list_ex clean_inverse es \<and> \<not> list_ex (writes CommitConfirmRevertFailed) es \<or> loud d r es)"

lemma failing_fire: "list_all (failing a x) es \<Longrightarrow> loud d r es \<Longrightarrow> fire_post d a x r es"
  by (auto simp: fire_post_def failing_def list_all_iff intro!: preceded_never inversions_zero [THEN eq_imp_le, THEN le_trans])

lemma only_inverse_precondition: "only asking (inverse_precondition d spec target)"
  by (auto simp: inverse_precondition_def Let_def intro!: only_rules split: option.split)

lemma only_seal_inverse: "only asking (seal_inverse d row spec ri)"
  by (auto simp: seal_inverse_def Let_def intro!: only_rules split: option.split sum.split)

lemma only_seal: "only asking (SealCommitConfirmInverseActivity d a x)"
  unfolding SealCommitConfirmInverseActivity_def Let_def
  by (auto intro!: only_rules only_seal_inverse only_inverse_precondition split: option.split)

definition ran_post :: "string \<Rightarrow> string \<Rightarrow> cc_error + ExecuteResult \<Rightarrow> cc_event list \<Rightarrow> bool" where
  "ran_post a x r es \<longleftrightarrow>
     list_all (\<lambda>e. fires e \<or> neutral a x e) es \<and> inversions es \<le> 1
     \<and> (\<forall>y. r = Inr y \<longrightarrow> xr_Executed y \<longrightarrow> xr_Verdict y = VerdictMatch \<longrightarrow> list_ex clean_inverse es)"

lemma emits_run_inverse: "emits (retry d 1 (run_inverse d sl ri)) (ran_post a x)"
proof (rule emits_once)
  let ?i = "si_InverseActionID sl"
  have t: "emits (seq (tell (InverseRan ?i (xr_Executed y) (xr_Verdict y))) (\<lambda>_. give y))
      (\<lambda>r es. r = Inr y \<and> es = [InverseRan ?i (xr_Executed y) (xr_Verdict y)])" for y
    by (rule emits_seq [where P = "\<lambda>r es. \<not> isl r \<and> es = [InverseRan ?i (xr_Executed y) (xr_Verdict y)]" and F = "\<lambda>_ r es. r = Inr y \<and> es = []"])
      (auto intro: emits_tell emits_give)
  have o: "emits (seq (orRaise q) (\<lambda>y. seq (tell (InverseRan ?i (xr_Executed y) (xr_Verdict y))) (\<lambda>_. give y)))
      (\<lambda>r es. (isl r \<and> es = []) \<or> (\<exists>y. r = Inr y \<and> es = [InverseRan ?i (xr_Executed y) (xr_Verdict y)]))" for q
    by (rule emits_seq [where P = "\<lambda>_ es. es = []", OF _ t]) (auto simp: orRaise_def intro!: emits_give emits_raise split: sum.split)
  show "emits (run_inverse d sl ri) (ran_post a x)"
    unfolding run_inverse_def
    by (rule emits_seq [where P = "\<lambda>r es. \<not> isl r \<and> es = [InverseAsked ?i]", OF _ o])
      (auto simp: ran_post_def neutral_def intro!: emits_query)
qed (auto simp: ran_post_def neutral_def)

lemma only_reverted: "only (\<lambda>e. own_row (ci_ActionID ci) (ci_ExternalRef ci) e \<and> \<not> confirming e \<and> \<not> fires e \<and> \<not> writes CommitConfirmRevertFailed e)
    (resolve d ci CommitConfirmReverted i)"
proof (rule only_mono [OF only_resolve])
  fix e assume "resolving (ci_ActionID ci) (ci_ExternalRef ci) CommitConfirmReverted e"
  then show "own_row (ci_ActionID ci) (ci_ExternalRef ci) e \<and> \<not> confirming e \<and> \<not> fires e \<and> \<not> writes CommitConfirmRevertFailed e"
    by (cases e) (auto simp: feeds_def tg_consts)
qed

lemma emits_reverted:
  "emits (seq (resolve d ci CommitConfirmReverted i) (\<lambda>_. page d))
     (\<lambda>_ es. list_all (\<lambda>e. own_row (ci_ActionID ci) (ci_ExternalRef ci) e \<and> \<not> confirming e \<and> \<not> fires e \<and> \<not> writes CommitConfirmRevertFailed e) es)"
  by (rule only_seq [OF only_reverted only_mono [OF only_page], unfolded only_def]) (auto simp: neutral_def)

lemma ran_post_own: "ran_post a x r es \<Longrightarrow> list_all (\<lambda>e. own_row a x e \<and> \<not> confirming e \<and> \<not> writes CommitConfirmReverted e \<and> \<not> writes CommitConfirmRevertFailed e) es"
  unfolding ran_post_def list_all_iff
proof (intro ballI)
  fix e assume "(\<forall>e\<in>set es. fires e \<or> neutral a x e) \<and> inversions es \<le> 1 \<and> (\<forall>y. r = Inr y \<longrightarrow> xr_Executed y \<longrightarrow> xr_Verdict y = VerdictMatch \<longrightarrow> list_ex clean_inverse es)" "e \<in> set es"
  then show "own_row a x e \<and> \<not> confirming e \<and> \<not> writes CommitConfirmReverted e \<and> \<not> writes CommitConfirmRevertFailed e"
    by (cases e) (auto simp: neutral_def)
qed

lemma ran_then_failed:
  assumes "ran_post a x q es" and "list_all (failing a x) fs" and "loud d r fs"
  shows "fire_post d a x r (es @ fs)"
proof -
  have "inversions fs = 0" using assms(2) by (auto simp: failing_def list_all_iff intro!: inversions_zero)
  with assms ran_post_own [OF assms(1)] show ?thesis
    by (auto simp: fire_post_def ran_post_def loud_def failing_def list_all_iff intro!: preceded_never)
qed

lemma ran_then_reverted:
  assumes "ran_post a x (Inr y) es" "xr_Executed y" "xr_Verdict y = VerdictMatch"
    and "list_all (\<lambda>e. own_row a x e \<and> \<not> confirming e \<and> \<not> fires e \<and> \<not> writes CommitConfirmRevertFailed e) fs"
  shows "fire_post d a x r (es @ fs)"
proof -
  have "inversions fs = 0" using assms(4) by (auto simp: list_all_iff intro!: inversions_zero)
  moreover have "list_ex clean_inverse es" using assms(1-3) by (simp add: ran_post_def)
  moreover have "preceded (writes CommitConfirmReverted) clean_inverse es"
    using ran_post_own [OF assms(1)] by (auto simp: list_all_iff intro!: preceded_never)
  ultimately show ?thesis
    using assms(1,4) ran_post_own [OF assms(1)] by (auto simp: fire_post_def ran_post_def list_all_iff list_ex_iff)
qed

lemma emits_fire: "emits (commitConfirmFireInverse d ci) (fire_post d (ci_ActionID ci) (ci_ExternalRef ci))"
proof -
  let ?a = "ci_ActionID ci" and ?x = "ci_ExternalRef ci"
  note failed = emits_weaken [OF emits_revert_failed, OF failing_fire]
  have s: "emits (attempt (retry d 5 (SealCommitConfirmInverseActivity d ?a ?x))) (\<lambda>r es. \<not> isl r \<and> list_all (neutral ?a ?x) es)"
    by (rule emits_attempt, rule emits_retry5 [OF emits_only [OF only_seal]]) (auto simp: list_all_iff neutral_asking)
  have run: "emits (attempt (retry d 1 (run_inverse d sl ri))) (\<lambda>r es. \<exists>q. r = Inr q \<and> ran_post ?a ?x q es)" for sl ri
    by (rule emits_attempt, rule emits_weaken [OF emits_run_inverse]) auto
  have lost: "emits (revert_failed d ci i) (\<lambda>r fs. \<forall>es. ran_post ?a ?x ex es \<longrightarrow> fire_post d ?a ?x r (es @ fs))" for i ex
    by (rule emits_weaken [OF emits_revert_failed]) (blast intro: ran_then_failed)
  have won: "emits (seq (resolve d ci CommitConfirmReverted i) (\<lambda>_. page d))
      (\<lambda>r fs. \<forall>es. ran_post ?a ?x (Inr y) es \<longrightarrow> fire_post d ?a ?x r (es @ fs))" if "xr_Executed y" "xr_Verdict y = VerdictMatch" for i y
    by (rule emits_weaken [OF emits_reverted]) (use that in \<open>blast intro: ran_then_reverted\<close>)
  have r: "emits (seq (attempt (retry d 1 (run_inverse d sl ri))) (\<lambda>ex.
        case ex of
          Inl _ \<Rightarrow> revert_failed d ci (si_InverseActionID sl)
        | Inr y \<Rightarrow>
            if \<not> xr_Executed y then revert_failed d ci (si_InverseActionID sl)
            else if xr_Verdict y = VerdictMatch
            then seq (resolve d ci CommitConfirmReverted (si_InverseActionID sl)) (\<lambda>_. page d)
            else revert_failed d ci (si_InverseActionID sl))) (fire_post d ?a ?x)" for sl ri
    by (rule emits_seq [OF run, where F = "\<lambda>ex r fs. \<forall>es. ran_post ?a ?x ex es \<longrightarrow> fire_post d ?a ?x r (es @ fs)"])
      (auto simp: lost won split: sum.split)
  have p: "fire_post d ?a ?x q (es @ fs)" if "list_all (neutral ?a ?x) es" "fire_post d ?a ?x q fs" for q :: "cc_error + unit" and es fs
    using that neutralD [OF that(1)] by (auto simp: fire_post_def loud_def neutral_def list_all_iff list_ex_iff)
  show ?thesis unfolding commitConfirmFireInverse_def
    by (rule emits_seq [OF s, where F = "\<lambda>_. fire_post d ?a ?x"]) (auto simp del: One_nat_def intro!: failed r p split: sum.split option.split)
qed

text \<open>The hold, the consult with its action, and the loop.\<close>

lemma switch_of_fire:
  assumes "consult_post (Inr (disp, al)) es" and "disp = ConsultDeviation \<or> al = Some True" and "fire_post d a x r fs"
  shows "switch_ok d a x r (es @ fs)"
proof -
  have n: "list_all (neutral a x) es" using assms(1) by (rule consult_neutral)
  have "list_ex reads_deviation es" using assms(1,2) by (force simp: consult_post_def list_ex_iff)
  moreover have "preceded confirming reads_confirm fs" using assms(3) by (simp add: fire_post_def preceded_never)
  ultimately show ?thesis
    using assms(3) neutralD [OF n] by (cases r) (auto simp: switch_ok_def fire_post_def loud_def)
qed

lemma emits_hold_watch: "emits (hold_watch d ci n) (switch_ok d (ci_ActionID ci) (ci_ExternalRef ci))"
proof (induction n)
  case 0
  show ?case unfolding hold_watch.simps by (rule emits_only [OF only_page switch_ok_neutral])
next
  case (Suc n)
  let ?a = "ci_ActionID ci" and ?x = "ci_ExternalRef ci"
  have c: "emits (attempt (consult d ci)) (\<lambda>r es. \<exists>q. r = Inr q \<and> consult_post q es)"
    by (rule emits_attempt, rule emits_weaken [OF emits_consult]) auto
  have k: "emits (case q of Inl _ \<Rightarrow> hold_watch d ci n
        | Inr (_, al) \<Rightarrow> if al = Some True then commitConfirmFireInverse d ci else hold_watch d ci n)
      (\<lambda>r fs. \<forall>es. consult_post q es \<longrightarrow> switch_ok d ?a ?x r (es @ fs))" for q
    using Suc.IH emits_fire [of d ci]
    by (auto split: sum.split elim!: emits_weaken intro: switch_ok_prepend [OF consult_neutral] switch_of_fire)
  have w: "emits (seq (attempt (consult d ci)) (\<lambda>c. case c of Inl _ \<Rightarrow> hold_watch d ci n
        | Inr (_, al) \<Rightarrow> if al = Some True then commitConfirmFireInverse d ci else hold_watch d ci n)) (switch_ok d ?a ?x)"
    by (rule emits_seq [OF c k]) auto
  have o: "emits (seq (orError e) (\<lambda>_. seq (attempt (consult d ci)) (\<lambda>c. case c of Inl _ \<Rightarrow> hold_watch d ci n
        | Inr (_, al) \<Rightarrow> if al = Some True then commitConfirmFireInverse d ci else hold_watch d ci n))) (switch_ok d ?a ?x)" for e
    by (rule emits_seq [OF _ w, where P = "\<lambda>_ es. es = []"])
      (auto simp: orError_def switch_ok_neutral intro!: emits_give emits_raise split: option.split)
  show ?case unfolding hold_watch.simps
    by (rule emits_seq [OF _ o, where P = "\<lambda>r es. \<not> isl r \<and> es = [Asked ''timer'']"])
      (auto intro: emits_query switch_ok_prepend [of _ _ "[Asked ''timer'']", simplified] simp: neutral_def)
qed

lemma emits_hold: "emits (commitConfirmHold d ci) (switch_ok d (ci_ActionID ci) (ci_ExternalRef ci))"
proof -
  let ?a = "ci_ActionID ci" and ?x = "ci_ExternalRef ci"
  have h: "only (neutral ?a ?x) (resolve d ci CommitConfirmHeldUnverifiable [])"
    by (rule only_mono [OF only_resolve]) (auto intro: neutral_resolving simp: tg_consts)
  have p: "emits (seq (page d) (\<lambda>_. hold_watch d ci commitConfirmHoldRechecks)) (switch_ok d ?a ?x)"
    by (rule emits_seq [OF only_page [unfolded only_def] emits_hold_watch]) (auto intro: switch_ok_neutral switch_ok_prepend)
  show ?thesis unfolding commitConfirmHold_def
    by (rule emits_seq [OF h [unfolded only_def] p]) (auto intro: switch_ok_neutral switch_ok_prepend)
qed

text \<open>When the consult was not decisive, nothing but the reading happened.\<close>

definition act_post :: "Deps \<Rightarrow> string \<Rightarrow> string \<Rightarrow> cc_error + bool \<Rightarrow> cc_event list \<Rightarrow> bool" where
  "act_post d a x r es \<longleftrightarrow> (if r = Inr False then list_all (neutral a x) es else switch_ok d a x r es)"

lemma switch_ok_as:
  assumes "switch_ok d a x (r :: cc_error + 'a) es" and "isl r = isl (r' :: cc_error + 'b)"
  shows "switch_ok d a x r' es"
  using assms by (simp add: switch_ok_def)

lemma emits_then_True:
  assumes "emits m Q" and "\<And>r es. Q r es \<Longrightarrow> isl r \<Longrightarrow> R (Inl (projl r)) es" and "\<And>v es. Q (Inr v) es \<Longrightarrow> R (Inr True) es"
  shows "emits (seq m (\<lambda>_. give True)) R"
  by (rule emits_seq [OF assms(1), where F = "\<lambda>_ r es. r = Inr True \<and> es = []"])
    (use assms(2,3) in \<open>force intro: emits_give\<close>)+

lemma emits_act: "emits (commitConfirmConsultAndAct d ci e) (act_post d (ci_ActionID ci) (ci_ExternalRef ci))"
proof -
  let ?a = "ci_ActionID ci" and ?x = "ci_ExternalRef ci"
  have c: "emits (attempt (consult d ci)) (\<lambda>r es. \<exists>q. r = Inr q \<and> consult_post q es)"
    by (rule emits_attempt, rule emits_weaken [OF emits_consult]) auto
  let ?P = "\<lambda>q r fs. \<forall>es. consult_post q es \<longrightarrow> act_post d ?a ?x r (es @ fs)"
  have confirmed: "switch_ok d ?a ?x r (es @ fs)"
    if "consult_post (Inr (ConsultConfirmed, al)) es" "list_all (resolving ?a ?x CommitConfirmConfirmed) fs" for al es fs and r :: "cc_error + bool"
  proof -
    have n: "list_all (neutral ?a ?x) es" using that(1) by (rule consult_neutral)
    have "list_ex reads_confirm es" using that(1) by (force simp: consult_post_def list_ex_iff)
    moreover have "list_all (\<lambda>e. own_row ?a ?x e \<and> \<not> fires e \<and> \<not> writes CommitConfirmReverted e \<and> \<not> writes CommitConfirmRevertFailed e) fs"
      using that(2) unfolding list_all_iff
    proof (intro ballI)
      fix e assume "\<forall>e\<in>set fs. resolving ?a ?x CommitConfirmConfirmed e" "e \<in> set fs"
      then show "own_row ?a ?x e \<and> \<not> fires e \<and> \<not> writes CommitConfirmReverted e \<and> \<not> writes CommitConfirmRevertFailed e"
        by (cases e) (force simp: tg_consts)+
    qed
    moreover from this have "inversions fs = 0" by (auto simp: list_all_iff intro!: inversions_zero)
    ultimately show ?thesis using neutralD [OF n]
      by (auto simp: switch_ok_def list_all_iff list_ex_iff preceded_never)
  qed
  have k1: "emits (seq (resolve d ci CommitConfirmConfirmed []) (\<lambda>_. give True)) (?P (Inr (ConsultConfirmed, al)))" for al
    by (rule emits_then_True [OF only_resolve [unfolded only_def]]) (auto simp: act_post_def intro: confirmed)
  have k2: "emits (seq (commitConfirmFireInverse d ci) (\<lambda>_. give True)) (?P (Inr (ConsultDeviation, al)))" for al
    by (rule emits_then_True [OF emits_fire])
      (auto simp: act_post_def isl_def intro: switch_of_fire switch_ok_as [OF switch_of_fire])
  have k3: "emits (seq (commitConfirmHold d ci) (\<lambda>_. give True)) (?P q)" for q
    by (rule emits_then_True [OF emits_hold])
      (auto simp: act_post_def isl_def intro: switch_ok_prepend [OF consult_neutral] switch_ok_as [OF switch_ok_prepend [OF consult_neutral]])
  have k: "emits (case q of
         Inl err \<Rightarrow> if \<not> e then give False else raise err
       | Inr (disp, _) \<Rightarrow>
           if disp = ConsultConfirmed then seq (resolve d ci CommitConfirmConfirmed []) (\<lambda>_. give True)
           else if disp = ConsultDeviation then seq (commitConfirmFireInverse d ci) (\<lambda>_. give True)
           else if \<not> e then give False
           else seq (commitConfirmHold d ci) (\<lambda>_. give True)) (?P q)" for q
  proof (cases q)
    case (Inl err)
    then show ?thesis
      by (cases e) (auto simp: act_post_def dest: consult_neutral switch_ok_neutral [OF consult_neutral] intro!: emits_give emits_raise)
  next
    case (Inr p)
    obtain disp al where "p = (disp, al)" by (cases p)
    then show ?thesis using k1 [of al] k2 [of al] k3 [of q] Inr
      by (auto simp: act_post_def [where r = "Inr False"] dest: consult_neutral intro!: emits_give)
  qed
  show ?thesis unfolding commitConfirmConsultAndAct_def
    by (rule emits_seq [OF c k]) auto
qed

definition never_aborts :: "cc_event \<Rightarrow> bool" where
  "never_aborts e \<longleftrightarrow> \<not> writes CommitConfirmAborted e"

lemma only_emits: "emits m Q \<Longrightarrow> (\<And>r es. Q r es \<Longrightarrow> list_all P es) \<Longrightarrow> only P m"
  unfolding only_def by (rule emits_weaken)

lemma never_aborts_asking: "asking e \<Longrightarrow> never_aborts e"
  by (cases e) (auto simp: never_aborts_def)

lemma no_abort_resolve: "st \<noteq> CommitConfirmAborted \<Longrightarrow> only never_aborts (resolve d ci st i)"
proof (rule only_mono [OF only_resolve])
  fix e assume "st \<noteq> CommitConfirmAborted" "resolving (ci_ActionID ci) (ci_ExternalRef ci) st e"
  then show "never_aborts e" by (cases e) (auto simp: never_aborts_def)
qed

lemma no_abort_consult: "only never_aborts (consult d ci)"
  by (rule only_emits [OF emits_consult]) (auto simp: consult_post_def list_all_iff never_aborts_def dest: never_aborts_asking [unfolded never_aborts_def])

lemma no_abort_page: "only never_aborts (page d)"
  by (auto simp: page_def never_aborts_def intro!: only_rules)

lemma no_abort_failed: "only never_aborts (revert_failed d ci i)"
  by (auto simp: revert_failed_def TripMutationBreakerActivity_def never_aborts_def [of "Asked _"] never_aborts_def [of TripAsked] tg_consts
      intro!: only_rules no_abort_resolve no_abort_page split: option.split)

lemma no_abort_fire: "only never_aborts (commitConfirmFireInverse d ci)"
  unfolding commitConfirmFireInverse_def run_inverse_def
  by (auto simp: never_aborts_def [of "Asked _"] never_aborts_def [of "InverseAsked _"] never_aborts_def [of "InverseRan _ _ _"] tg_consts
      intro!: only_rules no_abort_resolve no_abort_page no_abort_failed only_mono [OF only_seal] dest: never_aborts_asking
      split: sum.split option.split)

lemma no_abort_watch: "only never_aborts (hold_watch d ci n)"
  by (induction n) (auto simp: never_aborts_def [of "Asked _"] intro!: only_rules no_abort_page no_abort_consult no_abort_fire split: sum.split)

lemma no_abort_act: "only never_aborts (commitConfirmConsultAndAct d ci e)"
  unfolding commitConfirmConsultAndAct_def commitConfirmHold_def
  by (auto simp: tg_consts intro!: only_rules no_abort_resolve no_abort_page no_abort_consult no_abort_fire no_abort_watch split: sum.split)

lemma emits_conj: "emits m P \<Longrightarrow> emits m Q \<Longrightarrow> emits m (\<lambda>r es. P r es \<and> Q r es)"
  unfolding emits_def by (metis same_append_eq)

lemma emits_loop:
  "emits (window_loop d ci kinds) (\<lambda>r es. switch_ok d (ci_ActionID ci) (ci_ExternalRef ci) r es
     \<and> (''abort'' \<in> set kinds \<or> list_all never_aborts es))"
proof (induction kinds)
  case Nil
  have "emits (commitConfirmConsultAndAct d ci True) (\<lambda>r es. act_post d (ci_ActionID ci) (ci_ExternalRef ci) r es \<and> list_all never_aborts es)"
    by (rule emits_conj [OF emits_act no_abort_act [unfolded only_def]])
  then show ?case unfolding window_loop.simps
    by (rule emits_seq [where F = "\<lambda>_ r es. r = Inr () \<and> es = []"])
      (auto simp: act_post_def switch_ok_neutral split: if_splits intro: emits_give elim: switch_ok_as)
next
  case (Cons kind kinds)
  let ?a = "ci_ActionID ci" and ?x = "ci_ExternalRef ci"
  have ab: "emits (resolve d ci CommitConfirmAborted []) (switch_ok d ?a ?x)"
    by (rule emits_only [OF only_resolve], rule switch_ok_neutral)
      (auto simp: list_all_iff tg_consts intro: neutral_resolving [of _ _ CommitConfirmAborted, unfolded tg_consts])
  have act: "emits (commitConfirmConsultAndAct d ci False) (\<lambda>r es. act_post d ?a ?x r es \<and> list_all never_aborts es)"
    by (rule emits_conj [OF emits_act no_abort_act [unfolded only_def]])
  have go: "emits (seq (commitConfirmConsultAndAct d ci False) (\<lambda>fin. if fin then give () else window_loop d ci kinds))
      (\<lambda>r es. switch_ok d ?a ?x r es \<and> (''abort'' \<in> set kinds \<or> list_all never_aborts es))"
    by (rule emits_seq [OF act, where F = "\<lambda>fin r fs. if fin then r = Inr () \<and> fs = []
          else switch_ok d ?a ?x r fs \<and> (''abort'' \<in> set kinds \<or> list_all never_aborts fs)"])
      (auto simp: act_post_def Cons.IH split: if_splits intro: emits_give switch_ok_prepend elim: switch_ok_as)
  show ?case using ab go Cons.IH
    by (auto elim!: emits_weaken)
qed

section \<open>The life of a row\<close>

definition open_state :: "string \<Rightarrow> bool" where
  "open_state st \<longleftrightarrow> st = CommitConfirmArmed \<or> st = CommitConfirmHeldUnverifiable"

text \<open>
  From one state of the table to a later one: a row stays, what was recorded when it was armed stays, and its
  state changes only from armed or held, to a resolution.
\<close>

definition row_moves :: "cc_state \<Rightarrow> cc_state \<Rightarrow> bool" where
  "row_moves s s' \<longleftrightarrow>
     (\<forall>a x r. row_of a x s = Some r \<longrightarrow>
        (\<exists>r'. row_of a x s' = Some r'
            \<and> cr_OpClass r' = cr_OpClass r \<and> cr_TargetHost r' = cr_TargetHost r \<and> cr_WindowSeconds r' = cr_WindowSeconds r
            \<and> cr_ForwardBand r' = cr_ForwardBand r \<and> cr_ForwardApproved r' = cr_ForwardApproved r \<and> cr_AlertRule r' = cr_AlertRule r
            \<and> (cr_State r' = cr_State r \<or> open_state (cr_State r) \<and> resolvable (cr_State r'))))"

lemma row_moves_refl [simp]: "row_moves s s"
  by (simp add: row_moves_def)

lemma row_moves_trans:
  assumes "row_moves s t" and "row_moves t u"
  shows "row_moves s u"
  unfolding row_moves_def
proof (intro allI impI)
  fix a x r assume "row_of a x s = Some r"
  then obtain r1 where 1: "row_of a x t = Some r1" and e1: "cr_OpClass r1 = cr_OpClass r \<and> cr_TargetHost r1 = cr_TargetHost r \<and> cr_WindowSeconds r1 = cr_WindowSeconds r
            \<and> cr_ForwardBand r1 = cr_ForwardBand r \<and> cr_ForwardApproved r1 = cr_ForwardApproved r \<and> cr_AlertRule r1 = cr_AlertRule r
            \<and> (cr_State r1 = cr_State r \<or> open_state (cr_State r) \<and> resolvable (cr_State r1))"
    using assms(1) unfolding row_moves_def by blast
  from 1 obtain r2 where "row_of a x u = Some r2" "cr_OpClass r2 = cr_OpClass r1 \<and> cr_TargetHost r2 = cr_TargetHost r1 \<and> cr_WindowSeconds r2 = cr_WindowSeconds r1
            \<and> cr_ForwardBand r2 = cr_ForwardBand r1 \<and> cr_ForwardApproved r2 = cr_ForwardApproved r1 \<and> cr_AlertRule r2 = cr_AlertRule r1
            \<and> (cr_State r2 = cr_State r1 \<or> open_state (cr_State r1) \<and> resolvable (cr_State r2))"
    using assms(2) unfolding row_moves_def by blast
  with e1 show "\<exists>r'. row_of a x u = Some r'
            \<and> cr_OpClass r' = cr_OpClass r \<and> cr_TargetHost r' = cr_TargetHost r \<and> cr_WindowSeconds r' = cr_WindowSeconds r
            \<and> cr_ForwardBand r' = cr_ForwardBand r \<and> cr_ForwardApproved r' = cr_ForwardApproved r \<and> cr_AlertRule r' = cr_AlertRule r
            \<and> (cr_State r' = cr_State r \<or> open_state (cr_State r) \<and> resolvable (cr_State r'))" by auto
qed

definition moves :: "'a cc \<Rightarrow> bool" where
  "moves m \<longleftrightarrow> (\<forall>s. row_moves s (snd (m s)))"

named_theorems moves_rules \<open>steps that move rows only forward\<close>

lemma row_of_log [simp]: "row_of a x (s\<lparr>cs_log := l\<rparr>) = row_of a x s"
  by (simp add: row_of_def)

lemma moves_basic [moves_rules]: "moves (give v)" "moves (raise e)" "moves (find_row a x)" "moves (query e1 f)" "moves (tell e1)" "moves (orRaise r)" "moves (orError o1)"
  by (simp_all add: moves_def give_def raise_def find_row_def query_def tell_def orRaise_def orError_def row_moves_def split: sum.split option.split)

lemma moves_seq [moves_rules]: "moves m \<Longrightarrow> (\<And>v. moves (f v)) \<Longrightarrow> moves (seq m f)"
  unfolding moves_def seq_def by (auto split: prod.split sum.split) (metis row_moves_trans snd_conv)+

lemma moves_attempt [moves_rules]: "moves m \<Longrightarrow> moves (attempt m)"
  by (auto simp: moves_def attempt_def split: prod.split) (metis snd_conv)

lemma moves_retry [moves_rules]: "moves act \<Longrightarrow> moves (retry d n act)"
  by (induction n) (auto simp: retry.simps intro!: moves_rules split: sum.split)

lemma moves_store_resolve [moves_rules]: "moves (store_Resolve d a x st i)"
  by (auto simp: moves_def store_Resolve_def seq_def query_def raise_def find_row_def write_row_def give_def row_moves_def row_of_def
      open_state_def update_conv' split: option.split)

lemma moves_arm [moves_rules]: "moves (ArmCommitConfirm d r)"
  by (auto simp: moves_def ArmCommitConfirm_def store_Get_def seq_def query_def raise_def find_row_def write_row_def give_def row_moves_def row_of_def
      update_conv' split: option.split)

lemma moves_get [moves_rules]: "moves (store_Get d a x)" "moves (commitConfirmRowFor d a x)" "moves (ledger_append d p a)" "moves (rungFor d oc)"
  "moves (already_desired d ai w)" "moves (manifest_of d a)" "moves (observe_alerting d h st)" "moves (liveness_confirms d m h)"
  "moves (recovery_confirms d co m h ex)" "moves (inverse_precondition d spec h)"
  by (auto simp: store_Get_def commitConfirmRowFor_def ledger_append_def rungFor_def already_desired_def manifest_of_def observe_alerting_def
      liveness_confirms_def recovery_confirms_def inverse_precondition_def Let_def intro!: moves_rules split: option.split sum.split)

lemma moves_activities [moves_rules]: "moves (ArmCommitConfirmActivity d ai)" "moves (graduation_feed d ri)" "moves (substitute_confirms d co m h fe)"
  "moves (seal_inverse d row spec rin)" "moves (TripMutationBreakerActivity d)"
  by (auto simp: ArmCommitConfirmActivity_def graduation_feed_def substitute_confirms_def seal_inverse_def TripMutationBreakerActivity_def Let_def
      intro!: moves_rules split: option.split sum.split)

lemma moves_activities2 [moves_rules]: "moves (ResolveCommitConfirmActivity d ri)" "moves (ConsultCommitConfirmActivity d co)" "moves (SealCommitConfirmInverseActivity d a x)"
  by (auto simp: ResolveCommitConfirmActivity_def ConsultCommitConfirmActivity_def SealCommitConfirmInverseActivity_def Let_def
      intro!: moves_rules split: option.split sum.split cc_error.split)

lemma moves_parts [moves_rules]: "moves (resolve d ci st i)" "moves (page d)" "moves (consult d ci)" "moves (run_inverse d sl rin)"
  by (auto simp: resolve_def page_def consult_def run_inverse_def intro!: moves_rules)

lemma moves_fire [moves_rules]: "moves (revert_failed d ci i)" "moves (commitConfirmFireInverse d ci)"
  by (auto simp: revert_failed_def commitConfirmFireInverse_def intro!: moves_rules split: option.split sum.split)

lemma moves_watch [moves_rules]: "moves (hold_watch d ci n)"
  by (induction n) (auto intro!: moves_rules split: sum.split)

lemma moves_act [moves_rules]: "moves (commitConfirmConsultAndAct d ci e)"
  by (auto simp: commitConfirmConsultAndAct_def commitConfirmHold_def intro!: moves_rules split: sum.split)

lemma moves_loop [moves_rules]: "moves (window_loop d ci kinds)"
  by (induction kinds) (auto intro!: moves_rules)

lemma moves_workflow [moves_rules]: "moves (CommitConfirmWorkflow d ci kinds)"
  by (auto simp: CommitConfirmWorkflow_def intro!: moves_rules)

lemma moves_forward [moves_rules]: "moves (forwardArmed d n ai)"
  by (auto simp: forwardArmed_def armWindow_def intro!: moves_rules split: sum.split option.split)

section \<open>Every window that returns is resolved\<close>

definition settled :: "string \<Rightarrow> string \<Rightarrow> cc_state \<Rightarrow> bool" where
  "settled a x s \<longleftrightarrow> (\<exists>st. state_of a x s = Some st \<and> st \<noteq> CommitConfirmArmed)"

definition achieves :: "(cc_state \<Rightarrow> bool) \<Rightarrow> ('a \<Rightarrow> bool) \<Rightarrow> 'a cc \<Rightarrow> bool" where
  "achieves S P m \<longleftrightarrow> (\<forall>s s' v. m s = (Inr v, s') \<longrightarrow> P v \<longrightarrow> S s')"

abbreviation settles :: "string \<Rightarrow> string \<Rightarrow> ('a \<Rightarrow> bool) \<Rightarrow> 'a cc \<Rightarrow> bool" where
  "settles a x \<equiv> achieves (settled a x)"

lemma settled_moves: "row_moves s s' \<Longrightarrow> settled a x s \<Longrightarrow> settled a x s'"
  by (force simp: row_moves_def settled_def state_of_def resolvable_def tg_consts)

lemma settles_first: "settles a x (\<lambda>_. True) m \<Longrightarrow> (\<And>v. moves (f v)) \<Longrightarrow> settles a x P (seq m f)"
  unfolding achieves_def seq_def moves_def by (auto split: prod.splits sum.splits) (metis settled_moves snd_conv)

lemma settles_second: "(\<And>v. achieves S P (f v)) \<Longrightarrow> achieves S P (seq m f)"
  unfolding achieves_def seq_def by (auto split: prod.splits sum.splits)

lemma settles_raise: "achieves S P (raise e)"
  by (simp add: achieves_def raise_def)

lemma achieves_retry:
  assumes "achieves S P act" and log: "\<And>s l. S (s\<lparr>cs_log := l\<rparr>) = S s"
  shows "achieves S P (retry d n act)"
  using assms(1)
proof (induction n)
  case (Suc n)
  show ?case unfolding achieves_def
  proof (intro allI impI)
    fix s s' v assume run: "retry d (Suc n) act s = (Inr v, s')" and P: "P v"
    obtain r s1 where a: "act s = (r, s1)" by (cases "act s")
    have s: "S s1" if "r = Inr w" "P w" for w using Suc.prems a that by (auto simp: achieves_def)
    show "S s'"
    proof (cases "\<not> isl r \<and> \<not> dp_lost d (cs_log s1)")
      case True
      then show ?thesis using run a s P by (cases r) (auto simp: retry.simps seq_def attempt_def query_def give_def log)
    next
      case False
      then have "\<exists>t. retry d n act t = (Inr v, s')"
        using run a by (cases r) (auto simp: retry.simps seq_def attempt_def query_def give_def raise_def split: if_splits)
      then show ?thesis using Suc.IH [OF Suc.prems] P by (auto simp: achieves_def)
    qed
  qed
qed (simp add: retry.simps settles_raise)

lemma settled_log [simp]: "settled a x (s\<lparr>cs_log := l\<rparr>) = settled a x s"
  by (simp add: settled_def)

lemmas settles_retry = achieves_retry [OF _ settled_log]

lemma store_get_row: "store_Get d a x s = (Inr r, s') \<Longrightarrow> row_of a x s = Some r \<and> row_of a x s' = Some r"
  by (auto simp: store_Get_def seq_def query_def raise_def give_def find_row_def split: if_splits option.splits)

lemma store_resolve_settles:
  assumes "store_Resolve d a x st i s = (r, s')" and "st \<noteq> CommitConfirmArmed"
  shows "r = Inr () \<Longrightarrow> settled a x s'" and "r = Inl ErrCommitConfirmResolved \<Longrightarrow> state_of a x s' \<noteq> Some CommitConfirmArmed"
  using assms
  by (auto simp: store_Resolve_def seq_def query_def raise_def give_def find_row_def write_row_def settled_def state_of_def row_of_def update_conv'
      split: if_splits option.splits)

lemma resolve_settles:
  assumes "st \<noteq> CommitConfirmArmed"
  shows "settles (ci_ActionID ci) (ci_ExternalRef ci) (\<lambda>_. True) (resolve d ci st i)"
  unfolding resolve_def
proof (rule settles_retry, unfold achieves_def, intro allI impI)
  fix s s' v
  let ?a = "ci_ActionID ci" and ?x = "ci_ExternalRef ci"
  let ?ri = "\<lparr>rc_ActionID = ?a, rc_ExternalRef = ?x, rc_State = st, rc_InverseActionID = i\<rparr>"
  let ?tail = "seq (ledger_append d (''commit-confirm:'' @ st) ?a) (\<lambda>_. graduation_feed d ?ri)"
  assume run: "ResolveCommitConfirmActivity d ?ri s = (Inr v, s')"
  have tail: "settled ?a ?x s'" if "?tail t = (Inr v, s')" "settled ?a ?x t" for t
  proof -
    have "moves ?tail" by (intro moves_rules)
    then have "row_moves t (snd (?tail t))" by (simp add: moves_def)
    with that show ?thesis by (simp add: settled_moves)
  qed
  obtain r t where rt: "store_Resolve d ?a ?x st i s = (r, t)" by (cases "store_Resolve d ?a ?x st i s")
  consider (won) "r = Inr ()" | (late) "r = Inl ErrCommitConfirmResolved" | (error) e where "r = Inl (CcError e)"
  proof (cases r)
    case (Inl e)
    then show thesis using late error by (cases e) auto
  qed (use won in simp)
  then show "settled ?a ?x s'"
  proof cases
    case won
    then show ?thesis using run rt store_resolve_settles(1) [OF rt assms] tail
      by (auto simp: ResolveCommitConfirmActivity_def Let_def seq_def [of "attempt _"] attempt_def raise_def split: if_splits)
  next
    case late
    obtain w u where wu: "commitConfirmRowFor d ?a ?x t = (w, u)" by (cases "commitConfirmRowFor d ?a ?x t")
    have "state_of ?a ?x t \<noteq> Some CommitConfirmArmed" by (rule store_resolve_settles(2) [OF rt assms late])
    then have set: "settled ?a ?x u" if "w = Inr row" for row
      using wu that by (auto simp: commitConfirmRowFor_def raise_def settled_def state_of_def dest!: store_get_row split: if_splits)
    show ?thesis
    proof (cases w)
      case (Inl e)
      then show ?thesis using run rt late wu
        by (auto simp: ResolveCommitConfirmActivity_def Let_def seq_def [of "attempt _"] attempt_def raise_def split: if_splits)
    next
      case (Inr row)
      then show ?thesis using run rt late wu set [OF Inr] tail [of u]
        by (auto simp: ResolveCommitConfirmActivity_def Let_def seq_def [of "attempt _"] attempt_def raise_def give_def split: if_splits)
    qed
  next
    case error
    then show ?thesis using run rt
      by (auto simp: ResolveCommitConfirmActivity_def Let_def seq_def [of "attempt _"] attempt_def raise_def split: if_splits)
  qed
qed

lemma failed_settles: "settles (ci_ActionID ci) (ci_ExternalRef ci) P (revert_failed d ci i)"
  unfolding revert_failed_def by (rule settles_first [OF resolve_settles]) (auto simp: tg_consts intro!: moves_rules)

lemma reverted_settles: "settles (ci_ActionID ci) (ci_ExternalRef ci) P (seq (resolve d ci CommitConfirmReverted i) (\<lambda>_. page d))"
  by (rule settles_first [OF resolve_settles]) (auto simp: tg_consts intro!: moves_rules)

lemma fire_settles: "settles (ci_ActionID ci) (ci_ExternalRef ci) P (commitConfirmFireInverse d ci)"
proof -
  have "settles (ci_ActionID ci) (ci_ExternalRef ci) P (seq m (\<lambda>ex.
        case ex of
          Inl _ \<Rightarrow> revert_failed d ci i
        | Inr y \<Rightarrow>
            if \<not> xr_Executed y then revert_failed d ci i
            else if xr_Verdict y = VerdictMatch
            then seq (resolve d ci CommitConfirmReverted i) (\<lambda>_. page d)
            else revert_failed d ci i))" for m :: "(cc_error + ExecuteResult) cc" and i
    by (rule settles_second) (auto split: sum.split intro: failed_settles reverted_settles)
  then show ?thesis
    unfolding commitConfirmFireInverse_def by (intro settles_second) (auto split: sum.split option.split intro: failed_settles)
qed

lemma hold_settles: "settles (ci_ActionID ci) (ci_ExternalRef ci) P (commitConfirmHold d ci)"
  unfolding commitConfirmHold_def by (rule settles_first [OF resolve_settles]) (auto simp: tg_consts intro!: moves_rules)

lemma act_settles: "settles (ci_ActionID ci) (ci_ExternalRef ci) (\<lambda>fin. fin \<or> e) (commitConfirmConsultAndAct d ci e)"
  unfolding commitConfirmConsultAndAct_def
  by (rule settles_second)
    (auto intro!: settles_first [OF resolve_settles] settles_first [OF fire_settles] settles_first [OF hold_settles] settles_raise moves_rules
      split: sum.split simp: tg_consts, simp_all add: achieves_def give_def)

lemma loop_settles: "settles (ci_ActionID ci) (ci_ExternalRef ci) (\<lambda>_. True) (window_loop d ci kinds)"
proof (induction kinds)
  case Nil
  show ?case using act_settles [of ci True d] by (auto simp: achieves_def seq_def give_def split: prod.splits sum.splits)
next
  case (Cons kind kinds)
  have ab: "settles (ci_ActionID ci) (ci_ExternalRef ci) (\<lambda>_. True) (resolve d ci CommitConfirmAborted [])"
    by (rule resolve_settles) (simp add: tg_consts)
  show ?case using Cons.IH act_settles [of ci False d] ab
    by (auto simp: achieves_def seq_def give_def split: prod.splits sum.splits if_splits)
qed


text \<open>Sessions, windows, sweeps and retried resolutions, in any order and with any surroundings.\<close>

inductive cc_step :: "cc_state \<Rightarrow> cc_state \<Rightarrow> bool" where
  session: "forwardArmed d n ai s = (r, s') \<Longrightarrow> cc_step s s'"
| window: "CommitConfirmWorkflow d ci signals s = (r, s') \<Longrightarrow> cc_step s s'"
| resolution: "ResolveCommitConfirmActivity d ri s = (r, s') \<Longrightarrow> cc_step s s'"

lemma cc_step_moves: "cc_step s s' \<Longrightarrow> row_moves s s'"
  by (induction rule: cc_step.induct) (metis moves_def snd_conv moves_forward moves_workflow moves_activities2(1))+

lemma cc_run_moves: "cc_step\<^sup>*\<^sup>* s s' \<Longrightarrow> row_moves s s'"
  by (induction rule: rtranclp_induct) (auto intro: row_moves_trans cc_step_moves)

text \<open>
  C21. A row leaves the armed state once. Over any sequence of sessions, windows and retried resolutions, a row that
  is confirmed, aborted, reverted, failed or elapsed keeps that state for ever, a row that is not armed never
  becomes armed again, and the authorisation the inverse will carry, the band and the vote recorded when the
  window was armed, never changes.
\<close>

theorem row_life:
  assumes "cc_step\<^sup>*\<^sup>* s s'" and "row_of a x s = Some r"
  shows "\<exists>r'. row_of a x s' = Some r'
    \<and> (cr_State r \<noteq> CommitConfirmArmed \<and> cr_State r \<noteq> CommitConfirmHeldUnverifiable \<longrightarrow> cr_State r' = cr_State r)
    \<and> (cr_State r \<noteq> CommitConfirmArmed \<longrightarrow> cr_State r' \<noteq> CommitConfirmArmed)
    \<and> cr_ForwardBand r' = cr_ForwardBand r \<and> cr_ForwardApproved r' = cr_ForwardApproved r \<and> cr_OpClass r' = cr_OpClass r"
proof -
  have "\<not> resolvable CommitConfirmArmed" by (simp add: resolvable_def tg_consts)
  then show ?thesis using cc_run_moves [OF assms(1)] assms(2) unfolding row_moves_def open_state_def by metis
qed

section \<open>Arming comes first\<close>

definition eligible :: "Deps \<Rightarrow> string \<Rightarrow> bool" where
  "eligible d opClass \<longleftrightarrow> (case Lookup (dp_registry d) (dp_overlay d) opClass of None \<Rightarrow> False | Some spec \<Rightarrow> oc_CommitConfirmed spec \<noteq> None)"

definition pinned :: "Deps \<Rightarrow> string \<Rightarrow> string \<Rightarrow> bool" where
  "pinned d host opClass \<longleftrightarrow>
     Lookup (dp_registry d) (dp_overlay d) opClass \<noteq> None \<and> \<not> eligible d opClass
     \<and> (case dp_canary d of None \<Rightarrow> False | Some f \<Rightarrow> f host opClass)"

definition arm_post :: "Deps \<Rightarrow> ArmCommitConfirmInput \<Rightarrow> cc_error + ArmCommitConfirmResult \<Rightarrow> cc_event list \<Rightarrow> bool" where
  "arm_post d ai r es \<longleftrightarrow>
     list_all (\<lambda>e. asking e \<or> e = RowWritten (ai_ActionID ai) (ai_ExternalRef ai) CommitConfirmArmed) es
     \<and> (\<forall>ar. r = Inr ar \<longrightarrow>
          (ar_Eligible ar \<longrightarrow> Ledgered ''commit-confirm:armed'' (ai_ActionID ai) \<in> set es)
          \<and> (eligible d (ai_OpClass ai) \<longrightarrow> ar_Eligible ar \<or> ar_NoOpRefused ar)
          \<and> (pinned d (ai_TargetHost ai) (ai_OpClass ai) \<longrightarrow> ar_MandateRefused ar))"

lemma only_arm: "only (\<lambda>e. asking e \<or> e = RowWritten (cr_ActionID r) (cr_ExternalRef r) CommitConfirmArmed) (ArmCommitConfirm d r)"
  by (auto simp: ArmCommitConfirm_def intro!: only_rules only_mono [OF only_get(1)] split: option.split)

lemma only_arm_reads: "only asking (rungFor d oc)" "only asking (already_desired d ai w)"
  by (auto simp: rungFor_def already_desired_def intro!: only_rules split: option.split)

lemma emits_ledger: "emits (ledger_append d p a) (\<lambda>r es. list_all asking es \<and> (\<not> isl r \<longrightarrow> Ledgered p a \<in> set es))"
proof -
  have o: "emits (seq (orError e) (\<lambda>_. tell (Ledgered p a))) (\<lambda>r es. list_all asking es \<and> (\<not> isl r \<longrightarrow> Ledgered p a \<in> set es))" for e
    by (rule emits_seq [where P = "\<lambda>_ es. es = []" and F = "\<lambda>_ _ es. es = [Ledgered p a]"])
      (auto simp: orError_def intro!: emits_give emits_raise emits_tell split: option.split)
  show ?thesis unfolding ledger_append_def
    by (rule emits_seq [OF _ o, where P = "\<lambda>r es. \<not> isl r \<and> es = [Asked ''ledger'']"]) (auto intro: emits_query)
qed

lemma emits_arm: "emits (ArmCommitConfirmActivity d ai) (arm_post d ai)"
proof (cases "Lookup (dp_registry d) (dp_overlay d) (ai_OpClass ai)")
  case None
  then show ?thesis by (auto simp: ArmCommitConfirmActivity_def arm_post_def eligible_def pinned_def not_eligible_def intro!: emits_give)
next
  case (Some spec)
  show ?thesis
  proof (cases "oc_CommitConfirmed spec")
    case None
    have "emits (seq (rungFor d (ai_OpClass ai)) (\<lambda>rung. give (not_eligible\<lparr>ar_MandateRefused := (rung = RungAutoNotice)\<rparr>)))
        (\<lambda>r es. list_all asking es \<and> (\<forall>ar. r = Inr ar \<longrightarrow> \<not> ar_Eligible ar))"
      by (rule emits_seq [OF only_arm_reads(1) [unfolded only_def], where F = "\<lambda>_ r es. es = [] \<and> (\<forall>ar. r = Inr ar \<longrightarrow> \<not> ar_Eligible ar)"])
        (auto simp: not_eligible_def intro!: emits_give)
    then show ?thesis using Some None
      by (auto simp: ArmCommitConfirmActivity_def arm_post_def eligible_def pinned_def not_eligible_def intro!: emits_give
          elim!: emits_weaken split: option.split simp: list_all_iff)
  next
    case (Some w)
    let ?ok = "not_eligible\<lparr>ar_Eligible := True, ar_WindowSeconds := w\<rparr>"
    let ?A = "\<lambda>e. asking e \<or> e = RowWritten (ai_ActionID ai) (ai_ExternalRef ai) CommitConfirmArmed"
    have l: "emits (seq (ledger_append d ''commit-confirm:armed'' (ai_ActionID ai)) (\<lambda>_. give ?ok)) (arm_post d ai)"
      by (rule emits_seq [OF emits_ledger, where F = "\<lambda>_ r es. r = Inr ?ok \<and> es = []"])
        (auto simp: arm_post_def list_all_iff not_eligible_def pinned_def eligible_def Some \<open>Lookup _ _ _ = Some spec\<close> intro!: emits_give)
    have a: "emits (seq (ArmCommitConfirm d row) (\<lambda>_. seq (ledger_append d ''commit-confirm:armed'' (ai_ActionID ai)) (\<lambda>_. give ?ok))) (arm_post d ai)"
      if "cr_ActionID row = ai_ActionID ai" "cr_ExternalRef row = ai_ExternalRef ai" for row
      by (rule emits_seq [OF only_arm [unfolded only_def] l]) (use that in \<open>auto simp: arm_post_def list_all_iff\<close>)
    have n: "arm_post d ai (Inr (not_eligible\<lparr>ar_NoOpRefused := True\<rparr>)) []" and e: "arm_post d ai (Inl err) []" for err
      by (simp_all add: arm_post_def not_eligible_def pinned_def eligible_def Some \<open>Lookup _ _ _ = Some spec\<close>)
    have p: "arm_post d ai r (es @ fs)" if "list_all asking es" "arm_post d ai r fs" for r es fs
      using that by (auto simp: arm_post_def list_all_iff)
    show ?thesis
      unfolding ArmCommitConfirmActivity_def \<open>Lookup _ _ _ = Some spec\<close> Some option.case
    proof (rule emits_seq [OF only_arm_reads(2) [unfolded only_def], where F = "\<lambda>_. arm_post d ai"], goal_cases)
      case (1 noop)
      show ?case using a by (simp add: emits_give emits_raise n e)
    next
      case (2 err es)
      then show ?case using p [OF _ e] by simp
    next
      case 3
      then show ?case by (rule p)
    qed
  qed
qed

lemma arm_arms: "achieves (\<lambda>s. state_of (cr_ActionID r) (cr_ExternalRef r) s = Some CommitConfirmArmed) (\<lambda>_. True) (ArmCommitConfirm d r)"
  by (auto simp: achieves_def ArmCommitConfirm_def seq_def query_def raise_def give_def find_row_def write_row_def state_of_def row_of_def update_conv'
      split: if_splits option.splits prod.splits sum.splits dest!: store_get_row)

lemma replay_silent: "list_all silent es \<Longrightarrow> replay a x es st = st"
  by (induction es) (auto simp: silent_def)

lemma silent_asking: "asking e \<Longrightarrow> silent e"
  by (cases e) auto

lemma silent_state:
  assumes "only P m" and "\<And>e. P e \<Longrightarrow> silent e" and "m s = (r, s')"
  shows "state_of a x s' = state_of a x s"
  using emitsD [OF assms(1) [unfolded only_def] assms(3)] assms(2) by (metis list.pred_mono_strong replay_silent)

lemma arm_activity_arms:
  "achieves (\<lambda>s. state_of (ai_ActionID ai) (ai_ExternalRef ai) s = Some CommitConfirmArmed) ar_Eligible (ArmCommitConfirmActivity d ai)"
proof -
  let ?S = "\<lambda>s. state_of (ai_ActionID ai) (ai_ExternalRef ai) s = Some CommitConfirmArmed"
  have a: "achieves ?S P (seq (ArmCommitConfirm d row) (\<lambda>_. seq (ledger_append d ''commit-confirm:armed'' (ai_ActionID ai)) (\<lambda>_. give v)))"
    if "cr_ActionID row = ai_ActionID ai" "cr_ExternalRef row = ai_ExternalRef ai" for row v and P :: "ArmCommitConfirmResult \<Rightarrow> bool"
    unfolding achieves_def
  proof (intro allI impI)
    fix s s' u assume run: "seq (ArmCommitConfirm d row) (\<lambda>_. seq (ledger_append d ''commit-confirm:armed'' (ai_ActionID ai)) (\<lambda>_. give v)) s = (Inr u, s')"
    then obtain t where t: "ArmCommitConfirm d row s = (Inr (), t)" and l: "seq (ledger_append d ''commit-confirm:armed'' (ai_ActionID ai)) (\<lambda>_. give v) t = (Inr u, s')"
      by (auto simp: seq_def [of "ArmCommitConfirm d row"] split: prod.splits sum.splits)
    have "?S t" using arm_arms [of row d] t that by (auto simp: achieves_def)
    then show "?S s'"
      using silent_state [OF only_seq [OF only_ledger only_basic(1)] silent_asking l] by simp
  qed
  have g: "achieves ?S ar_Eligible (give v)" if "\<not> ar_Eligible v" for v
    using that by (simp add: achieves_def give_def)
  have ne: "\<not> ar_Eligible not_eligible" by (simp add: not_eligible_def)
  show ?thesis
  proof (cases "Lookup (dp_registry d) (dp_overlay d) (ai_OpClass ai)")
    case None
    then show ?thesis by (simp add: ArmCommitConfirmActivity_def g ne)
  next
    case look: (Some spec)
    show ?thesis
    proof (cases "oc_CommitConfirmed spec")
      case None
      then show ?thesis by (auto simp: ArmCommitConfirmActivity_def look ne intro!: settles_second g)
    next
      case (Some w)
      show ?thesis unfolding ArmCommitConfirmActivity_def look Some option.case
        by (rule settles_second) (simp add: settles_raise a g ne)
    qed
  qed
qed

definition aw_post :: "Deps \<Rightarrow> ArmCommitConfirmInput \<Rightarrow> cc_error + (forward_outcome + bool) \<Rightarrow> cc_event list \<Rightarrow> bool" where
  "aw_post d ai r es \<longleftrightarrow>
     ForwardAsked \<notin> set es \<and> preceded (\<lambda>e. e = ChildStarted) (\<lambda>e. e = Ledgered ''commit-confirm:armed'' (ai_ActionID ai)) es
     \<and> (\<forall>b. r = Inr (Inr b) \<longrightarrow> (b \<longrightarrow> ChildStarted \<in> set es) \<and> (eligible d (ai_OpClass ai) \<longrightarrow> b)
          \<and> \<not> pinned d (ai_TargetHost ai) (ai_OpClass ai))"

lemma emits_arm_retry: "emits (retry d n (ArmCommitConfirmActivity d ai)) (arm_post d ai)"
proof (cases n)
  case 0
  then show ?thesis by (simp add: retry.simps emits_raise arm_post_def)
next
  case (Suc m)
  show ?thesis unfolding Suc
    by (rule emits_retry [OF emits_arm]) (auto simp: arm_post_def list_all_iff)
qed

lemma arm_post_events: "arm_post d ai r es \<Longrightarrow> ForwardAsked \<notin> set es \<and> list_all (\<lambda>e. e \<noteq> ChildStarted) es"
  by (force simp: arm_post_def list_all_iff)

definition start_post :: "cc_error + (forward_outcome + bool) \<Rightarrow> cc_event list \<Rightarrow> bool" where
  "start_post r fs \<longleftrightarrow> ForwardAsked \<notin> set fs \<and> (\<forall>b. r = Inr (Inr b) \<longrightarrow> b \<and> ChildStarted \<in> set fs)"

lemma emits_start:
  "emits (seq (query (Asked ''start'') (dp_start d)) (\<lambda>e.
             case e of
               None \<Rightarrow> seq (tell ChildStarted) (\<lambda>_. give (Inr True))
             | Some _ \<Rightarrow>
                 seq (attempt (retry d n (ResolveCommitConfirmActivity d
                        \<lparr>rc_ActionID = a, rc_ExternalRef = x, rc_State = CommitConfirmAborted, rc_InverseActionID = []\<rparr>))) (\<lambda>_.
                   give (Inl RefusedUnarmable)))) start_post" (is "emits (seq _ (\<lambda>e. case e of None \<Rightarrow> ?go | Some _ \<Rightarrow> ?stop)) _")
proof -
  have go: "emits ?go start_post"
    by (rule emits_seq [where P = "\<lambda>_ es. es = [ChildStarted]" and F = "\<lambda>_ r es. r = Inr (Inr True) \<and> es = []"])
      (auto simp: start_post_def intro!: emits_tell emits_give)
  have no: "resolving a x CommitConfirmAborted e \<Longrightarrow> e \<noteq> ForwardAsked" for e by (cases e) auto
  have r: "only (\<lambda>e. e \<noteq> ForwardAsked) (attempt (retry d n (ResolveCommitConfirmActivity d
      \<lparr>rc_ActionID = a, rc_ExternalRef = x, rc_State = CommitConfirmAborted, rc_InverseActionID = []\<rparr>)))"
    by (intro only_rules only_mono [OF only_resolve_activity]) (auto dest: no)
  have stop: "emits ?stop start_post"
    by (rule emits_seq [OF r [unfolded only_def], where F = "\<lambda>_ r es. r = Inr (Inl RefusedUnarmable) \<and> es = []"])
      (auto simp: start_post_def list_all_iff intro!: emits_give)
  show ?thesis
    by (rule emits_seq [where P = "\<lambda>r es. \<not> isl r \<and> es = [Asked ''start'']" and F = "\<lambda>_. start_post"])
      (auto intro!: emits_query go stop split: option.split simp: start_post_def)
qed

lemma emits_armWindow: "emits (armWindow d n ai) (aw_post d ai)"
proof -
  have a: "emits (attempt (retry d n (ArmCommitConfirmActivity d ai))) (\<lambda>r es. \<exists>q. r = Inr q \<and> arm_post d ai q es)"
    by (rule emits_attempt, rule emits_weaken [OF emits_arm_retry]) auto
  have quiet: "aw_post d ai (Inr (Inl out)) es" if "arm_post d ai q es" for out q es
    using arm_post_events [OF that] by (simp add: aw_post_def preceded_never)
  have off: "aw_post d ai (Inr (Inr False)) es" if "arm_post d ai (Inr ar) es" "\<not> ar_Eligible ar" "\<not> ar_NoOpRefused ar" "\<not> ar_MandateRefused ar" for ar es
    using arm_post_events [OF that(1)] that by (auto simp: aw_post_def arm_post_def preceded_never)
  have on: "aw_post d ai r (es @ fs)" if "arm_post d ai (Inr ar) es" "ar_Eligible ar" "\<not> ar_MandateRefused ar" "start_post r fs" for ar r es fs
    using arm_post_events [OF that(1)] that by (auto simp: aw_post_def arm_post_def start_post_def list_ex_iff preceded_never)
  show ?thesis unfolding armWindow_def
    by (rule emits_seq [OF a, where F = "\<lambda>q r fs. \<forall>es. arm_post d ai q es \<longrightarrow> aw_post d ai r (es @ fs)"])
      (auto split: sum.split intro!: emits_give emits_weaken [OF emits_start] dest: quiet off on)
qed

lemma armWindow_arms:
  "achieves (\<lambda>s. state_of (ai_ActionID ai) (ai_ExternalRef ai) s = Some CommitConfirmArmed) (\<lambda>v. v = Inr True) (armWindow d n ai)"
proof -
  have "achieves (\<lambda>s. state_of (ai_ActionID ai) (ai_ExternalRef ai) s = Some CommitConfirmArmed) ar_Eligible (retry d n (ArmCommitConfirmActivity d ai))"
    by (rule achieves_retry [OF arm_activity_arms]) simp
  then show ?thesis
    by (auto simp: achieves_def armWindow_def seq_def attempt_def give_def query_def tell_def split: prod.splits sum.splits if_splits option.splits)
qed


section \<open>The evidence behind a confirmation\<close>

lemma give_eq [simp]: "give v s = (r, s') \<longleftrightarrow> r = Inr v \<and> s' = s"
  by (auto simp: give_def)

lemma seq_InrE:
  assumes "seq m f s = (Inr v, s')"
  obtains u t where "m s = (Inr u, t)" and "f u t = (Inr v, s')"
  using assms by (auto simp: seq_def split: prod.splits sum.splits)

lemma query_eq: "query e f s = (r, s') \<longleftrightarrow> r = Inr (f (cs_log s)) \<and> s' = s\<lparr>cs_log := cs_log s @ [e]\<rparr>"
  by (auto simp: query_def)

definition shown_alive :: "Deps \<Rightarrow> ActionManifest option \<Rightarrow> string \<Rightarrow> bool" where
  "shown_alive d m host \<longleftrightarrow>
     (\<exists>f spec l running prov. dp_guest d = Some f
        \<and> Lookup (dp_registry d) (dp_overlay d) (case m of None \<Rightarrow> [] | Some m \<Rightarrow> ac_OpClass (am_Action m)) = Some spec
        \<and> f l (guest_or_host (case m of None \<Rightarrow> [] | Some m \<Rightarrow> action_param ''guest'' (am_Action m)) host) = (running, prov, True)
        \<and> reached (oc_RequiresTargetState spec) running)"

definition shown_recovered :: "Deps \<Rightarrow> string \<Rightarrow> string \<Rightarrow> instant \<Rightarrow> bool" where
  "shown_recovered d host rule t \<longleftrightarrow> (\<exists>f l. dp_recovered d = Some f \<and> f l host rule t = Inr True)"

lemma liveness_positive: "liveness_confirms d m host s = (Inr True, s') \<Longrightarrow> shown_alive d m host"
  by (auto simp: liveness_confirms_def shown_alive_def query_eq split: option.splits if_splits elim!: seq_InrE) (metis prod_cases3)+

lemma recovery_positive: "recovery_confirms d co m host e s = (Inr True, s') \<Longrightarrow> shown_recovered d host (co_AlertRule co) (fe_ExecutedAt e)"
  by (auto simp: recovery_confirms_def shown_recovered_def query_eq split: option.splits if_splits elim!: seq_InrE)

lemma terminus_confirmed: "terminus_disposition found c = ConsultConfirmed \<Longrightarrow> \<exists>e. found = Some e \<and> \<not> fe_Unverifiable e \<and> fe_Verdict e = VerdictMatch"
  by (auto simp: terminus_disposition_def tg_consts split: option.splits if_splits)

lemma substitute_positive:
  assumes "substitute_confirms d co m host found s = (Inr True, s')"
  shows "\<exists>e. found = Some e \<and> fe_Unverifiable e \<and> (shown_alive d m host \<or> shown_recovered d host (co_AlertRule co) (fe_ExecutedAt e))"
  using assms
  by (auto simp: substitute_confirms_def split: option.splits if_splits elim!: seq_InrE dest!: liveness_positive recovery_positive)


section \<open>A deployment\<close>

definition cc_spec :: OpClassSpec where
  "cc_spec = demo_spec\<lparr>oc_CommitConfirmed := Some 300\<rparr>"

definition cc_manifest :: ActionManifest where
  "cc_manifest =
     seal ''a1'' \<lparr>ac_Target = ''web1'', ac_OpClass = ''restart-service'', ac_Op = ''restart'',
                  ac_Params = Some [(''unit'', ''nginx'')], ac_Reversible = True\<rparr> BandAuto ''p1'' ''q1''"

text \<open>The effect is recorded with a given verdict, and the inverse executes with another.\<close>

definition cc_deps :: "verdict \<Rightarrow> verdict \<Rightarrow> (cc_event list \<Rightarrow> db_fault) \<Rightarrow> Deps" where
  "cc_deps v w fault =
     \<lparr>dp_registry = [''restart-service'' \<mapsto> cc_spec], dp_overlay = Map.empty, dp_hash = (\<lambda>_. ''h1''), dp_now = (\<lambda>_. 0),
      dp_fault = fault, dp_lost = (\<lambda>_. False), dp_giveUp = (\<lambda>_. False), dp_store = True, dp_getter = True, dp_ledger = (\<lambda>_ _. None),
      dp_canary = None, dp_rung = None, dp_guest = None, dp_grad = Some (\<lambda>_ _ _ _. None),
      dp_executions = Some (\<lambda>_ _ _. Inr (Some \<lparr>fe_TargetHost = ''web1'', fe_Site = ''s1'', fe_Verdict = v, fe_Unverifiable = False, fe_ExecutedAt = 1\<rparr>)),
      dp_manifests = Some (\<lambda>_ _. Inr (Some cc_manifest)), dp_postState = None, dp_recovered = None, dp_sink = None,
      dp_breaker = Some (\<lambda>_. None), dp_notify = (\<lambda>_. None), dp_timer = (\<lambda>_. None), dp_start = (\<lambda>_. None),
      dp_inverse = (\<lambda>_ _. Inr \<lparr>xr_Executed = True, xr_Verdict = w\<rparr>), dp_forward = (\<lambda>_. Inr \<lparr>xr_Executed = True, xr_Verdict = v\<rparr>),
      dp_verified = (\<lambda>_. True)\<rparr>"

definition cc_arm :: ArmCommitConfirmInput where
  "cc_arm = \<lparr>ai_ActionID = ''a1'', ai_ExternalRef = ''i1'', ai_OpClass = ''restart-service'', ai_TargetHost = ''web1'', ai_Site = ''s1'',
             ai_PlanHash = ''p1'', ai_Band = ''AUTO'', ai_Approved = False, ai_AlertRule = ''down'', ai_GuestParam = []\<rparr>"

definition cc_empty :: cc_state where
  "cc_empty = \<lparr>cs_rows = [], cs_log = []\<rparr>"

definition cc_armed :: cc_state where
  "cc_armed = snd (forwardArmed (cc_deps VerdictDeviation VerdictMatch (\<lambda>_. Works)) 1 cc_arm cc_empty)"

definition cc_input :: CommitConfirmInput where
  "cc_input = \<lparr>ci_ActionID = ''a1'', ci_ExternalRef = ''i1'', ci_WindowSeconds = 300, ci_AlertRule = ''down''\<rparr>"



theorem row_life_witness:
  "\<exists>s' r r'. cc_step\<^sup>*\<^sup>* cc_armed s' \<and> row_of ''a1'' ''i1'' cc_armed = Some r \<and> row_of ''a1'' ''i1'' s' = Some r'
     \<and> cr_State r = CommitConfirmArmed \<and> cr_State r' = CommitConfirmReverted \<and> cr_ForwardBand r' = ''AUTO''"
proof -
  let ?d = "cc_deps VerdictDeviation VerdictMatch (\<lambda>_. Works)"
  let ?run = "CommitConfirmWorkflow ?d cc_input [''confirm-input''] cc_armed"
  have run: "cc_step\<^sup>*\<^sup>* cc_armed (snd ?run)" by (rule r_into_rtranclp, rule cc_step.window [of ?d cc_input "[''confirm-input'']" _ "fst ?run"]) simp
  have a: "state_of ''a1'' ''i1'' cc_armed = Some CommitConfirmArmed" "map_option cr_ForwardBand (row_of ''a1'' ''i1'' cc_armed) = Some ''AUTO''" by code_simp+
  then obtain r where r: "row_of ''a1'' ''i1'' cc_armed = Some r" "cr_State r = CommitConfirmArmed" "cr_ForwardBand r = ''AUTO''" by (auto simp: state_of_def)
  have "state_of ''a1'' ''i1'' (snd ?run) = Some CommitConfirmReverted" by code_simp
  then show ?thesis using row_life [OF run r(1)] run r by (auto simp: state_of_def)
qed


text \<open>
  A failed revert that cannot be recorded is silent. The window fires the inverse, which executes and deviates,
  and then every statement that would record the failure fails: the run ends in an error without a page and
  without asking for the breaker, although the comment above \<^verbatim>\<open>commitConfirmFireInverse\<close> says that every
  non-clean outcome pages and trips. The row is still armed, so the sweep adopts it, and the adopted window
  fires the inverse a second time.
\<close>

definition outage :: "cc_event list \<Rightarrow> db_fault" where
  "outage l = (if list_ex fires l then Fails else Works)"

theorem unrecorded_revert_is_silent_and_repeats:
  "\<exists>s1 e r. CommitConfirmWorkflow (cc_deps VerdictDeviation VerdictDeviation outage) cc_input [''confirm-input''] cc_armed = (Inl e, s1)
     \<and> inversions (cs_log s1) = 1 \<and> Paged \<notin> set (cs_log s1) \<and> TripAsked \<notin> set (cs_log s1)
     \<and> OverdueArmed 1000000000000 0 50 s1 = [r]
     \<and> inversions (cs_log (snd (CommitConfirmWorkflow (cc_deps VerdictDeviation VerdictDeviation (\<lambda>_. Works)) (adopted r) [] s1))) = 2"
proof -
  let ?c = "CommitConfirmWorkflow (cc_deps VerdictDeviation VerdictDeviation outage) cc_input [''confirm-input''] cc_armed"
  let ?o = "OverdueArmed 1000000000000 0 50 (snd ?c)"
  have "isl (fst ?c)" by code_simp
  then obtain e where c: "?c = (Inl e, snd ?c)" by (cases ?c) (auto simp: isl_def)
  have "inversions (cs_log (snd ?c)) = 1" "\<not> list_ex (\<lambda>e. e = Paged) (cs_log (snd ?c))" "\<not> list_ex (\<lambda>e. e = TripAsked) (cs_log (snd ?c))" by code_simp+
  moreover have "length ?o = 1" by code_simp
  then have "?o = [hd ?o]" by (cases ?o) auto
  moreover have "inversions (cs_log (snd (CommitConfirmWorkflow (cc_deps VerdictDeviation VerdictDeviation (\<lambda>_. Works)) (adopted (hd ?o)) [] (snd ?c)))) = 2"
    by code_simp
  ultimately show ?thesis using c by (auto simp: list_ex_iff)
qed

end
