(* ===== verification/Spec2Isabelle.thy ===== *)
theory Spec2Isabelle
  imports Ledger_Anchor Risk Policy_Audit Interceptor_Facts Recon Commit_Confirm_Facts
begin

text \<open>
  \<^bold>\<open>Territory Grounder: a verification of its governed actuation core.\<close>

  Territory Grounder lets an agent investigate incidents and, under strict control, change the estate. The agent
  proposes; deterministic Go code decides whether anything happens. This development models that code: what may
  act, under which conditions, what is recorded, and what a failure anywhere does. It is translated from the
  sources under \<^verbatim>\<open>src/core\<close> function by function, with the source's names where HOL allows them.

  \<^bold>\<open>The parts and how they interact.\<close> A proposed action is sealed in a manifest whose id is the hash of its canonical
  form. The risk classifier assigns it a band. The interception chain then runs every gate in a fixed order: the
  safety floor, the sealed identity, the schema of its operation class, evidence, territory, the policy engine (rules,
  confidence and rate, band, graduation, deny floor), the circuit breaker, the mode chokepoint and the frequency
  limiter, and only then calls the actuator. Afterwards the mechanical verdict compares what was observed with the
  committed prediction; a deviation trips the breaker, which forces the mode to Shadow, and demotes the class
  on the graduation ladder. Every decision is a row of the hash-chained ledger, whose head is anchored.

  \<^bold>\<open>Theories and sources.\<close>

  \<^item> \<open>TG_Prelude\<close>, \<open>TG_Regex\<close>, \<open>TG_Glob\<close>, \<open>TG_Json\<close>: what the sources use of Go's string, formatting, time, regular
    expression, path matching, UTF-8 and JSON libraries, with the lemmas shared by the components.
  \<^item> \<open>Safety\<close> (\<^verbatim>\<open>core/safety/safety.go\<close>): bands, verdicts, the never-auto floor and the stateful, restart and
    destructive patterns. Lemmas: no spelling of a floor class and no destructive word between boundaries escapes.
  \<^item> \<open>Ledger\<close>, \<open>Ledger_Anchor\<close> (\<^verbatim>\<open>core/audit\<close>, \<^verbatim>\<open>core/db/ledger*.go\<close>): append with retries on a shared table,
    verification, anchors. Lemmas: appends by any number of writers keep one valid chain, a quiet table always accepts, a
    head hash or an anchor binds the whole history up to a hash collision.
  \<^item> \<open>Risk\<close> (\<^verbatim>\<open>core/risk\<close>): the classifier is equal to a first-match table and monotone in risk.
  \<^item> \<open>Breaker\<close> (\<^verbatim>\<open>core/breaker\<close>, \<^verbatim>\<open>core/safety/mutation_breaker.go\<close>): the stored breaker refines an abstract
    three-state machine; a trip fails closed, and of many openers one wins. The locale \<open>breaker_store\<close> states what the
    breaker needs of a store and is interpreted on both stores of the code.
  \<^item> \<open>Verify\<close> (\<^verbatim>\<open>core/verify/verdict.go\<close>, \<^verbatim>\<open>core/knowledge/rulefamily.go\<close>): what each verdict means.
  \<^item> \<open>Policy_Rules\<close>, \<open>Policy_Narrow\<close>, \<open>Policy_Floor\<close>, \<open>Graduation\<close>, \<open>Policy_Engine\<close>, \<open>Policy_Audit\<close>
    (\<^verbatim>\<open>core/policy\<close>): parsing and matching of rules, the narrowing steps, the deny floor, the graduation ladder
    over two stores, the decision pipeline and its audit. Lemmas: an exact characterisation of the automatic verdict,
    rate and promotion bounds, independence of the mode, and what confirmed, audited changes require.
  \<^item> \<open>Mode\<close> (\<^verbatim>\<open>core/policy/mode*.go\<close>, \<^verbatim>\<open>core/safety/mutation_chokepoint.go\<close>): the autonomy mode as an inductive
    system whose steps are the critical sections of the controller. Lemmas: a kill holds under every interleaving; locales
    \<open>mode_store\<close> and \<open>mode_authority\<close> with interpretations on the code's stores and authorities.
  \<^item> \<open>OpSchema\<close> (\<^verbatim>\<open>core/actuate/opschema\<close>): declarations, the registry and its runtime overlay, argument vectors.
    Lemmas: validated parameters always render to the fixed template, matching inverts rendering, and nothing
    unattested or shadowing enters the overlay.
  \<^item> \<open>Manifest\<close> (\<^verbatim>\<open>core/manifest\<close>): the canonical encoding is injective, so an id binds its action; the lifecycle chain
    is append-only and verifies after any sequence of calls.
  \<^item> \<open>Territory\<close> (\<^verbatim>\<open>core/territory\<close>) and \<open>Limiter\<close> (\<^verbatim>\<open>core/actuate/limiter.go\<close>): the territory gate, and the frequency
    governor with its caps proved over all runs.
  \<^item> \<open>Interceptor\<close>, \<open>Interceptor_Facts\<close> (\<^verbatim>\<open>core/actuate/interceptor.go\<close>): the chain \<open>Do\<close>, a step calculus for it, and its
    properties: an effect needs every gate, every outcome is on the ledger, a deviation trips the breaker and never
    promotes, and the limiter's slots always come back.

  \<^bold>\<open>How the model is built.\<close> Structs are records, enumerations of strings stay strings where the code compares strings, and
  every error return is a constructor; the wording of messages is kept only where another part reads it. State is passed
  explicitly. Stores are records of functions over a state, with a database that may fail at any statement; concurrent
  writers are an arbitrary environment between statements or an inductive step relation. In the chain, the answers of
  a collaborator are functions of the whole trace, so the theorems quantify over every behaviour of the
  outside. Integers are \<^typ>\<open>int\<close>, except counters whose wrap-around is reachable (\<^typ>\<open>64 word\<close>); times are
  nanoseconds as \<^typ>\<open>int\<close>; \<^verbatim>\<open>float64\<close> values are compared only.

  \<^bold>\<open>Bounds and fuel.\<close> No model runs on fuel. The retry loops of the ledger append and of the graduation record carry the
  code's own bound on attempts as their argument. The regular-expression matcher and the JSON encoder terminate by
  the size of the text, and every other recursion is structural.

  \<^bold>\<open>Parameters.\<close> SHA-256 (with its hex form), the Rego interpreter, the canonical hash of a class declaration, the JSON of
  a rule bundle, clocks, and the interfaces the chain calls. Nothing is assumed of a hash: statements end in a
  collision of two given byte strings.

  \<^bold>\<open>Not modelled, and why.\<close> White space and letter case follow the ASCII tables, a limit of the string model. Log lines,
  metrics and texts shown to operators are left out. The agent loop, the Temporal workflows, process wiring, the HTTP
  interface, adapters and modules are orchestration and input/output around this core; their interfaces are parameters.
  Planned next, in this order: the prediction gate (\<^verbatim>\<open>core/predict\<close>), the composition of the chain with the modelled breaker
  and mode controller in one system, the recon budget, suppression and escalation, credential resolution and the
  actuation regimes.
\<close>

end
